(* ===== verification/Prelude.thy ===== *)
theory Prelude
  imports Main "HOL-Library.Char_ord" "HOL-Library.List_Lexorder" "HOL-Library.Product_Lexorder"
    "HOL-Library.Word"
begin

text \<open>
  What every component shares. The result type of the Rust code (\<open>Result<T, E>\<close>) is the
  sum \<open>'e + 'a\<close>, with \<open>Inl\<close> for the error; \<open>bind_res\<close> is the \<open>?\<close>
  operator, \<open>traverse\<close> is \<open>collect::<Result<Vec<_>, _>>\<close> and \<open>each_ok\<close> a loop
  of checks that returns at the first error. A \<open>BTreeMap\<close> is an association list in
  strictly increasing key order and a \<open>BTreeSet\<close> a strictly increasing list, so that
  iteration has the order the code observes. The locales at the end state what a map
  promises and what a load loop that refuses a repeated key establishes.
\<close>

section \<open>Names and text\<close>

text \<open>
  A Rust string that has not been parsed is the list of its Unicode scalar values
  (\<open>ustr\<close>); a parsed identifier is ASCII and is a \<open>string\<close>. Both orders are the
  byte order of \<open>str\<close>, because UTF-8 keeps the order of the scalar values.
\<close>

type_synonym ustr = "nat list"
type_synonym name = string

definition codes :: "string \<Rightarrow> ustr" where
  "codes s = map of_char s"

section \<open>Results\<close>

definition bind_res :: "'e + 'a \<Rightarrow> ('a \<Rightarrow> 'e + 'b) \<Rightarrow> 'e + 'b" where
  "bind_res r f = (case r of Inl e \<Rightarrow> Inl e | Inr a \<Rightarrow> f a)"

definition map_res :: "('a \<Rightarrow> 'b) \<Rightarrow> 'e + 'a \<Rightarrow> 'e + 'b" where
  "map_res f r = (case r of Inl e \<Rightarrow> Inl e | Inr a \<Rightarrow> Inr (f a))"

definition map_err :: "('e \<Rightarrow> 'f) \<Rightarrow> 'e + 'a \<Rightarrow> 'f + 'a" where
  "map_err f r = (case r of Inl e \<Rightarrow> Inl (f e) | Inr a \<Rightarrow> Inr a)"

definition ok_or :: "'e \<Rightarrow> 'a option \<Rightarrow> 'e + 'a" where
  "ok_or e x = (case x of None \<Rightarrow> Inl e | Some a \<Rightarrow> Inr a)"

definition ensure :: "bool \<Rightarrow> 'e \<Rightarrow> 'e + unit" where
  "ensure c e = (if c then Inr () else Inl e)"

primrec traverse :: "('a \<Rightarrow> 'e + 'b) \<Rightarrow> 'a list \<Rightarrow> 'e + 'b list" where
  "traverse f [] = Inr []"
| "traverse f (x # xs) = bind_res (f x) (\<lambda>y. bind_res (traverse f xs) (\<lambda>ys. Inr (y # ys)))"

primrec each_ok :: "('a \<Rightarrow> 'e + unit) \<Rightarrow> 'a list \<Rightarrow> 'e + unit" where
  "each_ok f [] = Inr ()"
| "each_ok f (x # xs) = bind_res (f x) (\<lambda>_. each_ok f xs)"

definition is_ok :: "'e + 'a \<Rightarrow> bool" where
  "is_ok r = (case r of Inl _ \<Rightarrow> False | Inr _ \<Rightarrow> True)"

named_theorems res_simps \<open>how a result is taken apart\<close>

lemma bind_res_simps [simp]:
  "bind_res (Inl e) f = Inl e" "bind_res (Inr a) f = f a"
  by (simp_all add: bind_res_def)

lemma map_res_simps [simp]:
  "map_res g (Inl e) = Inl e" "map_res g (Inr a) = Inr (g a)"
  by (simp_all add: map_res_def)

lemma map_err_simps [simp]:
  "map_err g (Inl e) = Inl (g e)" "map_err g (Inr a) = Inr a"
  by (simp_all add: map_err_def)

lemma ok_or_simps [simp]:
  "ok_or e None = Inl e" "ok_or e (Some a) = Inr a"
  by (simp_all add: ok_or_def)

lemma is_ok_simps [simp]:
  "\<not> is_ok (Inl e)" "is_ok (Inr a)"
  by (simp_all add: is_ok_def)

lemma bind_res_eq_Inr [res_simps]:
  "bind_res r f = Inr b \<longleftrightarrow> (\<exists>a. r = Inr a \<and> f a = Inr b)"
  by (cases r) auto

lemma bind_res_eq_Inl [res_simps]:
  "bind_res r f = Inl e \<longleftrightarrow> r = Inl e \<or> (\<exists>a. r = Inr a \<and> f a = Inl e)"
  by (cases r) auto

lemma map_res_eq_Inl: "map_res f r = Inl e \<longleftrightarrow> r = Inl e"
  by (cases r) (simp_all add: map_res_def)

lemma map_res_eq_Inr [res_simps]:
  "map_res g r = Inr b \<longleftrightarrow> (\<exists>a. r = Inr a \<and> b = g a)"
  by (cases r) auto

lemma map_err_eq_Inr [res_simps]: "map_err g r = Inr b \<longleftrightarrow> r = Inr b"
  by (cases r) auto

lemma map_err_eq_Inl [res_simps]: "map_err g r = Inl f \<longleftrightarrow> (\<exists>e. r = Inl e \<and> f = g e)"
  by (cases r) auto

lemma ok_or_eq_Inr [res_simps]: "ok_or e x = Inr a \<longleftrightarrow> x = Some a"
  by (cases x) auto

lemma ok_or_eq_Inl [res_simps]: "ok_or e x = Inl f \<longleftrightarrow> x = None \<and> f = e"
  by (cases x) auto

lemma ensure_eq_Inr [res_simps]: "ensure c e = Inr u \<longleftrightarrow> c"
  by (simp add: ensure_def)

lemma ensure_eq_Inl [res_simps]: "ensure c e = Inl f \<longleftrightarrow> \<not> c \<and> f = e"
  by (auto simp: ensure_def)

lemma bind_res_cong [fundef_cong]:
  assumes "r = r'" and "\<And>a. r' = Inr a \<Longrightarrow> f a = f' a"
  shows "bind_res r f = bind_res r' f'"
  using assms by (cases r') auto

lemma bind_ensure:
  "bind_res (ensure c e) f = (if c then f () else Inl e)"
  by (simp add: ensure_def)

lemma traverse_eq_Inr: "traverse f xs = Inr ys \<longleftrightarrow> list_all2 (\<lambda>x y. f x = Inr y) xs ys"
  by (induction xs arbitrary: ys) (auto simp: res_simps list_all2_Cons1)

lemma traverse_image: "traverse f xs = Inr ys \<Longrightarrow> y \<in> set ys \<Longrightarrow> \<exists>x \<in> set xs. f x = Inr y"
  by (induction xs arbitrary: ys) (auto simp: res_simps)

lemma traverse_length: "traverse f xs = Inr ys \<Longrightarrow> length ys = length xs"
  by (auto simp: traverse_eq_Inr dest: list_all2_lengthD)

lemma traverse_exists:
  assumes "\<And>x. x \<in> set xs \<Longrightarrow> \<exists>y. f x = Inr y \<and> P x y"
  shows "\<exists>ys. traverse f xs = Inr ys \<and> list_all2 P xs ys"
  using assms
proof (induction xs)
  case (Cons x xs)
  then obtain y ys where "f x = Inr y" "P x y" "traverse f xs = Inr ys" "list_all2 P xs ys" by force
  then show ?case by auto
qed simp

lemma traverse_total:
  assumes "\<And>x. x \<in> set xs \<Longrightarrow> is_ok (f x)"
  shows "is_ok (traverse f xs)"
  using assms
proof (induction xs)
  case (Cons x xs)
  then have "is_ok (f x)" and "is_ok (traverse f xs)" by auto
  then show ?case by (cases "f x"; cases "traverse f xs") auto
qed simp

lemma traverse_cong [fundef_cong]:
  assumes "xs = ys" and "\<And>x. x \<in> set ys \<Longrightarrow> f x = g x"
  shows "traverse f xs = traverse g ys"
  using assms by (induction xs arbitrary: ys) auto

lemma each_ok_eq_Inr [res_simps]: "each_ok f xs = Inr u \<longleftrightarrow> (\<forall>x \<in> set xs. f x = Inr ())"
  by (induction xs) (auto simp: res_simps)

lemma each_ok_eq_Inl: "each_ok f xs = Inl e \<Longrightarrow> \<exists>x \<in> set xs. f x = Inl e"
  by (induction xs) (auto simp: res_simps)

lemma is_ok_iff: "is_ok r \<longleftrightarrow> (\<exists>a. r = Inr a)"
  by (cases r) auto

lemma traverse_append:
  "traverse f (xs @ ys) = bind_res (traverse f xs) (\<lambda>as. map_res (\<lambda>bs. as @ bs) (traverse f ys))"
proof (induction xs)
  case Nil
  show ?case by (cases "traverse f ys") (simp_all add: map_res_def)
next
  case (Cons x xs)
  then show ?case
    by (cases "f x"; cases "traverse f xs"; cases "traverse f ys") (simp_all add: map_res_def bind_res_def)
qed

lemma traverse_concat:
  "map_res concat (traverse (\<lambda>a. traverse f (h a)) xs) = traverse f (concat (map h xs))"
proof (induction xs)
  case (Cons x xs)
  show ?case unfolding concat.simps list.map traverse_append Cons.IH [symmetric]
    by (cases "traverse f (h x)"; cases "traverse (\<lambda>a. traverse f (h a)) xs") (simp_all add: map_res_def bind_res_def)
qed (simp add: map_res_def)

lemma traverse_all_ok: "(\<forall>x \<in> set xs. g x = Inr (h x)) \<Longrightarrow> traverse g xs = Inr (map h xs)"
  by (induction xs) auto

lemma traverse_first_error:
  "(\<forall>a \<in> set xs. is_ok (f a)) \<Longrightarrow> f x = Inl e \<Longrightarrow> traverse f (xs @ x # ys) = Inl e"
  by (induction xs) (auto simp: is_ok_iff)

text \<open>\<open>enumerate\<close> over a list, from position 0.\<close>

definition enumerated :: "'a list \<Rightarrow> (nat \<times> 'a) list" where
  "enumerated xs = zip [0..<length xs] xs"

lemma in_set_enumerated: "(i, x) \<in> set (enumerated xs) \<longleftrightarrow> i < length xs \<and> xs ! i = x"
  by (auto simp: enumerated_def in_set_conv_nth intro!: exI [of _ i])

lemma ball_enumerated: "(\<forall>x \<in> set (enumerated xs). P x) \<longleftrightarrow> (\<forall>i < length xs. P (i, xs ! i))"
  using in_set_enumerated by fastforce

lemma enumerated_nth [simp]: "i < length xs \<Longrightarrow> enumerated xs ! i = (i, xs ! i)"
  by (simp add: enumerated_def)

lemma length_enumerated [simp]: "length (enumerated xs) = length xs"
  by (simp add: enumerated_def)

section \<open>Ordered maps and sets\<close>

type_synonym ('k, 'v) btree = "('k \<times> 'v) list"

fun bt_insert :: "'k::linorder \<Rightarrow> 'v \<Rightarrow> ('k, 'v) btree \<Rightarrow> ('k, 'v) btree" where
  "bt_insert k v [] = [(k, v)]"
| "bt_insert k v ((k', v') # m) =
     (if k < k' then (k, v) # (k', v') # m
      else if k = k' then (k, v) # m
      else (k', v') # bt_insert k v m)"

abbreviation bt_get :: "('k, 'v) btree \<Rightarrow> 'k \<Rightarrow> 'v option" where
  "bt_get m k \<equiv> map_of m k"

abbreviation bt_values :: "('k, 'v) btree \<Rightarrow> 'v list" where
  "bt_values m \<equiv> map snd m"

abbreviation bt_keys :: "('k, 'v) btree \<Rightarrow> 'k list" where
  "bt_keys m \<equiv> map fst m"

definition bt_inv :: "('k::linorder, 'v) btree \<Rightarrow> bool" where
  "bt_inv m = sorted_wrt (<) (map fst m)"

fun bs_insert :: "'a::linorder \<Rightarrow> 'a list \<Rightarrow> 'a list" where
  "bs_insert x [] = [x]"
| "bs_insert x (y # ys) =
     (if x < y then x # y # ys else if x = y then y # ys else y # bs_insert x ys)"

definition bs_of :: "'a::linorder list \<Rightarrow> 'a list" where
  "bs_of xs = fold bs_insert xs []"

lemma bt_get_insert [simp]: "bt_get (bt_insert k v m) = (bt_get m)(k \<mapsto> v)"
  by (induction k v m rule: bt_insert.induct) auto

lemma set_keys_insert: "set (bt_keys (bt_insert k v m)) = insert k (set (bt_keys m))"
  by (induction k v m rule: bt_insert.induct) auto

lemma bt_inv_Nil [simp]: "bt_inv []"
  by (simp add: bt_inv_def)

lemma bt_inv_insert: "bt_inv m \<Longrightarrow> bt_inv (bt_insert k v m)"
proof (induction k v m rule: bt_insert.induct)
  case (2 k v k' v' m)
  then show ?case
    using set_keys_insert [of k v m] by (auto simp: bt_inv_def)
qed (simp add: bt_inv_def)

lemma bt_inv_distinct: "bt_inv m \<Longrightarrow> distinct (bt_keys m)"
  by (auto simp: bt_inv_def strict_sorted_iff)

lemma bt_get_eq_Some: "bt_inv m \<Longrightarrow> bt_get m k = Some v \<longleftrightarrow> (k, v) \<in> set m"
  by (simp add: bt_inv_distinct)

lemma in_values: "v \<in> set (bt_values m) \<longleftrightarrow> (\<exists>k. (k, v) \<in> set m)"
  by force

lemma get_in_values: "bt_get m k = Some v \<Longrightarrow> v \<in> set (bt_values m)"
  by (force dest: map_of_SomeD)

lemma find_Some_mem: "List.find P xs = Some y \<Longrightarrow> y \<in> set xs \<and> P y"
  by (induction xs) (auto split: if_splits)

lemma find_Some_exists: "x \<in> set xs \<Longrightarrow> P x \<Longrightarrow> \<exists>y. List.find P xs = Some y \<and> y \<in> set xs \<and> P y"
  by (induction xs) auto

lemma set_map_filter: "set (List.map_filter f xs) = {y. \<exists>x \<in> set xs. f x = Some y}"
  by (force simp: map_filter_def)

lemma set_bs_insert [simp]: "set (bs_insert x ys) = insert x (set ys)"
  by (induction x ys rule: bs_insert.induct) auto

lemma sorted_bs_insert: "sorted_wrt (<) ys \<Longrightarrow> sorted_wrt (<) (bs_insert x ys)"
  by (induction x ys rule: bs_insert.induct) auto

lemma fold_bs_insert:
  "sorted_wrt (<) ys \<Longrightarrow>
     sorted_wrt (<) (fold bs_insert xs ys) \<and> set (fold bs_insert xs ys) = set xs \<union> set ys"
proof (induction xs arbitrary: ys)
  case (Cons x xs)
  then show ?case using sorted_bs_insert [of ys x] by force
qed simp

lemma set_bs_of [simp]: "set (bs_of xs) = set xs"
  using fold_bs_insert [of "[]" xs] by (simp add: bs_of_def)

lemma sorted_bs_of: "sorted_wrt (<) (bs_of xs)"
  using fold_bs_insert [of "[]" xs] by (simp add: bs_of_def)

lemma distinct_bs_of: "distinct (bs_of xs)"
  using sorted_bs_of [of xs] by (simp add: strict_sorted_iff)

section \<open>What a map promises, and what a load loop establishes\<close>

locale ordered_store =
  fixes emp :: 'm
    and ins :: "'k::linorder \<Rightarrow> 'v \<Rightarrow> 'm \<Rightarrow> 'm"
    and get :: "'m \<Rightarrow> 'k \<Rightarrow> 'v option"
    and ents :: "'m \<Rightarrow> ('k \<times> 'v) list"
    and ok :: "'m \<Rightarrow> bool"
  assumes ok_emp: "ok emp"
    and ok_ins: "ok m \<Longrightarrow> ok (ins k v m)"
    and get_emp: "get emp k = None"
    and get_ins: "ok m \<Longrightarrow> get (ins k v m) = (get m)(k \<mapsto> v)"
    and ents_get: "ok m \<Longrightarrow> (k, v) \<in> set (ents m) \<longleftrightarrow> get m k = Some v"
    and ents_order: "ok m \<Longrightarrow> sorted_wrt (<) (map fst (ents m))"
begin

lemma ents_unique: "ok m \<Longrightarrow> (k, v) \<in> set (ents m) \<Longrightarrow> (k, w) \<in> set (ents m) \<Longrightarrow> v = w"
  by (simp add: ents_get)

lemma ents_ins: "ok m \<Longrightarrow> (k, v) \<in> set (ents (ins k v m))"
  by (simp add: ents_get ok_ins get_ins)

end

interpretation bt: ordered_store "[]" bt_insert map_of "\<lambda>m. m" bt_inv
  by unfold_locales (auto simp: bt_inv_insert bt_inv_distinct, simp add: bt_inv_def)

text \<open>
  A load loop inserts each item under its key after a check of its own and refuses a key
  that is already taken. Whatever the items are, the loaded map holds exactly them.
\<close>

locale unique_loader = ordered_store emp ins get ents ok
  for emp :: 'm and ins :: "'k::linorder \<Rightarrow> 'v \<Rightarrow> 'm \<Rightarrow> 'm"
    and get and ents :: "'m \<Rightarrow> ('k \<times> 'v) list" and ok +
  fixes key :: "'v \<Rightarrow> 'k"
    and check :: "'v \<Rightarrow> 'e + unit"
    and dup :: "'v \<Rightarrow> 'e"
    and load :: "'m \<Rightarrow> 'v list \<Rightarrow> 'e + 'm"
  assumes load_Nil: "load m [] = Inr m"
    and load_Cons: "load m (x # xs) =
      (case check x of Inl e \<Rightarrow> Inl e
       | Inr _ \<Rightarrow> (case get m (key x) of Some y \<Rightarrow> Inl (dup y)
                  | None \<Rightarrow> load (ins (key x) x m) xs))"
begin

lemma load_ok: "load m xs = Inr m' \<Longrightarrow> ok m \<Longrightarrow> ok m'"
  by (induction xs arbitrary: m) (auto simp: load_Nil load_Cons ok_ins split: sum.splits option.splits)

lemma load_checked: "load m xs = Inr m' \<Longrightarrow> x \<in> set xs \<Longrightarrow> check x = Inr ()"
  by (induction xs arbitrary: m) (auto simp: load_Nil load_Cons split: sum.splits option.splits)

lemma load_get:
  "load m xs = Inr m' \<Longrightarrow> ok m \<Longrightarrow>
     get m' k = Some v \<longleftrightarrow> get m k = Some v \<or> (v \<in> set xs \<and> key v = k)"
proof (induction xs arbitrary: m)
  case Nil
  then show ?case by (simp add: load_Nil)
next
  case (Cons x xs)
  then have step: "load (ins (key x) x m) xs = Inr m'" and fresh: "get m (key x) = None"
    by (auto simp: load_Cons split: sum.splits option.splits)
  from Cons.IH [OF step ok_ins [OF Cons.prems(2)]] fresh Cons.prems(2) show ?case
    by (auto simp: get_ins)
qed

lemma load_fresh: "load m xs = Inr m' \<Longrightarrow> ok m \<Longrightarrow> x \<in> set xs \<Longrightarrow> get m (key x) = None"
proof (induction xs arbitrary: m)
  case (Cons y ys)
  then have step: "load (ins (key y) y m) ys = Inr m'" and fresh: "get m (key y) = None"
    by (auto simp: load_Cons split: sum.splits option.splits)
  show ?case
  proof (cases "x = y")
    case False
    with Cons.prems have "x \<in> set ys" by simp
    from Cons.IH [OF step ok_ins [OF Cons.prems(2)] this] Cons.prems(2) show ?thesis
      by (auto simp: get_ins split: if_splits)
  qed (use fresh in simp)
qed (simp add: load_Nil)

lemma load_distinct: "load m xs = Inr m' \<Longrightarrow> ok m \<Longrightarrow> distinct (map key xs)"
proof (induction xs arbitrary: m)
  case (Cons y ys)
  then have step: "load (ins (key y) y m) ys = Inr m'"
    by (auto simp: load_Cons split: sum.splits option.splits)
  note okm = ok_ins [OF Cons.prems(2), of "key y" y]
  from Cons.IH [OF step okm] have "distinct (map key ys)" .
  moreover have "key y \<notin> key ` set ys"
  proof
    assume "key y \<in> key ` set ys"
    then obtain x where "x \<in> set ys" "key x = key y" by auto
    with load_fresh [OF step okm, of x] Cons.prems(2) show False by (simp add: get_ins)
  qed
  ultimately show ?case by simp
qed simp

lemma load_succeeds:
  assumes "\<forall>x \<in> set xs. check x = Inr ()" and "distinct (map key xs)"
    and "\<forall>x \<in> set xs. get m (key x) = None" and "ok m"
  shows "load m xs = Inr (fold (\<lambda>x. ins (key x) x) xs m)"
  using assms
proof (induction xs arbitrary: m)
  case (Cons x xs)
  have "key x \<notin> key ` set xs" using Cons.prems(2) by simp
  then have "\<forall>y \<in> set xs. get (ins (key x) x m) (key y) = None"
    using Cons.prems(3,4) by (auto simp: get_ins) (metis imageI)
  then have "load (ins (key x) x m) xs = Inr (fold (\<lambda>x. ins (key x) x) xs (ins (key x) x m))"
    using Cons.prems by (intro Cons.IH) (simp_all add: ok_ins)
  with Cons.prems show ?case by (simp add: load_Cons)
qed (simp add: load_Nil)

lemma load_iff:
  "load emp xs = Inr m \<longleftrightarrow> (\<forall>x \<in> set xs. check x = Inr ()) \<and> distinct (map key xs)
     \<and> m = fold (\<lambda>x. ins (key x) x) xs emp"
    (is "?load \<longleftrightarrow> ?checked \<and> ?distinct \<and> m = ?built")
proof
  have built: "load emp xs = Inr ?built" if ?checked ?distinct
    by (rule load_succeeds [OF that _ ok_emp]) (simp add: get_emp)
  then show "?checked \<and> ?distinct \<and> m = ?built \<Longrightarrow> ?load" by simp
  assume l: ?load
  then have cd: ?checked ?distinct using load_checked load_distinct [OF _ ok_emp] by blast+
  with built [OF cd] l show "?checked \<and> ?distinct \<and> m = ?built" by simp
qed

lemma loaded_exactly:
  assumes "load emp xs = Inr m"
  shows "ok m" and "get m k = Some v \<longleftrightarrow> v \<in> set xs \<and> key v = k" and "distinct (map key xs)"
    and "(k, v) \<in> set (ents m) \<longleftrightarrow> v \<in> set xs \<and> key v = k"
proof -
  show ok: "ok m" using load_ok [OF assms ok_emp] .
  show *: "get m k = Some v \<longleftrightarrow> v \<in> set xs \<and> key v = k" for k v
    using load_get [OF assms ok_emp] by (simp add: get_emp)
  show "distinct (map key xs)" using load_distinct [OF assms ok_emp] .
  show "(k, v) \<in> set (ents m) \<longleftrightarrow> v \<in> set xs \<and> key v = k" using ents_get [OF ok] * by simp
qed

end

section \<open>Machine integers\<close>

type_synonym u32 = "32 word"
type_synonym u64 = "64 word"

definition clamp :: "int \<Rightarrow> int \<Rightarrow> int \<Rightarrow> int" where
  "clamp lo hi x = (if x < lo then lo else if hi < x then hi else x)"

definition sat_i32 :: "int \<Rightarrow> int" where
  "sat_i32 x = clamp (- 2147483648) 2147483647 x"

definition sat_i16 :: "int \<Rightarrow> int" where
  "sat_i16 x = clamp (- 32768) 32767 x"

definition sat_u8 :: "int \<Rightarrow> int" where
  "sat_u8 x = clamp 0 255 x"

definition usize_max :: nat where
  "usize_max = 18446744073709551615"

definition sat_add_usize :: "nat \<Rightarrow> nat \<Rightarrow> nat" where
  "sat_add_usize a b = min (a + b) usize_max"

lemma sat_i32_id: "- 2147483648 \<le> x \<Longrightarrow> x \<le> 2147483647 \<Longrightarrow> sat_i32 x = x"
  by (simp add: sat_i32_def clamp_def)

lemma sat_i16_id: "- 32768 \<le> x \<Longrightarrow> x \<le> 32767 \<Longrightarrow> sat_i16 x = x"
  by (simp add: sat_i16_def clamp_def)

lemma sat_u8_id: "0 \<le> x \<Longrightarrow> x \<le> 255 \<Longrightarrow> sat_u8 x = x"
  by (simp add: sat_u8_def clamp_def)

definition sat_sum_usize :: "nat list \<Rightarrow> nat" where
  "sat_sum_usize xs = foldl sat_add_usize 0 xs"

lemma foldl_sat_add: "a \<le> usize_max \<Longrightarrow> foldl sat_add_usize a xs = min (a + sum_list xs) usize_max"
proof (induction xs arbitrary: a)
  case (Cons x xs)
  then show ?case using Cons.IH [of "sat_add_usize a x"] by (auto simp: sat_add_usize_def min_def)
qed simp

lemma sat_sum_usize_min: "sat_sum_usize xs = min (sum_list xs) usize_max"
  by (simp add: sat_sum_usize_def foldl_sat_add)

end
