(* ===== verification/Text.thy ===== *)
theory Text
  imports Prelude
begin

text \<open>
  The character rules of \<open>sutura-domain/src/text.rs\<close> and the parts of Rust's
  \<open>str\<close> and integer parsing the parsers rest on: \<open>trim\<close>, \<open>split\<close>, the
  UTF-8 length that \<open>str::len\<close> counts, \<open>char::is_control\<close>,
  \<open>char::is_whitespace\<close> and \<open>from_str\<close> of the integer types. The lemmas say
  what trimming, splitting and printing a number keep.
\<close>

section \<open>Characters\<close>

definition is_invisible :: "nat \<Rightarrow> bool" where
  "is_invisible c \<longleftrightarrow>
     c = 0xAD \<or> (0x200B \<le> c \<and> c \<le> 0x200F) \<or> (0x202A \<le> c \<and> c \<le> 0x202E)
     \<or> (0x2060 \<le> c \<and> c \<le> 0x2064) \<or> (0x2066 \<le> c \<and> c \<le> 0x2069)
     \<or> c = 0xFEFF \<or> (0xFFF9 \<le> c \<and> c \<le> 0xFFFB)"

definition first_invisible :: "ustr \<Rightarrow> nat option" where
  "first_invisible s = List.find is_invisible s"

text \<open>\<open>char::is_control\<close> is the general category Cc.\<close>

definition is_control :: "nat \<Rightarrow> bool" where
  "is_control c \<longleftrightarrow> c < 32 \<or> (127 \<le> c \<and> c \<le> 159)"

definition first_altered_control :: "ustr \<Rightarrow> nat option" where
  "first_altered_control s = List.find (\<lambda>c. is_control c \<and> c \<noteq> 10 \<and> c \<noteq> 9) s"

text \<open>\<open>char::is_whitespace\<close> is the property White_Space.\<close>

definition is_whitespace :: "nat \<Rightarrow> bool" where
  "is_whitespace c \<longleftrightarrow>
     (9 \<le> c \<and> c \<le> 13) \<or> c = 32 \<or> c = 0x85 \<or> c = 0xA0 \<or> c = 0x1680
     \<or> (0x2000 \<le> c \<and> c \<le> 0x200A) \<or> c = 0x2028 \<or> c = 0x2029 \<or> c = 0x202F
     \<or> c = 0x205F \<or> c = 0x3000"

definition is_ascii_digit :: "nat \<Rightarrow> bool" where
  "is_ascii_digit c \<longleftrightarrow> 48 \<le> c \<and> c \<le> 57"

definition is_ascii_alphabetic :: "nat \<Rightarrow> bool" where
  "is_ascii_alphabetic c \<longleftrightarrow> (65 \<le> c \<and> c \<le> 90) \<or> (97 \<le> c \<and> c \<le> 122)"

definition is_ascii_alphanumeric :: "nat \<Rightarrow> bool" where
  "is_ascii_alphanumeric c \<longleftrightarrow> is_ascii_alphabetic c \<or> is_ascii_digit c"

definition to_ascii_lower :: "nat \<Rightarrow> nat" where
  "to_ascii_lower c = (if 65 \<le> c \<and> c \<le> 90 then c + 32 else c)"

section \<open>Strings\<close>

definition char_utf8_len :: "nat \<Rightarrow> nat" where
  "char_utf8_len c = (if c < 0x80 then 1 else if c < 0x800 then 2 else if c < 0x10000 then 3 else 4)"

definition utf8_len :: "ustr \<Rightarrow> nat" where
  "utf8_len s = sum_list (map char_utf8_len s)"

definition trim_start :: "ustr \<Rightarrow> ustr" where
  "trim_start s = dropWhile is_whitespace s"

definition trim_end :: "ustr \<Rightarrow> ustr" where
  "trim_end s = rev (dropWhile is_whitespace (rev s))"

definition trim :: "ustr \<Rightarrow> ustr" where
  "trim s = trim_end (trim_start s)"

fun split_on :: "nat \<Rightarrow> ustr \<Rightarrow> ustr list" where
  "split_on c [] = [[]]"
| "split_on c (x # xs) =
     (if x = c then [] # split_on c xs
      else (case split_on c xs of [] \<Rightarrow> [[x]] | h # t \<Rightarrow> (x # h) # t))"

fun split_once :: "nat \<Rightarrow> ustr \<Rightarrow> (ustr \<times> ustr) option" where
  "split_once c [] = None"
| "split_once c (x # xs) =
     (if x = c then Some ([], xs)
      else map_option (\<lambda>(a, b). (x # a, b)) (split_once c xs))"

definition strip_suffix :: "nat \<Rightarrow> ustr \<Rightarrow> ustr option" where
  "strip_suffix c s = (if s \<noteq> [] \<and> last s = c then Some (butlast s) else None)"

text \<open>\<open>str::lines\<close>: split at line feeds, without an empty last line.\<close>

definition lines_count :: "ustr \<Rightarrow> nat" where
  "lines_count s =
     (let parts = split_on 10 s in
      if last parts = [] then length parts - 1 else length parts)"

fun split_whitespace_aux :: "ustr \<Rightarrow> ustr \<Rightarrow> ustr list" where
  "split_whitespace_aux acc [] = (if acc = [] then [] else [rev acc])"
| "split_whitespace_aux acc (x # xs) =
     (if is_whitespace x
      then (if acc = [] then split_whitespace_aux [] xs else rev acc # split_whitespace_aux [] xs)
      else split_whitespace_aux (x # acc) xs)"

definition split_whitespace :: "ustr \<Rightarrow> ustr list" where
  "split_whitespace s = split_whitespace_aux [] s"

fun join_with :: "ustr \<Rightarrow> ustr list \<Rightarrow> ustr" where
  "join_with sep [] = []"
| "join_with sep [x] = x"
| "join_with sep (x # y # ys) = x @ sep @ join_with sep (y # ys)"

section \<open>Numbers\<close>

datatype parse_int_error = IntEmpty | InvalidDigit | PosOverflow | NegOverflow

fun parse_digits :: "int \<Rightarrow> int \<Rightarrow> ustr \<Rightarrow> parse_int_error + int" where
  "parse_digits hi acc [] = Inr acc"
| "parse_digits hi acc (c # cs) =
     (if \<not> is_ascii_digit c then Inl InvalidDigit
      else let v = 10 * acc + (int c - 48) in
           if hi < v then Inl PosOverflow else parse_digits hi v cs)"

text \<open>\<open>from_str\<close> of an unsigned type: one leading \<open>+\<close> is accepted.\<close>

definition parse_unsigned :: "int \<Rightarrow> ustr \<Rightarrow> parse_int_error + int" where
  "parse_unsigned hi s =
     (case s of
        [] \<Rightarrow> Inl IntEmpty
      | c # cs \<Rightarrow>
          if cs = [] \<and> (c = 43 \<or> c = 45) then Inl InvalidDigit
          else if c = 43 then parse_digits hi 0 cs
          else parse_digits hi 0 (c # cs))"

text \<open>\<open>from_str\<close> of a signed type: the negative digits are checked against \<open>lo\<close>.\<close>

definition parse_signed :: "int \<Rightarrow> int \<Rightarrow> ustr \<Rightarrow> parse_int_error + int" where
  "parse_signed lo hi s =
     (case s of
        [] \<Rightarrow> Inl IntEmpty
      | c # cs \<Rightarrow>
          if cs = [] \<and> (c = 43 \<or> c = 45) then Inl InvalidDigit
          else if c = 43 then parse_digits hi 0 cs
          else if c = 45
            then map_res uminus
                   (map_err (\<lambda>e. if e = PosOverflow then NegOverflow else e) (parse_digits (- lo) 0 cs))
          else parse_digits hi 0 (c # cs))"

fun show_nat :: "nat \<Rightarrow> string" where
  "show_nat n =
     (if n < 10 then [char_of (48 + n)]
      else show_nat (n div 10) @ [char_of (48 + n mod 10)])"

declare show_nat.simps [simp del]

definition pad_zero :: "nat \<Rightarrow> nat \<Rightarrow> string" where
  "pad_zero w n = replicate (w - length (show_nat n)) CHR ''0'' @ show_nat n"

section \<open>Facts about them\<close>

lemma codes_simps [simp]:
  "codes [] = []" "codes (c # s) = of_char c # codes s" "codes (s @ t) = codes s @ codes t"
  "length (codes s) = length s" "set (codes s) = of_char ` set s"
  by (simp_all add: codes_def)

lemma inj_of_char: "inj (of_char :: char \<Rightarrow> nat)"
  by (rule injI) (metis char_of_char)

lemma codes_inject [simp]: "codes s = codes t \<longleftrightarrow> s = t"
  by (simp add: codes_def inj_of_char inj_map_eq_map)

lemma trim_id:
  assumes "s = [] \<or> (\<not> is_whitespace (hd s) \<and> \<not> is_whitespace (last s))"
  shows "trim s = s"
proof (cases s)
  case (Cons c cs)
  with assms have "\<not> is_whitespace c" and "\<not> is_whitespace (hd (rev s))"
    by (auto simp: hd_rev simp del: rev.simps)
  moreover have "rev s \<noteq> []" using Cons by simp
  ultimately have "dropWhile is_whitespace (rev s) = rev s"
    by (cases "rev s") auto
  with \<open>\<not> is_whitespace c\<close> Cons show ?thesis
    by (simp add: trim_def trim_start_def trim_end_def)
qed (simp add: trim_def trim_start_def trim_end_def)

lemma set_trim: "set (trim s) \<subseteq> set s"
  by (auto simp: trim_def trim_start_def trim_end_def dest!: set_dropWhileD)

lemma trim_ends:
  assumes "trim s \<noteq> []"
  shows "\<not> is_whitespace (hd (trim s))" and "\<not> is_whitespace (last (trim s))"
proof -
  let ?t = "dropWhile is_whitespace s"
  have t: "trim s = rev (dropWhile is_whitespace (rev ?t))"
    by (simp add: trim_def trim_start_def trim_end_def)
  with assms have ne: "dropWhile is_whitespace (rev ?t) \<noteq> []" by simp
  then have "\<not> is_whitespace (hd (dropWhile is_whitespace (rev ?t)))" by (rule hd_dropWhile)
  with t show "\<not> is_whitespace (last (trim s))" by (simp add: last_rev)
  obtain p where p: "rev ?t = p @ dropWhile is_whitespace (rev ?t)"
    by (metis takeWhile_dropWhile_id)
  then have "?t = rev (dropWhile is_whitespace (rev ?t)) @ rev p"
    by (metis rev_append rev_rev_ident)
  with t have "?t = trim s @ rev p" by simp
  with assms have "hd (trim s) = hd ?t" and "?t \<noteq> []" by (metis hd_append2, auto)
  with hd_dropWhile [of is_whitespace s] show "\<not> is_whitespace (hd (trim s))" by simp
qed

lemma trim_trim [simp]: "trim (trim s) = trim s"
  by (rule trim_id) (use trim_ends in blast)

lemma split_on_not_Nil [simp]: "split_on c s \<noteq> []"
  by (induction c s rule: split_on.induct) (auto split: list.splits)

lemma split_on_absent: "c \<notin> set s \<Longrightarrow> split_on c s = [s]"
  by (induction c s rule: split_on.induct) auto

lemma split_on_append: "c \<notin> set s \<Longrightarrow> split_on c (s @ c # t) = s # split_on c t"
  by (induction s) auto

lemma find_None_all: "List.find P xs = None \<longleftrightarrow> (\<forall>x \<in> set xs. \<not> P x)"
  by (auto simp: find_None_iff)

lemma utf8_len_ascii: "\<forall>c \<in> set s. c < 128 \<Longrightarrow> utf8_len s = length s"
  by (induction s) (auto simp: utf8_len_def char_utf8_len_def)

lemma of_char_digit [simp]: "n < 10 \<Longrightarrow> of_char (char_of (48 + n) :: char) = (48 + n :: nat)"
  by (simp add: of_char_of)

lemma show_nat_digits: "c \<in> set (show_nat n) \<Longrightarrow> is_ascii_digit (of_char c)"
proof (induction n rule: show_nat.induct)
  case (1 n)
  show ?case
  proof (cases "n < 10")
    case True
    with "1.prems" show ?thesis by (auto simp: show_nat.simps [of n] is_ascii_digit_def)
  next
    case False
    with 1 show ?thesis by (auto simp: show_nat.simps [of n] is_ascii_digit_def)
  qed
qed

lemma show_nat_nonempty [simp]: "show_nat n \<noteq> []"
  by (subst show_nat.simps) simp

lemma length_show_nat: "n < 10 ^ Suc k \<Longrightarrow> length (show_nat n) \<le> Suc k"
proof (induction k arbitrary: n)
  case 0
  then show ?case by (simp add: show_nat.simps)
next
  case (Suc k)
  then have "n div 10 < 10 ^ Suc k" by (simp add: less_mult_imp_div_less)
  from Suc.IH [OF this] show ?case by (subst show_nat.simps) simp
qed

lemma parse_digits_snoc:
  "parse_digits hi acc (s @ [c]) =
     bind_res (parse_digits hi acc s) (\<lambda>v. parse_digits hi v [c])"
  by (induction hi acc s rule: parse_digits.induct) (auto simp: Let_def)

lemma parse_show_nat: "int n \<le> hi \<Longrightarrow> parse_digits hi 0 (codes (show_nat n)) = Inr (int n)"
proof (induction n rule: show_nat.induct)
  case (1 n)
  show ?case
  proof (cases "n < 10")
    case True
    with "1.prems" show ?thesis by (simp add: show_nat.simps [of n] is_ascii_digit_def)
  next
    case False
    with 1 have "parse_digits hi 0 (codes (show_nat (n div 10))) = Inr (int (n div 10))" by simp
    moreover have "10 * int (n div 10) + int (n mod 10) = int n" by presburger
    ultimately show ?thesis using False "1.prems"
      by (simp add: show_nat.simps [of n] parse_digits_snoc is_ascii_digit_def Let_def)
  qed
qed

lemma parse_zeros: "0 \<le> hi \<Longrightarrow> parse_digits hi 0 (replicate k 48 @ s) = parse_digits hi 0 s"
  by (induction k) (auto simp: is_ascii_digit_def)

lemma parse_pad_zero: "int n \<le> hi \<Longrightarrow> parse_digits hi 0 (codes (pad_zero w n)) = Inr (int n)"
  using parse_show_nat [of n hi]
  by (simp add: pad_zero_def codes_def map_replicate_const parse_zeros)

lemma pad_zero_digits: "c \<in> set (pad_zero w n) \<Longrightarrow> is_ascii_digit (of_char c)"
  by (auto simp: pad_zero_def is_ascii_digit_def dest: show_nat_digits split: if_splits)

lemma length_pad_zero: "n < 10 ^ w \<Longrightarrow> 0 < w \<Longrightarrow> length (pad_zero w n) = w"
  using length_show_nat [of n "w - 1"] by (auto simp: pad_zero_def)

end
