(* ===== verification/Calendar.thy ===== *)
theory Calendar
  imports Text
begin

text \<open>
  \<open>sutura-domain/src/calendar.rs\<close>: a calendar date, its two text conversions, its two
  day-number conversions (both walk a year and then a month at a time, with saturating
  \<open>i32\<close> arithmetic) and the half-open \<open>TimeRange\<close>. A date is an ordered triple, as
  the derived \<open>Ord\<close> has it. The lemmas show that the day number is strictly monotonic,
  that the two walks are inverse to each other on every date the type can hold and that the
  text form round-trips.
\<close>

section \<open>Dates\<close>

datatype date = Date (date_year: int) (date_month: int) (date_day: int)

instantiation date :: linorder
begin

definition less_eq_date :: "date \<Rightarrow> date \<Rightarrow> bool" where
  "less_eq_date a b \<longleftrightarrow>
     (date_year a, date_month a, date_day a) \<le> (date_year b, date_month b, date_day b)"

definition less_date :: "date \<Rightarrow> date \<Rightarrow> bool" where
  "less_date a b \<longleftrightarrow>
     (date_year a, date_month a, date_day a) < (date_year b, date_month b, date_day b)"

instance
  by standard (auto simp: less_eq_date_def less_date_def date.expand less_le_not_le)

end

datatype invalid_date =
    Malformed
  | NotANumber string parse_int_error
  | YearOutOfRange int
  | MonthOutOfRange int
  | NoSuchDay int int int int

definition year_in_range :: "int \<Rightarrow> bool" where
  "year_in_range y \<longleftrightarrow> 1 \<le> y \<and> y \<le> 9999"

definition DAYS_PER_MONTH :: "int list" where
  "DAYS_PER_MONTH = [31, 28, 31, 30, 31, 30, 31, 31, 30, 31, 30, 31]"

definition is_leap_year :: "int \<Rightarrow> bool" where
  "is_leap_year y \<longleftrightarrow> y mod 4 = 0 \<and> (y mod 100 \<noteq> 0 \<or> y mod 400 = 0)"

definition days_in_month :: "int \<Rightarrow> int \<Rightarrow> int" where
  "days_in_month y m =
     (if m = 2 \<and> is_leap_year y then 29
      else let i = nat (sat_u8 (m - 1)) in
           if i < length DAYS_PER_MONTH then DAYS_PER_MONTH ! i else 0)"

definition days_in_year :: "int \<Rightarrow> int" where
  "days_in_year y = (if is_leap_year y then 366 else 365)"

definition is_all_ascii_digits :: "ustr \<Rightarrow> bool" where
  "is_all_ascii_digits s \<longleftrightarrow> s \<noteq> [] \<and> (\<forall>c \<in> set s. is_ascii_digit c)"

definition date_new :: "int \<Rightarrow> int \<Rightarrow> int \<Rightarrow> invalid_date + date" where
  "date_new y m d =
     (if \<not> year_in_range y then Inl (YearOutOfRange y)
      else if \<not> (1 \<le> m \<and> m \<le> 12) then Inl (MonthOutOfRange m)
      else if d = 0 \<or> days_in_month y m < d then Inl (NoSuchDay y m d (days_in_month y m))
      else Inr (Date y m d))"

definition date_parse :: "ustr \<Rightarrow> invalid_date + date" where
  "date_parse raw =
     (case split_on 45 (trim raw) of
        [y, m, d] \<Rightarrow>
          if utf8_len y \<noteq> 4 \<or> utf8_len m \<noteq> 2 \<or> utf8_len d \<noteq> 2 then Inl Malformed
          else if \<not> (is_all_ascii_digits y \<and> is_all_ascii_digits m \<and> is_all_ascii_digits d)
            then Inl Malformed
          else
            bind_res (map_err (NotANumber ''year'') (parse_signed (- 32768) 32767 y)) (\<lambda>year.
            bind_res (map_err (NotANumber ''month'') (parse_unsigned 255 m)) (\<lambda>month.
            bind_res (map_err (NotANumber ''day'') (parse_unsigned 255 d)) (\<lambda>day.
              date_new year month day)))
      | _ \<Rightarrow> Inl Malformed)"

definition to_iso :: "date \<Rightarrow> string" where
  "to_iso d = pad_zero 4 (nat (date_year d)) @ ''-'' @ pad_zero 2 (nat (date_month d))
     @ ''-'' @ pad_zero 2 (nat (date_day d))"

section \<open>Day numbers\<close>

text \<open>
  The two year walks and the month walk of \<open>days_since_epoch\<close>. The loop variables stay
  below their bounds, so their own saturating increments never act; the day count keeps its
  saturation.
\<close>

function walk_up :: "int \<Rightarrow> int \<Rightarrow> int \<Rightarrow> int" where
  "walk_up target y days =
     (if y < target then walk_up target (y + 1) (sat_i32 (days + days_in_year y)) else days)"
  by pat_completeness auto
termination by (relation "measure (\<lambda>(t, y, _). nat (t - y))") auto

function walk_down :: "int \<Rightarrow> int \<Rightarrow> int \<Rightarrow> int" where
  "walk_down target y days =
     (if y > target then walk_down target (y - 1) (sat_i32 (days - days_in_year (y - 1))) else days)"
  by pat_completeness auto
termination by (relation "measure (\<lambda>(t, y, _). nat (y - t))") auto

function walk_months :: "int \<Rightarrow> int \<Rightarrow> int \<Rightarrow> int \<Rightarrow> int" where
  "walk_months y target m days =
     (if m < target then walk_months y target (m + 1) (sat_i32 (days + days_in_month y m)) else days)"
  by pat_completeness auto
termination by (relation "measure (\<lambda>(_, t, m, _). nat (t - m))") auto

declare walk_up.simps [simp del] walk_down.simps [simp del] walk_months.simps [simp del]

definition days_since_epoch :: "date \<Rightarrow> int" where
  "days_since_epoch d =
     (let up = walk_up (date_year d) 1970 0;
          years = walk_down (date_year d) (max 1970 (date_year d)) up;
          months = walk_months (date_year d) (date_month d) 1 years
      in sat_i32 (months + sat_i32 (date_day d - 1)))"

function back_years :: "int \<Rightarrow> int \<Rightarrow> invalid_date + int \<times> int" where
  "back_years year remaining =
     (if remaining < 0 then
        (let year' = sat_i16 (year - 1) in
         if \<not> year_in_range year' then Inl (YearOutOfRange year')
         else back_years year' (sat_i32 (remaining + days_in_year year')))
      else Inr (year, remaining))"
  by pat_completeness auto
termination
  by (relation "measure (\<lambda>(y, _). nat y)")
    (auto simp: year_in_range_def sat_i16_def clamp_def split: if_splits)

function forward_years :: "int \<Rightarrow> int \<Rightarrow> invalid_date + int \<times> int" where
  "forward_years year remaining =
     (let len = days_in_year year in
      if remaining < len then Inr (year, remaining)
      else let year' = sat_i16 (year + 1) in
           if \<not> year_in_range year' then Inl (YearOutOfRange year')
           else forward_years year' (sat_i32 (remaining - len)))"
  by pat_completeness auto
termination
  by (relation "measure (\<lambda>(y, _). nat (10000 - y))")
    (auto simp: year_in_range_def sat_i16_def clamp_def split: if_splits)

function forward_months :: "int \<Rightarrow> int \<Rightarrow> int \<Rightarrow> invalid_date + int \<times> int" where
  "forward_months year month remaining =
     (let len = days_in_month year month in
      if remaining < len then Inr (month, remaining)
      else let month' = sat_u8 (month + 1) in
           if month' > 12 then Inl (MonthOutOfRange month')
           else forward_months year month' (sat_i32 (remaining - len)))"
  by pat_completeness auto
termination
  by (relation "measure (\<lambda>(_, m, _). nat (13 - m))")
    (auto simp: sat_u8_def clamp_def split: if_splits)

declare back_years.simps [simp del] forward_years.simps [simp del] forward_months.simps [simp del]

definition from_days_since_epoch :: "int \<Rightarrow> invalid_date + date" where
  "from_days_since_epoch days =
     bind_res (back_years 1970 days) (\<lambda>(y1, r1).
     bind_res (forward_years y1 r1) (\<lambda>(year, r2).
     bind_res (forward_months year 1 r2) (\<lambda>(month, remaining).
       let day = sat_i32 (remaining + 1) in
       date_new year month (if 0 \<le> day \<and> day \<le> 255 then day else 255))))"

section \<open>Ranges\<close>

record time_range =
  range_start :: date
  range_end :: date

datatype invalid_time_range = EmptyRange date date

definition range_new :: "date \<Rightarrow> date \<Rightarrow> invalid_time_range + time_range" where
  "range_new s e = (if e \<le> s then Inl (EmptyRange s e) else Inr \<lparr>range_start = s, range_end = e\<rparr>)"

definition range_days :: "time_range \<Rightarrow> int" where
  "range_days r = sat_i32 (days_since_epoch (range_end r) - days_since_epoch (range_start r))"

text \<open>The dates the constructor can build, and the ranges.\<close>

definition valid_date :: "date \<Rightarrow> bool" where
  "valid_date d \<longleftrightarrow> year_in_range (date_year d) \<and> 1 \<le> date_month d \<and> date_month d \<le> 12
     \<and> 1 \<le> date_day d \<and> date_day d \<le> days_in_month (date_year d) (date_month d)"

definition valid_range :: "time_range \<Rightarrow> bool" where
  "valid_range r \<longleftrightarrow>
     valid_date (range_start r) \<and> valid_date (range_end r) \<and> range_start r < range_end r"

section \<open>The calendar the walks count\<close>

text \<open>
  The reference: the number of days before a year in closed form, and the days of the year
  before a month. \<open>day_number\<close> is what both walks have to compute.
\<close>

definition year_offset :: "int \<Rightarrow> int" where
  "year_offset y = 365 * (y - 1970) + (y - 1) div 4 - (y - 1) div 100 + (y - 1) div 400 - 477"

definition month_offset :: "int \<Rightarrow> int \<Rightarrow> int" where
  "month_offset y m = (\<Sum>k \<in> {1..<m}. days_in_month y k)"

definition day_number :: "date \<Rightarrow> int" where
  "day_number d = year_offset (date_year d) + month_offset (date_year d) (date_month d) + date_day d - 1"

lemma div_step:
  assumes "0 < k"
  shows "(y::int) div k - (y - 1) div k = (if y mod k = 0 then 1 else 0)"
proof (cases "y mod k = 0")
  case True
  then have "y - 1 = k * (y div k - 1) + (k - 1)"
    using mult_div_mod_eq [of k y] by (simp add: algebra_simps)
  then have "(y - 1) div k = y div k - 1"
    using assms by (intro int_div_pos_eq [where r = "k - 1"]) auto
  with True show ?thesis by simp
next
  case False
  have "y - 1 = k * (y div k) + (y mod k - 1)"
    using mult_div_mod_eq [of k y] by simp
  moreover have "0 \<le> y mod k - 1" and "y mod k - 1 < k"
    using assms False pos_mod_sign [of k y] pos_mod_bound [of k y] by linarith+
  ultimately have "(y - 1) div k = y div k"
    by (rule int_div_pos_eq)
  with False show ?thesis by simp
qed

lemma leap_length:
  "(b \<Longrightarrow> a) \<Longrightarrow> (c \<Longrightarrow> b) \<Longrightarrow> (if a \<and> (\<not> b \<or> c) then 366 else 365)
     = 365 + (if a then 1 else 0) - (if b then 1 else 0) + (if c then 1 else (0::int))"
  by (cases a; cases b; cases c) simp_all

lemma days_in_year_eq:
  "days_in_year y = 365 + (if y mod 4 = 0 then 1 else 0)
      - (if y mod 100 = 0 then 1 else 0) + (if y mod 400 = 0 then 1 else 0)"
  unfolding days_in_year_def is_leap_year_def mod_eq_0_iff_dvd
proof (rule leap_length)
  have four: "(4::int) dvd 100" and hundred: "(100::int) dvd 400" by simp_all
  show "100 dvd y \<Longrightarrow> 4 dvd y" by (rule dvd_trans [OF four])
  show "400 dvd y \<Longrightarrow> 100 dvd y" by (rule dvd_trans [OF hundred])
qed

lemma year_sum_step:
  fixes a b c y :: int
  assumes "a - a' = u" and "b - b' = v" and "c - c' = w" and "n = 365 + u - v + w"
  shows "365 * (y + 1 - 1970) + a - b + c - 477 = 365 * (y - 1970) + a' - b' + c' - 477 + n"
  unfolding assms(4) assms(1-3) [symmetric] by (simp add: algebra_simps)

lemma year_offset_step: "year_offset (y + 1) = year_offset y + days_in_year y"
  unfolding year_offset_def add_diff_cancel_right'
  by (rule year_sum_step [OF div_step div_step div_step days_in_year_eq]) simp_all

lemma year_offset_epoch: "year_offset 1970 = 0"
  by (simp add: year_offset_def)

lemma days_in_year_bounds: "365 \<le> days_in_year y" "days_in_year y \<le> 366"
  by (simp_all add: days_in_year_def)

lemma year_offset_mono: "a \<le> b \<Longrightarrow> year_offset a + 365 * (b - a) \<le> year_offset b"
proof (induction "nat (b - a)" arbitrary: b)
  case (Suc n)
  then have "n = nat (b - 1 - a)" and "a \<le> b - 1" by linarith+
  then have "year_offset a + 365 * (b - 1 - a) \<le> year_offset (b - 1)" by (rule Suc.hyps(1))
  with year_offset_step [of "b - 1"] days_in_year_bounds [of "b - 1"] show ?case by simp
qed simp

lemma year_offset_range: "1 \<le> y \<Longrightarrow> y \<le> 10000 \<Longrightarrow> - 719162 \<le> year_offset y \<and> year_offset y \<le> 2932897"
proof -
  assume "1 \<le> y" and "y \<le> 10000"
  moreover have "year_offset 1 = - 719162" and "year_offset 10000 = 2932897"
    by (simp_all add: year_offset_def)
  ultimately show ?thesis
    using year_offset_mono [of 1 y] year_offset_mono [of y 10000] by auto
qed

lemma days_in_month_bounds:
  assumes "1 \<le> m" and "m \<le> 12"
  shows "28 \<le> days_in_month y m" and "days_in_month y m \<le> 31"
proof -
  have idx: "nat (sat_u8 (m - 1)) < length DAYS_PER_MONTH"
    using assms by (simp add: sat_u8_id DAYS_PER_MONTH_def)
  have "set DAYS_PER_MONTH = {28, 30, 31}" by (auto simp: DAYS_PER_MONTH_def)
  with nth_mem [OF idx] have "DAYS_PER_MONTH ! nat (sat_u8 (m - 1)) \<in> {28, 30, 31}" by simp
  with idx show "28 \<le> days_in_month y m" and "days_in_month y m \<le> 31"
    by (auto simp: days_in_month_def Let_def)
qed

lemma month_offset_step: "1 \<le> m \<Longrightarrow> month_offset y (m + 1) = month_offset y m + days_in_month y m"
proof -
  assume "1 \<le> m"
  then have "{1..<m + 1} = insert m {1..<m}" by auto
  then show ?thesis by (simp add: month_offset_def)
qed

lemma month_offset_1: "month_offset y 1 = 0"
  by (simp add: month_offset_def)

lemma month_offset_nonneg: "1 \<le> m \<Longrightarrow> m \<le> 13 \<Longrightarrow> 0 \<le> month_offset y m"
  unfolding month_offset_def
proof (rule sum_nonneg)
  fix k assume "m \<le> 13" and "k \<in> {1..<m}"
  then have "28 \<le> days_in_month y k" by (intro days_in_month_bounds) auto
  then show "0 \<le> days_in_month y k" by simp
qed

lemma month_offset_mono: "1 \<le> m \<Longrightarrow> m < n \<Longrightarrow> n \<le> 13 \<Longrightarrow>
   month_offset y m + days_in_month y m \<le> month_offset y n"
proof (induction "nat (n - m - 1)" arbitrary: n)
  case 0
  then have "n = m + 1" by simp
  with 0 show ?case by (simp add: month_offset_step)
next
  case (Suc k)
  then have "month_offset y m + days_in_month y m \<le> month_offset y (n - 1)" by simp
  moreover have "month_offset y n = month_offset y (n - 1) + days_in_month y (n - 1)"
    using Suc.prems month_offset_step [of "n - 1" y] by simp
  moreover have "28 \<le> days_in_month y (n - 1)"
    using Suc.prems by (intro days_in_month_bounds) auto
  ultimately show ?case by linarith
qed

lemma month_offset_year: "month_offset y 13 = days_in_year y"
proof -
  have "month_offset y 13 = (\<Sum>k \<leftarrow> [1, 2, 3, 4, 5, 6, 7, 8, 9, 10, 11, 12]. days_in_month y k)"
    using month_offset_step [of 1 y] month_offset_step [of 2 y] month_offset_step [of 3 y]
      month_offset_step [of 4 y] month_offset_step [of 5 y] month_offset_step [of 6 y]
      month_offset_step [of 7 y] month_offset_step [of 8 y] month_offset_step [of 9 y]
      month_offset_step [of 10 y] month_offset_step [of 11 y] month_offset_step [of 12 y]
    by (simp add: month_offset_1)
  then show ?thesis
    by (simp add: days_in_month_def DAYS_PER_MONTH_def sat_u8_id days_in_year_def Let_def)
qed

section \<open>The walks compute it\<close>

lemma walk_up_eq:
  "1970 \<le> y \<Longrightarrow> y \<le> target \<Longrightarrow> target \<le> 10000 \<Longrightarrow>
     walk_up target y (year_offset y) = year_offset target"
proof (induction "nat (target - y)" arbitrary: y)
  case 0
  then show ?case by (simp add: walk_up.simps)
next
  case (Suc n)
  then have lt: "y < target" and n: "n = nat (target - (y + 1))" by linarith+
  have "sat_i32 (year_offset y + days_in_year y) = year_offset (y + 1)"
    using year_offset_range [of "y + 1"] lt Suc.prems by (simp add: year_offset_step sat_i32_id)
  with Suc.hyps(1) [OF n] lt Suc.prems show ?case by (simp add: walk_up.simps [of target y])
qed

lemma walk_down_eq:
  "target \<le> y \<Longrightarrow> 1 \<le> target \<Longrightarrow> y \<le> 10000 \<Longrightarrow>
     walk_down target y (year_offset y) = year_offset target"
proof (induction "nat (y - target)" arbitrary: y)
  case 0
  then show ?case by (simp add: walk_down.simps)
next
  case (Suc n)
  then have lt: "target < y" and n: "n = nat (y - 1 - target)" by linarith+
  have "sat_i32 (year_offset y - days_in_year (y - 1)) = year_offset (y - 1)"
    using year_offset_range [of "y - 1"] year_offset_step [of "y - 1"] lt Suc.prems
    by (simp add: sat_i32_id)
  with Suc.hyps(1) [OF n] lt Suc.prems show ?case by (simp add: walk_down.simps [of target y])
qed

lemma walk_months_eq:
  assumes "\<bar>c\<bar> \<le> 100000000"
  shows "1 \<le> m \<Longrightarrow> m \<le> target \<Longrightarrow> target \<le> 12 \<Longrightarrow>
     walk_months y target m (c + month_offset y m) = c + month_offset y target"
proof (induction "nat (target - m)" arbitrary: m)
  case 0
  then show ?case by (simp add: walk_months.simps)
next
  case (Suc n)
  then have lt: "m < target" and n: "n = nat (target - (m + 1))" by linarith+
  have "month_offset y (m + 1) \<le> 366"
    using month_offset_mono [of "m + 1" 13 y] month_offset_year [of y] days_in_year_bounds [of y]
      days_in_month_bounds [of "m + 1" y] lt Suc.prems by auto
  moreover have "0 \<le> month_offset y (m + 1)" using lt Suc.prems by (intro month_offset_nonneg) auto
  ultimately have "sat_i32 (c + month_offset y m + days_in_month y m) = c + month_offset y (m + 1)"
    using assms Suc.prems by (simp add: month_offset_step sat_i32_id abs_le_iff)
  with Suc.hyps(1) [OF n] lt Suc.prems show ?case by (simp add: walk_months.simps [of y target m])
qed

lemma day_in_year:
  assumes "valid_date d"
  shows "0 \<le> month_offset (date_year d) (date_month d) + date_day d - 1"
    and "month_offset (date_year d) (date_month d) + date_day d - 1 < days_in_year (date_year d)"
  using assms month_offset_nonneg [of "date_month d" "date_year d"]
    month_offset_mono [of "date_month d" 13 "date_year d"] month_offset_year [of "date_year d"]
  by (auto simp: valid_date_def)

lemma days_since_epoch_eq:
  assumes "valid_date d"
  shows "days_since_epoch d = day_number d"
proof -
  let ?y = "date_year d" and ?m = "date_month d"
  from assms have y: "1 \<le> ?y" "?y \<le> 9999" and m: "1 \<le> ?m" "?m \<le> 12"
    and d: "1 \<le> date_day d" "date_day d \<le> 31"
    using days_in_month_bounds [of ?m ?y] by (auto simp: valid_date_def year_in_range_def)
  have up: "walk_up ?y 1970 0 = year_offset (max 1970 ?y)"
    using walk_up_eq [of 1970 ?y] y
    by (cases "1970 \<le> ?y") (auto simp: year_offset_epoch walk_up.simps [of ?y 1970])
  have down: "walk_down ?y (max 1970 ?y) (year_offset (max 1970 ?y)) = year_offset ?y"
    using y by (intro walk_down_eq) auto
  have range: "- 719162 \<le> year_offset ?y \<and> year_offset ?y \<le> 2932897"
    using y by (intro year_offset_range) auto
  then have months: "walk_months ?y ?m 1 (year_offset ?y) = year_offset ?y + month_offset ?y ?m"
    using walk_months_eq [of "year_offset ?y" 1 ?m ?y] m by (simp add: month_offset_1 abs_le_iff)
  have bounds: "0 \<le> month_offset ?y ?m + date_day d - 1" "month_offset ?y ?m + date_day d - 1 < 366"
    using day_in_year [OF assms] days_in_year_bounds [of ?y] by auto
  have "sat_i32 (date_day d - 1) = date_day d - 1"
    using d by (intro sat_i32_id) auto
  with range bounds show ?thesis
    by (simp add: days_since_epoch_def Let_def up down months day_number_def sat_i32_id algebra_simps)
qed

lemma day_number_range:
  assumes "valid_date d"
  shows "- 719162 \<le> day_number d" and "day_number d \<le> 2932896"
    and "year_offset (date_year d) \<le> day_number d" and "day_number d < year_offset (date_year d + 1)"
proof -
  have y: "1 \<le> date_year d" "date_year d \<le> 9999" using assms by (auto simp: valid_date_def year_in_range_def)
  show lo: "year_offset (date_year d) \<le> day_number d" and hi: "day_number d < year_offset (date_year d + 1)"
    using day_in_year [OF assms] by (simp_all add: day_number_def year_offset_step)
  from lo hi y year_offset_range [of "date_year d"] year_offset_range [of "date_year d + 1"]
  show "- 719162 \<le> day_number d" and "day_number d \<le> 2932896" by auto
qed

lemma day_number_mono:
  assumes "valid_date a" and "valid_date b" and "a < b"
  shows "day_number a < day_number b"
proof -
  from assms(3) consider (year) "date_year a < date_year b"
    | (month) "date_year a = date_year b" "date_month a < date_month b"
    | (day) "date_year a = date_year b" "date_month a = date_month b" "date_day a < date_day b"
    by (auto simp: less_date_def split: if_splits) linarith+
  then show ?thesis
  proof cases
    case year
    have "day_number a < year_offset (date_year a + 1)" using assms(1) by (rule day_number_range)
    also have "\<dots> \<le> year_offset (date_year b)"
      using year_offset_mono [of "date_year a + 1" "date_year b"] year by simp
    also have "\<dots> \<le> day_number b" using assms(2) by (rule day_number_range)
    finally show ?thesis .
  next
    case month
    with assms month_offset_mono [of "date_month a" "date_month b" "date_year b"]
    show ?thesis by (auto simp: valid_date_def day_number_def)
  next
    case day
    then show ?thesis by (simp add: day_number_def)
  qed
qed

lemma day_number_less_iff:
  "valid_date a \<Longrightarrow> valid_date b \<Longrightarrow> day_number a < day_number b \<longleftrightarrow> a < b"
  by (metis day_number_mono less_asym linorder_neqE)

lemma day_number_inject:
  "valid_date a \<Longrightarrow> valid_date b \<Longrightarrow> day_number a = day_number b \<Longrightarrow> a = b"
  by (metis day_number_mono less_irrefl linorder_neqE)

section \<open>The inverse walk\<close>

lemma back_years_spec:
  assumes "year_in_range y" and "y \<le> 1970" and "- 2147483648 \<le> r" and "r \<le> 2147483647"
  shows "case back_years y r of
      Inl e \<Rightarrow> e = YearOutOfRange 0 \<and> year_offset y + r < year_offset 1
    | Inr (y', r') \<Rightarrow> year_in_range y' \<and> y' \<le> 1970 \<and> 0 \<le> r' \<and> r' \<le> 2147483647
        \<and> year_offset y' + r' = year_offset y + r"
  using assms
proof (induction y r rule: back_years.induct)
  case (1 y r)
  show ?case
  proof (cases "r < 0")
    case False
    with "1.prems" show ?thesis by (simp add: back_years.simps [of y r])
  next
    case True
    have y': "sat_i16 (y - 1) = y - 1"
      using "1.prems" by (simp add: sat_i16_id year_in_range_def)
    have r': "sat_i32 (r + days_in_year (y - 1)) = r + days_in_year (y - 1)"
      using "1.prems" True days_in_year_bounds [of "y - 1"] by (simp add: sat_i32_id)
    show ?thesis
    proof (cases "year_in_range (y - 1)")
      case False
      with "1.prems" have "y = 1" by (simp add: year_in_range_def)
      with True False show ?thesis by (simp add: back_years.simps [of 1 r] sat_i16_id year_in_range_def year_offset_step)
    next
      case in_range: True
      with "1.IH" [OF True refl] "1.prems" True days_in_year_bounds [of "y - 1"]
        year_offset_step [of "y - 1"]
      show ?thesis by (simp add: back_years.simps [of y r] y' r' split: sum.splits prod.splits)
    qed
  qed
qed

lemma forward_years_spec:
  assumes "year_in_range y" and "0 \<le> r" and "r \<le> 2147483647"
  shows "case forward_years y r of
      Inl e \<Rightarrow> e = YearOutOfRange 10000 \<and> year_offset 10000 \<le> year_offset y + r
    | Inr (y', r') \<Rightarrow> year_in_range y' \<and> 0 \<le> r' \<and> r' < days_in_year y'
        \<and> year_offset y' + r' = year_offset y + r"
  using assms
proof (induction y r rule: forward_years.induct)
  case (1 y r)
  show ?case
  proof (cases "r < days_in_year y")
    case True
    with "1.prems" show ?thesis by (simp add: forward_years.simps [of y r] Let_def)
  next
    case False
    have y': "sat_i16 (y + 1) = y + 1"
      using "1.prems" by (simp add: sat_i16_id year_in_range_def)
    have r': "sat_i32 (r - days_in_year y) = r - days_in_year y"
      using "1.prems" False days_in_year_bounds [of y] by (simp add: sat_i32_id)
    show ?thesis
    proof (cases "year_in_range (y + 1)")
      case out: False
      with "1.prems" have "y = 9999" by (simp add: year_in_range_def)
      with False out year_offset_step [of 9999] y'
      show ?thesis by (simp add: forward_years.simps [of 9999 r] Let_def sat_i16_id year_in_range_def)
    next
      case True
      with "1.IH" [OF refl False refl] "1.prems" False days_in_year_bounds [of y] year_offset_step [of y]
      show ?thesis
        by (simp add: forward_years.simps [of y r] y' r' Let_def split: sum.splits prod.splits)
    qed
  qed
qed

lemma forward_months_spec:
  assumes "1 \<le> m" and "m \<le> 12" and "0 \<le> r" and "month_offset y m + r < days_in_year y"
  shows "\<exists>m' r'. forward_months y m r = Inr (m', r') \<and> 1 \<le> m' \<and> m' \<le> 12
     \<and> 0 \<le> r' \<and> r' < days_in_month y m' \<and> month_offset y m' + r' = month_offset y m + r"
  using assms
proof (induction y m r rule: forward_months.induct)
  case (1 y m r)
  show ?case
  proof (cases "r < days_in_month y m")
    case True
    with "1.prems" show ?thesis by (simp add: forward_months.simps [of y m r] Let_def)
  next
    case False
    have "m \<noteq> 12"
      using "1.prems" False month_offset_step [of 12 y] month_offset_year [of y] by auto
    then have m: "m + 1 \<le> 12" using "1.prems" by simp
    have m': "sat_u8 (m + 1) = m + 1" using "1.prems" by (simp add: sat_u8_id)
    have "r \<le> 366"
      using "1.prems" days_in_year_bounds [of y] month_offset_nonneg [of m y] by simp
    then have r': "sat_i32 (r - days_in_month y m) = r - days_in_month y m"
      using "1.prems" False days_in_month_bounds [of m y] by (simp add: sat_i32_id)
    from "1.IH" [OF refl False refl] "1.prems" False m m' r' month_offset_step [of m y]
    show ?thesis by (simp add: forward_months.simps [of y m r] Let_def)
  qed
qed

lemma date_new_valid: "date_new y m d = Inr x \<and> 0 \<le> d \<longleftrightarrow> x = Date y m d \<and> valid_date x"
  by (auto simp: date_new_def valid_date_def)

lemma from_days_spec:
  assumes "- 2147483648 \<le> n" and "n \<le> 2147483647"
  shows "case from_days_since_epoch n of
      Inl e \<Rightarrow> (n < - 719162 \<and> e = YearOutOfRange 0) \<or> (2932896 < n \<and> e = YearOutOfRange 10000)
    | Inr d \<Rightarrow> valid_date d \<and> day_number d = n"
proof -
  have ends: "year_offset 1 = - 719162" "year_offset 10000 = 2932897"
    by (simp_all add: year_offset_def)
  have "year_in_range 1970" by (simp add: year_in_range_def)
  note bw = back_years_spec [OF this _ assms, simplified]
  show ?thesis
  proof (cases "back_years 1970 n")
    case (Inl e)
    with bw ends show ?thesis by (simp add: from_days_since_epoch_def year_offset_epoch)
  next
    case (Inr p)
    obtain y1 r1 where p: "p = (y1, r1)" by (cases p)
    from bw Inr p have y1: "year_in_range y1" "0 \<le> r1" "r1 \<le> 2147483647"
      "year_offset y1 + r1 = n"
      by (auto simp: year_offset_epoch)
    note fwd = forward_years_spec [OF y1(1-3)]
    show ?thesis
    proof (cases "forward_years y1 r1")
      case (Inl e)
      with fwd Inr p y1 ends show ?thesis by (simp add: from_days_since_epoch_def)
    next
      case fwd_ok: (Inr q)
      obtain y r where q: "q = (y, r)" by (cases q)
      from fwd fwd_ok q have y: "year_in_range y" "0 \<le> r" "r < days_in_year y"
        "year_offset y + r = n"
        using y1 by auto
      from forward_months_spec [of 1 r y] y obtain m k where
        m: "forward_months y 1 r = Inr (m, k)" "1 \<le> m" "m \<le> 12" "0 \<le> k" "k < days_in_month y m"
        "month_offset y m + k = r"
        by (auto simp: month_offset_1)
      have k: "k + 1 \<le> 31" using m days_in_month_bounds [of m y] by simp
      with m have s: "sat_i32 (k + 1) = k + 1" by (simp add: sat_i32_id)
      have "date_new y m (k + 1) = Inr (Date y m (k + 1))" using y m by (simp add: date_new_def)
      with Inr p fwd_ok q m k s have "from_days_since_epoch n = Inr (Date y m (k + 1))"
        by (simp add: from_days_since_epoch_def Let_def)
      moreover have "valid_date (Date y m (k + 1))" using y m by (simp add: valid_date_def)
      moreover have "day_number (Date y m (k + 1)) = n" using y m by (simp add: day_number_def)
      ultimately show ?thesis by simp
    qed
  qed
qed

section \<open>Text form and ranges\<close>

lemma date_parse_layout:
  assumes digits: "is_all_ascii_digits y" "is_all_ascii_digits m" "is_all_ascii_digits d"
    and width: "length y = 4" "length m = 2" "length d = 2"
  shows "date_parse (y @ 45 # m @ 45 # d) =
     bind_res (map_err (NotANumber ''year'') (parse_signed (- 32768) 32767 y)) (\<lambda>year.
     bind_res (map_err (NotANumber ''month'') (parse_unsigned 255 m)) (\<lambda>month.
     bind_res (map_err (NotANumber ''day'') (parse_unsigned 255 d)) (\<lambda>day.
       date_new year month day)))"
proof -
  have dig: "\<not> is_whitespace c \<and> c \<noteq> 45 \<and> c < 128" if "is_ascii_digit c" for c
    using that by (auto simp: is_ascii_digit_def is_whitespace_def)
  have all: "\<forall>c \<in> set y \<union> set m \<union> set d. \<not> is_whitespace c \<and> c \<noteq> 45 \<and> c < 128"
    using digits dig by (auto simp: is_all_ascii_digits_def)
  have ne: "y \<noteq> []" "d \<noteq> []" using width by auto
  have "trim (y @ 45 # m @ 45 # d) = y @ 45 # m @ 45 # d"
    using all ne by (intro trim_id) (auto dest: hd_in_set last_in_set)
  moreover have "45 \<notin> set y" "45 \<notin> set m" "45 \<notin> set d" using all by blast+
  then have "split_on 45 (y @ 45 # m @ 45 # d) = [y, m, d]"
    by (simp add: split_on_append split_on_absent)
  moreover have "utf8_len y = 4" "utf8_len m = 2" "utf8_len d = 2"
    using all width by (simp_all add: utf8_len_ascii)
  ultimately show ?thesis using digits by (simp add: date_parse_def)
qed

lemma parse_digits_no_sign:
  assumes "is_all_ascii_digits s"
  shows "parse_unsigned hi s = parse_digits hi 0 s" and "parse_signed lo hi s = parse_digits hi 0 s"
  using assms by (cases s; auto simp: parse_unsigned_def parse_signed_def is_all_ascii_digits_def is_ascii_digit_def)+

lemma pad_zero_all_digits:
  assumes "n < 10 ^ w" and "0 < w"
  shows "is_all_ascii_digits (codes (pad_zero w n))" and "length (codes (pad_zero w n)) = w"
proof -
  show len: "length (codes (pad_zero w n)) = w"
    using length_pad_zero [OF assms] by simp
  with assms(2) have "codes (pad_zero w n) \<noteq> []" by (metis length_0_conv less_irrefl)
  then show "is_all_ascii_digits (codes (pad_zero w n))"
    by (auto simp: is_all_ascii_digits_def dest: pad_zero_digits)
qed

lemma date_parse_to_iso:
  assumes "valid_date d"
  shows "date_parse (codes (to_iso d)) = Inr d"
proof -
  let ?y = "date_year d" and ?m = "date_month d" and ?d = "date_day d"
  from assms have b: "1 \<le> ?y" "?y \<le> 9999" "1 \<le> ?m" "?m \<le> 12" "1 \<le> ?d" "?d \<le> days_in_month ?y ?m"
    by (auto simp: valid_date_def year_in_range_def)
  have "?d \<le> 31" using b days_in_month_bounds [of ?m ?y] by simp
  with b have n: "nat ?y < 10 ^ 4" "nat ?m < 10 ^ 2" "nat ?d < 10 ^ 2" by auto
  have "codes (to_iso d) =
      codes (pad_zero 4 (nat ?y)) @ 45 # codes (pad_zero 2 (nat ?m)) @ 45 # codes (pad_zero 2 (nat ?d))"
    by (simp add: to_iso_def)
  then have "date_parse (codes (to_iso d)) =
     bind_res (map_err (NotANumber ''year'') (parse_digits 32767 0 (codes (pad_zero 4 (nat ?y))))) (\<lambda>year.
     bind_res (map_err (NotANumber ''month'') (parse_digits 255 0 (codes (pad_zero 2 (nat ?m))))) (\<lambda>month.
     bind_res (map_err (NotANumber ''day'') (parse_digits 255 0 (codes (pad_zero 2 (nat ?d))))) (\<lambda>day.
       date_new year month day)))"
    using n by (simp add: date_parse_layout pad_zero_all_digits parse_digits_no_sign del: codes_simps)
  also have "\<dots> = date_new ?y ?m ?d"
    using b \<open>?d \<le> 31\<close> by (simp add: parse_pad_zero)
  also have "\<dots> = Inr d" using b by (simp add: date_new_def year_in_range_def)
  finally show ?thesis .
qed

lemma parse_digits_nonneg: "0 \<le> acc \<Longrightarrow> parse_digits hi acc s = Inr v \<Longrightarrow> 0 \<le> v"
  by (induction hi acc s rule: parse_digits.induct)
    (auto simp: Let_def is_ascii_digit_def split: if_splits)

lemma date_parse_valid: "date_parse raw = Inr d \<Longrightarrow> valid_date d"
  by (auto simp: date_parse_def res_simps parse_digits_no_sign split: list.splits if_splits
      dest!: parse_digits_nonneg [OF order_refl] intro: date_new_valid [THEN iffD1, THEN conjunct2, OF conjI])

lemma date_parse_trim: "date_parse (trim raw) = date_parse raw"
  by (simp add: date_parse_def)

lemma range_new_valid:
  "valid_date s \<Longrightarrow> valid_date e \<Longrightarrow> range_new s e = Inr r \<Longrightarrow> valid_range r"
  by (auto simp: range_new_def valid_range_def split: if_splits)

lemma range_days_eq:
  assumes "valid_range r"
  shows "range_days r = day_number (range_end r) - day_number (range_start r)"
    and "1 \<le> range_days r" and "range_days r \<le> 3652058"
proof -
  from assms have v: "valid_date (range_start r)" "valid_date (range_end r)"
    and lt: "day_number (range_start r) < day_number (range_end r)"
    by (auto simp: valid_range_def intro: day_number_mono)
  from v day_number_range [OF v(1)] day_number_range [OF v(2)] lt
  show eq: "range_days r = day_number (range_end r) - day_number (range_start r)"
    by (simp add: range_days_def days_since_epoch_eq sat_i32_id)
  from eq lt show "1 \<le> range_days r" by simp
  from eq day_number_range [OF v(1)] day_number_range [OF v(2)]
  show "range_days r \<le> 3652058" by simp
qed

text \<open>What evaluates the date parser on a literal.\<close>

lemmas text_eval = trim_def trim_start_def trim_end_def is_whitespace_def utf8_len_def
  char_utf8_len_def is_ascii_digit_def parse_unsigned_def parse_signed_def

lemmas date_eval = date_parse_def date_new_def is_all_ascii_digits_def year_in_range_def
  days_in_month_def is_leap_year_def DAYS_PER_MONTH_def sat_u8_id range_new_def less_eq_date_def

section \<open>Properties\<close>

text \<open>C37: the day number the saturating walks of \<open>days_since_epoch\<close> arrive at is the
  closed Gregorian formula, it lies in the range of the four-digit years and it orders the
  dates the way the derived field order does.\<close>
theorem days_since_epoch_calendar:
  assumes "valid_date a" and "valid_date b"
  shows "days_since_epoch a = day_number a
    \<and> days_since_epoch a \<in> {- 719162..2932896}
    \<and> (a < b \<longleftrightarrow> days_since_epoch a < days_since_epoch b)"
  using assms day_number_range [OF assms(1)] day_number_less_iff
  by (simp_all add: days_since_epoch_eq)

theorem days_since_epoch_calendar_witness:
  "valid_date (Date 1969 12 31) \<and> valid_date (Date 2024 2 29)
     \<and> (Date 1969 12 31 < Date 2024 2 29
        \<longleftrightarrow> days_since_epoch (Date 1969 12 31) < days_since_epoch (Date 2024 2 29))"
proof -
  have v: "valid_date (Date 1969 12 31)" "valid_date (Date 2024 2 29)" by code_simp+
  with days_since_epoch_calendar [OF v] show ?thesis by simp
qed

text \<open>\<open>from_days_since_epoch\<close> is total on the \<open>i32\<close> day numbers and
  exact: a day number of a year 1 to 9999 gives the one date it numbers, every other number
  gives the error of the year the walk stopped at, and nothing wraps on the way.\<close>
theorem from_days_since_epoch_exact:
  assumes "- 2147483648 \<le> n" and "n \<le> 2147483647"
  shows "case from_days_since_epoch n of
      Inl e \<Rightarrow> (n < - 719162 \<and> e = YearOutOfRange 0) \<or> (2932896 < n \<and> e = YearOutOfRange 10000)
    | Inr d \<Rightarrow> n \<in> {- 719162..2932896} \<and> valid_date d \<and> days_since_epoch d = n
        \<and> (\<forall>d'. valid_date d' \<and> days_since_epoch d' = n \<longrightarrow> d' = d)"
proof (cases "from_days_since_epoch n")
  case (Inl e)
  with from_days_spec [OF assms] show ?thesis by simp
next
  case (Inr d)
  with from_days_spec [OF assms] have "valid_date d" "day_number d = n" by auto
  with Inr day_number_range [of d] show ?thesis
    by (auto simp: days_since_epoch_eq intro: day_number_inject)
qed

theorem from_days_since_epoch_exact_witness:
  "from_days_since_epoch 19782 = Inr (Date 2024 2 29) \<and> days_since_epoch (Date 2024 2 29) = 19782"
proof -
  have v: "valid_date (Date 2024 2 29)" "day_number (Date 2024 2 29) = 19782" by code_simp+
  then have d: "days_since_epoch (Date 2024 2 29) = 19782" by (simp add: days_since_epoch_eq)
  from from_days_since_epoch_exact [of 19782] v d show ?thesis
    by (auto split: sum.splits)
qed

text \<open>A date survives the journey through its day number: \<open>from_days_since_epoch\<close>
  undoes \<open>days_since_epoch\<close> on every date the constructor builds.\<close>
theorem date_days_roundtrip:
  assumes "date_new y m d = Inr x" and "0 \<le> d"
  shows "from_days_since_epoch (days_since_epoch x) = Inr x"
proof -
  have v: "valid_date x" using date_new_valid [of y m d x] assms by blast
  let ?n = "day_number x"
  have "- 2147483648 \<le> ?n" "?n \<le> 2147483647" using day_number_range [OF v] by auto
  from from_days_spec [OF this] day_number_range [OF v] v show ?thesis
    by (auto simp: days_since_epoch_eq dest: day_number_inject split: sum.splits)
qed

theorem date_days_roundtrip_witness:
  "date_new 1 1 1 = Inr (Date 1 1 1)
     \<and> from_days_since_epoch (days_since_epoch (Date 1 1 1)) = Inr (Date 1 1 1)"
proof -
  have d: "date_new 1 1 1 = Inr (Date 1 1 1)" by code_simp
  with date_days_roundtrip [OF d] show ?thesis by simp
qed

text \<open>C38: the text form is exact in both directions: what \<open>to_iso\<close> writes is read
  back as the same date, what \<open>parse\<close> accepts is a date of the calendar, and two dates
  with the same text are the same date.\<close>
theorem date_text_roundtrip:
  assumes "valid_date d" and "date_parse raw = Inr e"
  shows "date_parse (codes (to_iso d)) = Inr d \<and> valid_date e
    \<and> date_parse (codes (to_iso e)) = date_parse raw
    \<and> (to_iso d = to_iso e \<longleftrightarrow> d = e)"
proof (intro conjI)
  show v: "valid_date e" by (rule date_parse_valid [OF assms(2)])
  show d: "date_parse (codes (to_iso d)) = Inr d" by (rule date_parse_to_iso [OF assms(1)])
  have e: "date_parse (codes (to_iso e)) = Inr e" by (rule date_parse_to_iso [OF v])
  then show "date_parse (codes (to_iso e)) = date_parse raw" by (simp only: assms(2))
  show "to_iso d = to_iso e \<longleftrightarrow> d = e" by (metis d e sum.inject(2))
qed

theorem date_text_roundtrip_witness:
  "valid_date (Date 2024 2 29) \<and> date_parse (codes '' 2024-02-29 '') = Inr (Date 2024 2 29)
     \<and> date_parse (codes (to_iso (Date 2024 2 29))) = date_parse (codes '' 2024-02-29 '')"
proof -
  have v: "valid_date (Date 2024 2 29)" by code_simp
  moreover have "trim (codes '' 2024-02-29 '') = codes ''2024-02-29''" by (simp add: text_eval)
  moreover have "date_parse (codes ''2024-02-29'') = Inr (Date 2024 2 29)" by (simp add: text_eval date_eval)
  ultimately have v: "valid_date (Date 2024 2 29)" "date_parse (codes '' 2024-02-29 '') = Inr (Date 2024 2 29)"
    using date_parse_trim [of "codes '' 2024-02-29 ''"] by (simp_all only:)
  then show ?thesis using date_text_roundtrip [OF v] by blast
qed

text \<open>A range the constructor accepts has at least one day and at most 3652058, and
  \<open>days\<close> is the exact number of dates in it: the saturating subtraction never acts.\<close>
theorem range_days_exact:
  assumes "date_parse s = Inr a" and "date_parse t = Inr b" and "range_new a b = Inr r"
  shows "range_days r = day_number b - day_number a
    \<and> 1 \<le> range_days r \<and> range_days r \<le> 3652058 \<and> a < b"
proof -
  from assms have v: "valid_range r" by (meson date_parse_valid range_new_valid)
  have "range_start r = a" "range_end r = b"
    using assms(3) by (auto simp: range_new_def split: if_splits)
  with range_days_eq [OF v] v show ?thesis by (auto simp: valid_range_def)
qed

theorem range_days_exact_witness:
  "range_new (Date 2024 1 1) (Date 2025 1 1)
     = Inr \<lparr>range_start = Date 2024 1 1, range_end = Date 2025 1 1\<rparr>
   \<and> range_days \<lparr>range_start = Date 2024 1 1, range_end = Date 2025 1 1\<rparr> = 366"
proof -
  have p: "date_parse (codes ''2024-01-01'') = Inr (Date 2024 1 1)"
    "date_parse (codes ''2025-01-01'') = Inr (Date 2025 1 1)"
    "range_new (Date 2024 1 1) (Date 2025 1 1)
     = Inr \<lparr>range_start = Date 2024 1 1, range_end = Date 2025 1 1\<rparr>"
    by (simp_all add: text_eval date_eval)
  have "day_number (Date 2025 1 1) - day_number (Date 2024 1 1) = 366" by code_simp
  with range_days_exact [OF p] p(3) show ?thesis by simp
qed

end
