(* ===== verification/Names.thy ===== *)
theory Names
  imports Text
begin

text \<open>
  \<open>sutura-domain/src/model.rs\<close>, \<open>model/qualified.rs\<close> and \<open>nonempty.rs\<close>: the one
  identifier parser behind every name newtype, table paths of up to three parts, the small
  enumerations of the catalog, and the list that is never empty. A name type is the
  \<open>string\<close> its parser returned. The lemmas show that the parser accepts exactly the
  words of its grammar, that a name is read back from its text and that a path is.
\<close>

section \<open>Identifiers\<close>

datatype identifier_case = Sensitive | InsensitiveAscii

definition COARSEST :: identifier_case where
  "COARSEST = InsensitiveAscii"

definition eq_ignore_ascii_case :: "ustr \<Rightarrow> ustr \<Rightarrow> bool" where
  "eq_ignore_ascii_case s t \<longleftrightarrow> map to_ascii_lower s = map to_ascii_lower t"

definition names_one_thing :: "identifier_case \<Rightarrow> ustr \<Rightarrow> ustr \<Rightarrow> bool" where
  "names_one_thing c s t =
     (case c of Sensitive \<Rightarrow> s = t | InsensitiveAscii \<Rightarrow> eq_ignore_ascii_case s t)"

definition MAX_IDENTIFIER_LEN :: nat where
  "MAX_IDENTIFIER_LEN = 63"

datatype invalid_identifier =
    IdentifierEmpty
  | BadFirstCharacter nat
  | IllegalCharacter nat
  | IdentifierTooLong nat nat
  | TrailingHyphen

datatype hyphens = Rejected | Allowed

definition admits :: "hyphens \<Rightarrow> nat \<Rightarrow> bool" where
  "admits h c = (case h of
      Rejected \<Rightarrow> is_ascii_alphanumeric c \<or> c = 95
    | Allowed \<Rightarrow> is_ascii_alphanumeric c \<or> c = 95 \<or> c = 45)"

definition parse_name :: "ustr \<Rightarrow> hyphens \<Rightarrow> invalid_identifier + name" where
  "parse_name raw h =
     (let trimmed = trim raw in
      case trimmed of
        [] \<Rightarrow> Inl IdentifierEmpty
      | c0 # _ \<Rightarrow>
          if \<not> (is_ascii_alphabetic c0 \<or> c0 = 95) then Inl (BadFirstCharacter c0)
          else (case List.find (\<lambda>c. \<not> admits h c) trimmed of
            Some c \<Rightarrow> Inl (IllegalCharacter c)
          | None \<Rightarrow>
              if last trimmed = 45 then Inl TrailingHyphen
              else if utf8_len trimmed > MAX_IDENTIFIER_LEN
                then Inl (IdentifierTooLong (utf8_len trimmed) MAX_IDENTIFIER_LEN)
              else Inr (map char_of trimmed)))"

definition parse_identifier :: "ustr \<Rightarrow> invalid_identifier + name" where
  "parse_identifier raw = parse_name raw Rejected"

section \<open>Enumerations of the catalog\<close>

datatype aggregate = Sum | Count | CountDistinct | Avg | Min | Max

datatype grain = Day | Week | Month | Quarter | Year

fun grain_rank :: "grain \<Rightarrow> nat" where
  "grain_rank Day = 0"
| "grain_rank Week = 1"
| "grain_rank Month = 2"
| "grain_rank Quarter = 3"
| "grain_rank Year = 4"

lemma grain_rank_inject: "grain_rank g = grain_rank h \<Longrightarrow> g = h"
  by (cases g; cases h) simp_all

instantiation grain :: linorder
begin

definition less_eq_grain :: "grain \<Rightarrow> grain \<Rightarrow> bool" where
  "less_eq_grain g h \<longleftrightarrow> grain_rank g \<le> grain_rank h"

definition less_grain :: "grain \<Rightarrow> grain \<Rightarrow> bool" where
  "less_grain g h \<longleftrightarrow> grain_rank g < grain_rank h"

instance
  by standard (auto simp: less_eq_grain_def less_grain_def grain_rank_inject)

end

datatype join_type = OneToOne | ManyToOne | OneToMany

definition may_duplicate_rows :: "join_type \<Rightarrow> bool" where
  "may_duplicate_rows j \<longleftrightarrow> j = OneToMany"

fun aggregate_as_str :: "aggregate \<Rightarrow> string" where
  "aggregate_as_str Sum = ''sum''"
| "aggregate_as_str Count = ''count''"
| "aggregate_as_str CountDistinct = ''count_distinct''"
| "aggregate_as_str Avg = ''avg''"
| "aggregate_as_str Min = ''min''"
| "aggregate_as_str Max = ''max''"

fun grain_as_str :: "grain \<Rightarrow> string" where
  "grain_as_str Day = ''day''"
| "grain_as_str Week = ''week''"
| "grain_as_str Month = ''month''"
| "grain_as_str Quarter = ''quarter''"
| "grain_as_str Year = ''year''"

fun join_type_as_str :: "join_type \<Rightarrow> string" where
  "join_type_as_str OneToOne = ''one_to_one''"
| "join_type_as_str ManyToOne = ''many_to_one''"
| "join_type_as_str OneToMany = ''one_to_many''"

section \<open>The list that is never empty\<close>

datatype 'a nonempty = NonEmpty (ne_head: 'a) (ne_tail: "'a list")

definition ne_one :: "'a \<Rightarrow> 'a nonempty" where
  "ne_one x = NonEmpty x []"

definition ne_parse :: "'a list \<Rightarrow> 'a nonempty option" where
  "ne_parse xs = (case xs of [] \<Rightarrow> None | x # t \<Rightarrow> Some (NonEmpty x t))"

definition ne_iter :: "'a nonempty \<Rightarrow> 'a list" where
  "ne_iter n = ne_head n # ne_tail n"

definition ne_len :: "'a nonempty \<Rightarrow> nat" where
  "ne_len n = sat_add_usize 1 (length (ne_tail n))"

definition ne_map :: "('a \<Rightarrow> 'b) \<Rightarrow> 'a nonempty \<Rightarrow> 'b nonempty" where
  "ne_map f n = NonEmpty (f (ne_head n)) (map f (ne_tail n))"

lemma ne_iter_simps [simp]:
  "ne_iter (NonEmpty x t) = x # t" "ne_iter (ne_one x) = [x]" "ne_iter n \<noteq> []"
  "ne_iter (ne_map f n) = map f (ne_iter n)"
  by (simp_all add: ne_iter_def ne_one_def ne_map_def)

lemma ne_parse_iter [simp]: "ne_parse (ne_iter n) = Some n"
  by (cases n) (simp add: ne_parse_def)

lemma ne_parse_eq_Some: "ne_parse xs = Some n \<longleftrightarrow> xs = ne_iter n"
  by (cases n; cases xs) (auto simp: ne_parse_def)

lemma ne_parse_eq_None [simp]: "ne_parse xs = None \<longleftrightarrow> xs = []"
  by (cases xs) (auto simp: ne_parse_def)

section \<open>Table paths\<close>

datatype qualification = TableOnly | Dataset | ProjectAndDataset

record table_qualifier =
  tq_project :: "name option"
  tq_dataset :: name

record qualified_table =
  qt_qualifier :: "table_qualifier option"
  qt_table :: name

datatype invalid_qualified_table =
    TooManyParts ustr nat nat
  | BadProject ustr invalid_identifier
  | BadDataset ustr invalid_identifier
  | BadTable ustr invalid_identifier

definition MAX_PARTS :: nat where
  "MAX_PARTS = 3"

definition qualified_table_parse :: "ustr \<Rightarrow> invalid_qualified_table + qualified_table" where
  "qualified_table_parse raw =
     (let trimmed = trim raw in
      case split_on 46 trimmed of
        [project, dataset, table] \<Rightarrow>
          bind_res (map_err (BadProject trimmed) (parse_name project Allowed)) (\<lambda>p.
          bind_res (map_err (BadDataset trimmed) (parse_identifier dataset)) (\<lambda>d.
          bind_res (map_err (BadTable trimmed) (parse_identifier table)) (\<lambda>t.
            Inr \<lparr>qt_qualifier = Some \<lparr>tq_project = Some p, tq_dataset = d\<rparr>, qt_table = t\<rparr>)))
      | [dataset, table] \<Rightarrow>
          bind_res (map_err (BadDataset trimmed) (parse_identifier dataset)) (\<lambda>d.
          bind_res (map_err (BadTable trimmed) (parse_identifier table)) (\<lambda>t.
            Inr \<lparr>qt_qualifier = Some \<lparr>tq_project = None, tq_dataset = d\<rparr>, qt_table = t\<rparr>))
      | [table] \<Rightarrow>
          bind_res (map_err (BadTable trimmed) (parse_identifier table)) (\<lambda>t.
            Inr \<lparr>qt_qualifier = None, qt_table = t\<rparr>)
      | parts \<Rightarrow> Inl (TooManyParts trimmed (length parts) MAX_PARTS))"

definition qt_qualification :: "qualified_table \<Rightarrow> qualification" where
  "qt_qualification q =
     (case qt_qualifier q of
        None \<Rightarrow> TableOnly
      | Some f \<Rightarrow> (case tq_project f of None \<Rightarrow> Dataset | Some _ \<Rightarrow> ProjectAndDataset))"

definition qt_display :: "qualified_table \<Rightarrow> string" where
  "qt_display q =
     (case qt_qualifier q of
        None \<Rightarrow> []
      | Some f \<Rightarrow>
          (case tq_project f of None \<Rightarrow> [] | Some p \<Rightarrow> p @ ''.'') @ tq_dataset f @ ''.'')
     @ qt_table q"

section \<open>What the parser accepts\<close>

text \<open>The words of a name grammar.\<close>

definition well_named :: "hyphens \<Rightarrow> string \<Rightarrow> bool" where
  "well_named h s \<longleftrightarrow> s \<noteq> [] \<and> length s \<le> 63
     \<and> (is_ascii_alphabetic (of_char (hd s)) \<or> hd s = CHR ''_'')
     \<and> (\<forall>c \<in> set s. admits h (of_char c)) \<and> last s \<noteq> CHR ''-''"

lemma admits_ascii: "admits h c \<Longrightarrow> c < 128 \<and> \<not> is_whitespace c \<and> c \<noteq> 46"
  by (auto simp: admits_def is_ascii_alphanumeric_def is_ascii_alphabetic_def is_ascii_digit_def
      is_whitespace_def split: hyphens.splits)

lemma codes_char_of: "\<forall>c \<in> set s. c < 256 \<Longrightarrow> codes (map char_of s) = s"
  by (induction s) (auto simp: of_char_of)

lemma of_char_marks:
  "of_char c = (45::nat) \<longleftrightarrow> c = CHR ''-''" "of_char c = (95::nat) \<longleftrightarrow> c = CHR ''_''"
  using inj_eq [OF inj_of_char, of c "CHR ''-''"] inj_eq [OF inj_of_char, of c "CHR ''_''"] by simp_all

lemma well_named_codes:
  assumes "\<forall>c \<in> set u. admits h c"
  shows "well_named h (map char_of u) \<longleftrightarrow>
     u \<noteq> [] \<and> length u \<le> 63 \<and> (is_ascii_alphabetic (hd u) \<or> hd u = 95) \<and> last u \<noteq> 45"
proof -
  have small: "c < 256" if "c \<in> set u" for c using assms admits_ascii that by fastforce
  then have inv: "of_char (char_of c :: char) = c" if "c \<in> set u" for c
    using that by (simp add: of_char_of)
  show ?thesis
  proof (cases "u = []")
    case False
    then have "hd u \<in> set u" "last u \<in> set u" by simp_all
    with False assms inv show ?thesis
      by (simp add: well_named_def hd_map last_map flip: of_char_marks)
  qed (simp add: well_named_def)
qed

lemma parse_name_eq_Inr:
  "parse_name raw h = Inr s \<longleftrightarrow> well_named h s \<and> trim raw = codes s"
proof (cases "\<forall>c \<in> set (trim raw). admits h c")
  case False
  then have "parse_name raw h \<noteq> Inr s"
    by (auto simp: parse_name_def Let_def find_None_all split: list.splits option.splits)
  moreover have "\<not> (well_named h s \<and> trim raw = codes s)"
    using False by (auto simp: well_named_def)
  ultimately show ?thesis by blast
next
  case True
  then have ascii: "\<forall>c \<in> set (trim raw). c < 128" using admits_ascii by blast
  then have len: "utf8_len (trim raw) = length (trim raw)" by (rule utf8_len_ascii)
  have "codes (map char_of (trim raw)) = trim raw"
    using ascii by (intro codes_char_of) auto
  then have *: "trim raw = codes s \<longleftrightarrow> s = map char_of (trim raw)"
    by (metis codes_inject)
  have none: "List.find (\<lambda>c. \<not> admits h c) (trim raw) = None"
    using True by (simp add: find_None_all)
  show ?thesis
  proof (cases "trim raw")
    case Nil
    with * show ?thesis by (auto simp: parse_name_def well_named_def)
  next
    case (Cons c t)
    then have "parse_name raw h = Inr s \<longleftrightarrow>
        s = map char_of (trim raw) \<and> (is_ascii_alphabetic (hd (trim raw)) \<or> hd (trim raw) = 95)
        \<and> last (trim raw) \<noteq> 45 \<and> length (trim raw) \<le> 63"
      using none [unfolded Cons] len [unfolded Cons]
      by (auto simp: parse_name_def Let_def MAX_IDENTIFIER_LEN_def simp del: find.simps)
    moreover have "trim raw \<noteq> []" using Cons by simp
    ultimately show ?thesis using well_named_codes [OF True] * by blast
  qed
qed

lemma trim_well_named: "well_named h s \<Longrightarrow> trim (codes s) = codes s"
proof (rule trim_id)
  assume "well_named h s"
  then have "\<forall>c \<in> set (codes s). admits h c"
    by (auto simp: well_named_def)
  then have "\<forall>c \<in> set (codes s). \<not> is_whitespace c"
    using admits_ascii by blast
  then show "codes s = [] \<or> \<not> is_whitespace (hd (codes s)) \<and> \<not> is_whitespace (last (codes s))"
    using hd_in_set last_in_set by blast
qed

lemma parse_name_codes: "well_named h s \<Longrightarrow> parse_name (codes s) h = Inr s"
  unfolding parse_name_eq_Inr using trim_well_named by blast

lemma hyphens_rejected: "well_named Rejected s \<Longrightarrow> well_named Allowed s"
  by (auto simp: well_named_def admits_def)

text \<open>A path whose parts are names.\<close>

definition well_qualified :: "qualified_table \<Rightarrow> bool" where
  "well_qualified q \<longleftrightarrow> well_named Rejected (qt_table q)
     \<and> (case qt_qualifier q of None \<Rightarrow> True
        | Some f \<Rightarrow> well_named Rejected (tq_dataset f)
            \<and> (case tq_project f of None \<Rightarrow> True | Some p \<Rightarrow> well_named Allowed p))"

lemma dot_free: "well_named h s \<Longrightarrow> 46 \<notin> set (codes s)"
  using admits_ascii by (fastforce simp: well_named_def)

lemma qualified_parse_sound:
  assumes "qualified_table_parse raw = Inr q"
  shows "well_qualified q"
  using assms
  by (auto simp: qualified_table_parse_def Let_def res_simps parse_identifier_def parse_name_eq_Inr
      well_qualified_def simp del: codes_simps split: list.splits)

lemma dotted_ends:
  assumes "well_named h s" and "well_named h' t"
  shows "trim (codes s @ u @ codes t) = codes s @ u @ codes t"
proof (rule trim_id)
  have "s \<noteq> []" "t \<noteq> []" using assms by (auto simp: well_named_def)
  then have ne: "codes s \<noteq> []" "codes t \<noteq> []" by (simp_all add: codes_def)
  then have "hd (codes s) \<in> set (codes s)" "last (codes t) \<in> set (codes t)"
    by (auto simp del: codes_simps)
  moreover have "\<forall>c \<in> set (codes s) \<union> set (codes t). \<not> is_whitespace c"
    using assms admits_ascii by (fastforce simp: well_named_def)
  ultimately show "codes s @ u @ codes t = [] \<or>
      \<not> is_whitespace (hd (codes s @ u @ codes t)) \<and> \<not> is_whitespace (last (codes s @ u @ codes t))"
    using ne by simp
qed

lemma qualified_parse_display:
  assumes "well_qualified q"
  shows "qualified_table_parse (codes (qt_display q)) = Inr q"
proof -
  obtain f t where q: "q = \<lparr>qt_qualifier = f, qt_table = t\<rparr>" by (cases q)
  note parse = parse_identifier_def parse_name_codes split_on_append split_on_absent dot_free
  show ?thesis
  proof (cases f)
    case None
    with assms q show ?thesis
      by (simp add: qualified_table_parse_def qt_display_def well_qualified_def trim_well_named parse
          del: codes_simps(2,3,5))
  next
    case (Some g)
    obtain p d where g: "g = \<lparr>tq_project = p, tq_dataset = d\<rparr>" by (cases g)
    have dt: "well_named Rejected d" "well_named Rejected t"
      using assms q Some g by (auto simp: well_qualified_def)
    show ?thesis
    proof (cases p)
      case None
      have shown: "codes (qt_display q) = codes d @ 46 # codes t"
        using q Some g None by (simp add: qt_display_def)
      have "trim (codes (qt_display q)) = codes d @ 46 # codes t"
        using dotted_ends [OF dt, of "[46]"] shown by simp
      then show ?thesis using dt q Some g None
        unfolding qualified_table_parse_def by (simp add: parse del: codes_simps(2,3,5))
    next
      case p: (Some r)
      have r: "well_named Allowed r" using assms q Some g p by (simp add: well_qualified_def)
      have shown: "codes (qt_display q) = codes r @ 46 # codes d @ 46 # codes t"
        using q Some g p by (simp add: qt_display_def)
      have "trim (codes (qt_display q)) = codes r @ 46 # codes d @ 46 # codes t"
        using dotted_ends [OF r dt(2), of "46 # codes d @ [46]"] shown by simp
      then show ?thesis using dt r q Some g p
        unfolding qualified_table_parse_def by (simp add: parse del: codes_simps(2,3,5))
    qed
  qed
qed

section \<open>Properties\<close>

text \<open>\<open>parse_name\<close> accepts exactly the texts whose trimmed form is a word of the
  name grammar (a letter or underscore first, only admitted characters, no final hyphen, at
  most 63 of them), and returns that word.\<close>
theorem parse_name_exact:
  "parse_name raw h = Inr s \<longleftrightarrow> trim raw = codes s \<and> s \<noteq> [] \<and> length s \<le> 63
     \<and> (is_ascii_alphabetic (of_char (hd s)) \<or> hd s = CHR ''_'')
     \<and> (\<forall>c \<in> set s. admits h (of_char c)) \<and> last s \<noteq> CHR ''-''"
  by (auto simp: parse_name_eq_Inr well_named_def)

theorem parse_name_exact_witness:
  "parse_name (codes '' sales_eu '') Rejected = Inr ''sales_eu''"
proof -
  have "trim (codes '' sales_eu '') = codes ''sales_eu''"
    by (simp add: trim_def trim_start_def trim_end_def is_whitespace_def)
  then show ?thesis unfolding parse_name_exact
    by (simp add: admits_def is_ascii_alphanumeric_def is_ascii_alphabetic_def)
qed

text \<open>C34: a table path keeps its parts: whatever path \<open>parse\<close> accepts, its display
  form is read back as the same path, with the same number of parts, so two paths with the
  same display form are the same table.\<close>
theorem qualified_table_roundtrip:
  assumes "qualified_table_parse raw = Inr q" and "qualified_table_parse raw' = Inr q'"
  shows "qualified_table_parse (codes (qt_display q)) = Inr q
    \<and> (qt_display q = qt_display q' \<longleftrightarrow> q = q')"
proof -
  note wq = qualified_parse_display [OF qualified_parse_sound]
  have "qualified_table_parse (codes (qt_display q)) = Inr q"
    "qualified_table_parse (codes (qt_display q')) = Inr q'"
    by (rule wq, rule assms)+
  then show ?thesis by (metis sum.inject(2))
qed

theorem qualified_table_roundtrip_witness:
  "qualified_table_parse (codes (qt_display \<lparr>qt_qualifier = None, qt_table = ''t''\<rparr>))
     = Inr \<lparr>qt_qualifier = None, qt_table = ''t''\<rparr>"
proof -
  let ?q = "\<lparr>qt_qualifier = None, qt_table = ''t''\<rparr>"
  have "well_qualified ?q"
    by (simp add: well_qualified_def well_named_def admits_def is_ascii_alphanumeric_def
        is_ascii_alphabetic_def)
  from qualified_parse_display [OF this]
  have "qualified_table_parse (codes (qt_display ?q)) = Inr ?q" .
  from qualified_table_roundtrip [OF this this] show ?thesis by blast
qed

end
