(* ===== verification/Authored.thy ===== *)
theory Authored
  imports Names
begin

text \<open>
  \<open>sutura-domain/src/catalog/authored.rs\<close>: the texts a catalog author writes and an answer
  shows, each behind a parser of its own: a dimension value and an anchor value (one plain line
  of at most 64 characters, the two parsers share \<open>authored_scalar\<close>), a column type (made
  one line, at most 512 characters) and a description (several lines, at most 4096 bytes). The
  lemmas show which texts each parser accepts and that parsing is idempotent.
\<close>

section \<open>Dimension values and anchors\<close>

definition MAX_DIMENSION_VALUE_CHARS :: nat where
  "MAX_DIMENSION_VALUE_CHARS = 64"

type_synonym dimension_value = ustr
type_synonym anchor_value = ustr

datatype invalid_dimension_value =
    ValueEmpty
  | ValueControlCharacter ustr
  | ValueInvisibleCharacter ustr nat
  | ValueSpacing ustr
  | ValueTooLong ustr nat nat

fun contains_pair :: "nat \<Rightarrow> ustr \<Rightarrow> bool" where
  "contains_pair c (x # y # s) \<longleftrightarrow> (x = c \<and> y = c) \<or> contains_pair c (y # s)"
| "contains_pair c _ \<longleftrightarrow> False"

definition has_unreadable_spacing :: "ustr \<Rightarrow> bool" where
  "has_unreadable_spacing raw =
     (if raw \<noteq> [] \<and> (is_whitespace (hd raw) \<or> is_whitespace (last raw)) then True
      else if \<exists>c \<in> set raw. is_whitespace c \<and> c \<noteq> 32 then True
      else contains_pair 32 raw)"

definition authored_scalar :: "ustr \<Rightarrow> invalid_dimension_value + unit" where
  "authored_scalar raw =
     (if raw = [] then Inl ValueEmpty
      else if \<exists>c \<in> set raw. is_control c then Inl (ValueControlCharacter raw)
      else (case first_invisible raw of
          Some c \<Rightarrow> Inl (ValueInvisibleCharacter raw c)
        | None \<Rightarrow>
            if has_unreadable_spacing raw then Inl (ValueSpacing raw)
            else let len = length raw in
              if len > MAX_DIMENSION_VALUE_CHARS
              then Inl (ValueTooLong raw len MAX_DIMENSION_VALUE_CHARS)
              else Inr ()))"

definition dimension_value_parse :: "ustr \<Rightarrow> invalid_dimension_value + dimension_value" where
  "dimension_value_parse raw = bind_res (authored_scalar raw) (\<lambda>_. Inr raw)"

definition anchor_value_parse :: "ustr \<Rightarrow> invalid_dimension_value + anchor_value" where
  "anchor_value_parse raw = bind_res (authored_scalar raw) (\<lambda>_. Inr raw)"

section \<open>Column types\<close>

definition MAX_COLUMN_TYPE_CHARS :: nat where
  "MAX_COLUMN_TYPE_CHARS = 512"

type_synonym column_type = ustr

datatype invalid_column_type =
    TypeEmpty
  | TypeControlCharacter ustr nat
  | TypeInvisibleCharacter ustr nat
  | TypeTooLong ustr nat nat

definition normalize_to_one_line :: "ustr \<Rightarrow> ustr" where
  "normalize_to_one_line raw = join_with [32] (split_whitespace raw)"

definition column_type_parse :: "ustr \<Rightarrow> invalid_column_type + column_type" where
  "column_type_parse raw =
     (let normalized = normalize_to_one_line raw in
      if normalized = [] then Inl TypeEmpty
      else (case List.find is_control normalized of
          Some c \<Rightarrow> Inl (TypeControlCharacter normalized c)
        | None \<Rightarrow>
          (case first_invisible normalized of
              Some c \<Rightarrow> Inl (TypeInvisibleCharacter normalized c)
            | None \<Rightarrow>
                if length normalized > MAX_COLUMN_TYPE_CHARS
                then Inl (TypeTooLong normalized (length normalized) MAX_COLUMN_TYPE_CHARS)
                else Inr normalized)))"

section \<open>Descriptions\<close>

definition MAX_DESCRIPTION_BYTES :: nat where
  "MAX_DESCRIPTION_BYTES = 4096"

definition MAX_DESCRIPTION_LINES :: nat where
  "MAX_DESCRIPTION_LINES = 200"

type_synonym description = ustr

datatype invalid_description =
    DescriptionControlCharacter nat
  | DescriptionInvisibleCharacter nat
  | DescriptionTooLong nat nat
  | DescriptionTooManyLines nat nat

definition description_parse :: "ustr \<Rightarrow> invalid_description + description" where
  "description_parse raw =
     (let trimmed = trim raw in
      case first_altered_control trimmed of
        Some c \<Rightarrow> Inl (DescriptionControlCharacter c)
      | None \<Rightarrow>
        (case first_invisible trimmed of
            Some c \<Rightarrow> Inl (DescriptionInvisibleCharacter c)
          | None \<Rightarrow>
              if utf8_len trimmed > MAX_DESCRIPTION_BYTES
              then Inl (DescriptionTooLong (utf8_len trimmed) MAX_DESCRIPTION_BYTES)
              else let lines = lines_count trimmed in
                if lines > MAX_DESCRIPTION_LINES
                then Inl (DescriptionTooManyLines lines MAX_DESCRIPTION_LINES)
                else Inr trimmed))"

section \<open>What the parsers accept\<close>

definition plain_line :: "ustr \<Rightarrow> bool" where
  "plain_line s \<longleftrightarrow> s \<noteq> [] \<and> (\<forall>c \<in> set s. \<not> is_control c \<and> \<not> is_invisible c \<and> (is_whitespace c \<longrightarrow> c = 32))
     \<and> \<not> is_whitespace (hd s) \<and> \<not> is_whitespace (last s) \<and> \<not> contains_pair 32 s"

lemma first_invisible_None: "first_invisible s = None \<longleftrightarrow> (\<forall>c \<in> set s. \<not> is_invisible c)"
  by (simp add: first_invisible_def find_None_all)

lemma authored_scalar_ok: "authored_scalar s = Inr () \<longleftrightarrow> plain_line s \<and> length s \<le> 64"
proof (cases "first_invisible s")
  case None
  have vis: "\<forall>c \<in> set s. \<not> is_invisible c" using None by (simp only: first_invisible_None)
  show ?thesis
    unfolding authored_scalar_def plain_line_def has_unreadable_spacing_def Let_def None
      MAX_DIMENSION_VALUE_CHARS_def
    using vis by (cases "s = []"; cases "contains_pair 32 s"; cases "64 < length s"; simp; blast)
next
  case (Some c)
  then have "\<not> plain_line s" unfolding plain_line_def by (metis first_invisible_None option.distinct(1))
  with Some show ?thesis by (simp add: authored_scalar_def)
qed

lemma split_whitespace_aux_words:
  "\<forall>c \<in> set acc. \<not> is_whitespace c \<Longrightarrow> w \<in> set (split_whitespace_aux acc s)
     \<Longrightarrow> w \<noteq> [] \<and> (\<forall>c \<in> set w. \<not> is_whitespace c)"
proof (induction s arbitrary: acc)
  case Nil
  then show ?case by (cases "acc = []") simp_all
next
  case (Cons x s)
  show ?case
  proof (cases "is_whitespace x")
    case True
    with Cons.prems have "w = rev acc \<and> acc \<noteq> [] \<or> w \<in> set (split_whitespace_aux [] s)"
      by (auto split: if_splits)
    moreover have "\<forall>c \<in> set []. \<not> is_whitespace c" by simp
    ultimately show ?thesis using Cons.prems(1) Cons.IH by (metis rev_is_Nil_conv set_rev)
  next
    case False
    with Cons.prems have "w \<in> set (split_whitespace_aux (x # acc) s)" by simp
    moreover have "\<forall>c \<in> set (x # acc). \<not> is_whitespace c" using False Cons.prems(1) by simp
    ultimately show ?thesis using Cons.IH by blast
  qed
qed

lemma split_whitespace_aux_word:
  "\<forall>c \<in> set w. \<not> is_whitespace c \<Longrightarrow> split_whitespace_aux acc (w @ s) = split_whitespace_aux (rev w @ acc) s"
  by (induction w arbitrary: acc) auto

lemma split_whitespace_join:
  "\<forall>w \<in> set ws. w \<noteq> [] \<and> (\<forall>c \<in> set w. \<not> is_whitespace c) \<Longrightarrow>
     split_whitespace (join_with [32] ws) = ws"
proof (induction "[32::nat]" ws rule: join_with.induct)
  case 1
  then show ?case by (simp add: split_whitespace_def)
next
  case (2 w)
  then show ?case
    using split_whitespace_aux_word [of w "[]" "[]"] by (simp add: split_whitespace_def)
next
  case (3 w v ws)
  have "is_whitespace 32" by (simp add: is_whitespace_def)
  with 3 show ?case
    using split_whitespace_aux_word [of w "[]" "32 # join_with [32] (v # ws)"]
    by (simp add: split_whitespace_def)
qed

lemma normalize_idempotent [simp]:
  "normalize_to_one_line (normalize_to_one_line s) = normalize_to_one_line s"
proof -
  have "\<forall>w \<in> set (split_whitespace s). w \<noteq> [] \<and> (\<forall>c \<in> set w. \<not> is_whitespace c)"
    using split_whitespace_aux_words [of "[]" _ s] by (auto simp: split_whitespace_def)
  then show ?thesis by (simp add: normalize_to_one_line_def split_whitespace_join)
qed

lemma column_type_parse_idempotent:
  "column_type_parse raw = Inr t \<Longrightarrow> column_type_parse t = Inr t \<and> length t \<le> 512"
  by (auto simp: column_type_parse_def Let_def MAX_COLUMN_TYPE_CHARS_def
      split: if_splits option.splits)

lemma description_parse_idempotent:
  "description_parse raw = Inr d \<Longrightarrow> description_parse d = Inr d \<and> utf8_len d \<le> 4096"
  by (auto simp: description_parse_def Let_def MAX_DESCRIPTION_BYTES_def
      split: if_splits option.splits)

section \<open>Properties\<close>

text \<open>The authored texts are values of their own grammar. A dimension value and an
  anchor are accepted exactly when they are one plain visible line of 1 to 64 characters and
  are kept as written; a column type and a description are normalised by the parser, and what
  it returns is within the bound and parses to itself.\<close>
theorem authored_texts_exact:
  assumes "column_type_parse rt = Inr t" and "description_parse rd = Inr d"
  shows "(dimension_value_parse raw = Inr v \<longleftrightarrow> v = raw \<and> plain_line raw \<and> length raw \<le> 64)
    \<and> (anchor_value_parse raw = Inr a \<longleftrightarrow> a = raw \<and> plain_line raw \<and> length raw \<le> 64)
    \<and> column_type_parse t = Inr t \<and> length t \<le> 512
    \<and> description_parse d = Inr d \<and> utf8_len d \<le> 4096"
  using column_type_parse_idempotent [OF assms(1)] description_parse_idempotent [OF assms(2)]
    authored_scalar_ok [of raw]
  by (auto simp: dimension_value_parse_def anchor_value_parse_def res_simps)

theorem authored_texts_exact_witness:
  "column_type_parse (codes ''int '') = Inr (codes ''int'') \<and> description_parse [] = Inr []
     \<and> column_type_parse (codes ''int'') = Inr (codes ''int'')"
proof -
  have t: "column_type_parse (codes ''int '') = Inr (codes ''int'')"
    by (simp add: column_type_parse_def normalize_to_one_line_def split_whitespace_def
        is_whitespace_def is_control_def first_invisible_def is_invisible_def MAX_COLUMN_TYPE_CHARS_def)
  have d: "description_parse [] = Inr []"
    by (simp add: description_parse_def trim_def trim_start_def trim_end_def first_invisible_def
        first_altered_control_def MAX_DESCRIPTION_BYTES_def MAX_DESCRIPTION_LINES_def utf8_len_def
        lines_count_def)
  from authored_texts_exact [OF t d] t d show ?thesis by blast
qed

end
