(* ===== verification/Measure.thy ===== *)
theory Measure
  imports Authored
begin

text \<open>
  \<open>sutura-domain/src/measure.rs\<close>: what a metric measures. A term is one aggregated
  column or one conditional count, a measure is one term or a ratio of two, and a required
  filter is a predicate every statement of the metric carries. The serde form of a term is the
  record of four optional fields its two conversions go through.
\<close>

section \<open>Terms\<close>

record aggregated_column =
  ac_aggregate :: aggregate
  ac_column :: name
  ac_model :: "name option"

datatype measure_term =
    TermAggregate aggregated_column
  | TermCountIf name "name option"

fun term_column :: "measure_term \<Rightarrow> name" where
  "term_column (TermAggregate inner) = ac_column inner"
| "term_column (TermCountIf column _) = column"

fun term_model :: "measure_term \<Rightarrow> name option" where
  "term_model (TermAggregate inner) = ac_model inner"
| "term_model (TermCountIf _ model) = model"

record term_repr =
  tr_aggregate :: "aggregate option"
  tr_column :: "name option"
  tr_count_if :: "name option"
  tr_model :: "name option"

datatype invalid_term =
    EmptyTerm
  | TwoTerms
  | NoColumn aggregate
  | NoAggregate name
  | ModelWithoutTerm name

definition term_try_from :: "term_repr \<Rightarrow> invalid_term + measure_term" where
  "term_try_from r =
     (case (tr_aggregate r, tr_column r, tr_count_if r, tr_model r) of
        (Some a, Some c, None, m) \<Rightarrow>
          Inr (TermAggregate \<lparr>ac_aggregate = a, ac_column = c, ac_model = m\<rparr>)
      | (None, None, Some c, m) \<Rightarrow> Inr (TermCountIf c m)
      | (Some a, None, None, _) \<Rightarrow> Inl (NoColumn a)
      | (None, Some c, None, _) \<Rightarrow> Inl (NoAggregate c)
      | (None, None, None, Some m) \<Rightarrow> Inl (ModelWithoutTerm m)
      | (None, None, None, None) \<Rightarrow> Inl EmptyTerm
      | (_, _, Some _, _) \<Rightarrow> Inl TwoTerms)"

fun repr_of_term :: "measure_term \<Rightarrow> term_repr" where
  "repr_of_term (TermAggregate inner) =
     \<lparr>tr_aggregate = Some (ac_aggregate inner), tr_column = Some (ac_column inner),
      tr_count_if = None, tr_model = ac_model inner\<rparr>"
| "repr_of_term (TermCountIf column model) =
     \<lparr>tr_aggregate = None, tr_column = None, tr_count_if = Some column, tr_model = model\<rparr>"

section \<open>Measures and required filters\<close>

datatype zero_denominator = ZeroNull | ZeroFail

datatype measure =
    Simple measure_term
  | Ratio (ratio_numerator: measure_term) (ratio_denominator: measure_term)
      (ratio_zero: zero_denominator)

fun measure_terms :: "measure \<Rightarrow> measure_term list" where
  "measure_terms (Simple t) = [t]"
| "measure_terms (Ratio n d _) = [n, d]"

definition measure_columns :: "measure \<Rightarrow> name list" where
  "measure_columns m = map term_column (measure_terms m)"

definition measure_models :: "measure \<Rightarrow> name option list" where
  "measure_models m = map term_model (measure_terms m)"

datatype required_filter =
    Equals (filter_column: name) dimension_value
  | NotEquals (filter_column: name) dimension_value
  | IsTrue (filter_column: name)
  | IsNotNull (filter_column: name)

fun filter_value :: "required_filter \<Rightarrow> dimension_value option" where
  "filter_value (Equals _ v) = Some v"
| "filter_value (NotEquals _ v) = Some v"
| "filter_value (IsTrue _) = None"
| "filter_value (IsNotNull _) = None"

section \<open>Properties\<close>

text \<open>C35: the serde form of a term is exact: what the conversion writes is read back as the
  same term, every form that is read as a term is the one that term writes, and so a form with
  two terms, half a term or a model alone is always an error.\<close>
theorem term_repr_roundtrip:
  "term_try_from r = Inr t \<longleftrightarrow> r = repr_of_term t"
proof -
  obtain a c i m where r: "r = \<lparr>tr_aggregate = a, tr_column = c, tr_count_if = i, tr_model = m\<rparr>"
    by (cases r)
  show ?thesis
  proof (cases t)
    case (TermAggregate x)
    then show ?thesis unfolding r
      by (cases x) (auto simp: term_try_from_def split: option.splits)
  next
    case (TermCountIf x n)
    then show ?thesis unfolding r
      by (auto simp: term_try_from_def split: option.splits)
  qed
qed

end
