(* ===== verification/Federation.thy ===== *)
theory Federation
  imports Measure Complex_Main "HOL-Library.Multiset"
begin

text \<open>
  \<open>sutura-domain/src/federation.rs\<close>: how a measure descends into the legs of a federated
  plan. \<open>descent_of\<close> classifies an aggregate (pushed as written, pushed as two columns that
  are divided above, or pulled up as a grouping key), \<open>descend\<close> a term and
  \<open>federation_of\<close> a measure. The second half states the meaning the classification has to
  keep: the value of the measure over all rows is the value of the tree above the legs, however
  the rows are cut into leg groups.
\<close>

section \<open>The classification\<close>

record pushed =
  pushed_push :: aggregate
  pushed_combine :: aggregate

datatype pulled = Pulled (pulled_above: aggregate)

datatype descent =
    AsWritten pushed
  | Decomposed pushed pushed zero_denominator
  | AsGroupingKey pulled

fun descent_of :: "aggregate \<Rightarrow> descent" where
  "descent_of Sum = AsWritten \<lparr>pushed_push = Sum, pushed_combine = Sum\<rparr>"
| "descent_of Count = AsWritten \<lparr>pushed_push = Count, pushed_combine = Sum\<rparr>"
| "descent_of Min = AsWritten \<lparr>pushed_push = Min, pushed_combine = Min\<rparr>"
| "descent_of Max = AsWritten \<lparr>pushed_push = Max, pushed_combine = Max\<rparr>"
| "descent_of Avg = Decomposed \<lparr>pushed_push = Sum, pushed_combine = Sum\<rparr>
      \<lparr>pushed_push = Count, pushed_combine = Sum\<rparr> ZeroNull"
| "descent_of CountDistinct = AsGroupingKey (Pulled CountDistinct)"

datatype carried =
    CarriedAggregated pushed name "name option"
  | CarriedCountIf name "name option"
  | CarriedKeys pulled name "name option"

fun carried_column :: "carried \<Rightarrow> name" where
  "carried_column (CarriedAggregated _ c _) = c"
| "carried_column (CarriedCountIf c _) = c"
| "carried_column (CarriedKeys _ c _) = c"

fun carried_model :: "carried \<Rightarrow> name option" where
  "carried_model (CarriedAggregated _ _ m) = m"
| "carried_model (CarriedCountIf _ m) = m"
| "carried_model (CarriedKeys _ _ m) = m"

fun carried_combine :: "carried \<Rightarrow> aggregate" where
  "carried_combine (CarriedAggregated p _ _) = pushed_combine p"
| "carried_combine (CarriedCountIf _ _) = Sum"
| "carried_combine (CarriedKeys p _ _) = pulled_above p"

fun is_pulled_up :: "carried \<Rightarrow> bool" where
  "is_pulled_up (CarriedKeys _ _ _) = True"
| "is_pulled_up _ = False"

datatype above =
    Total carried
  | Quotient above above zero_denominator

definition descend :: "measure_term \<Rightarrow> above" where
  "descend t =
     (case t of
        TermCountIf column model \<Rightarrow> Total (CarriedCountIf column model)
      | TermAggregate inner \<Rightarrow>
          (case descent_of (ac_aggregate inner) of
             AsWritten p \<Rightarrow> Total (CarriedAggregated p (ac_column inner) (ac_model inner))
           | Decomposed n d z \<Rightarrow>
               Quotient (Total (CarriedAggregated n (ac_column inner) (ac_model inner)))
                 (Total (CarriedAggregated d (ac_column inner) (ac_model inner))) z
           | AsGroupingKey p \<Rightarrow> Total (CarriedKeys p (ac_column inner) (ac_model inner))))"

record federation =
  fed_above :: above

definition federation_of :: "measure \<Rightarrow> federation" where
  "federation_of m =
     \<lparr>fed_above = (case m of
        Simple t \<Rightarrow> descend t
      | Ratio n d z \<Rightarrow> Quotient (descend n) (descend d) z)\<rparr>"

fun erase_carried :: "name \<Rightarrow> carried \<Rightarrow> carried" where
  "erase_carried own (CarriedAggregated p c m) =
     CarriedAggregated p c (if m = Some own then None else m)"
| "erase_carried own (CarriedCountIf c m) = CarriedCountIf c (if m = Some own then None else m)"
| "erase_carried own (CarriedKeys p c m) = CarriedKeys p c (if m = Some own then None else m)"

fun erase_own :: "name \<Rightarrow> above \<Rightarrow> above" where
  "erase_own own (Total c) = Total (erase_carried own c)"
| "erase_own own (Quotient n d z) = Quotient (erase_own own n) (erase_own own d) z"

definition federation_of_metric :: "measure \<Rightarrow> name \<Rightarrow> federation" where
  "federation_of_metric m own = (let f = federation_of m in f\<lparr>fed_above := erase_own own (fed_above f)\<rparr>)"

fun leaves :: "above \<Rightarrow> carried list \<Rightarrow> carried list" where
  "leaves (Total c) out = out @ [c]"
| "leaves (Quotient n d _) out = leaves d (leaves n out)"

definition fed_carried :: "federation \<Rightarrow> carried list" where
  "fed_carried f = leaves (fed_above f) []"

definition pulls_up_rows :: "federation \<Rightarrow> bool" where
  "pulls_up_rows f = list_ex is_pulled_up (fed_carried f)"

section \<open>What the numbers mean\<close>

text \<open>
  The reference semantics, the one SQL gives the closed vocabulary. A cell is a number or
  null; every aggregate but the two counts skips nulls and is null over nothing; a conditional
  count is the sum of a one or a zero per row; a zero denominator is null or a failed statement.
  The values are any ordered field, so nothing is lost to rounding.
\<close>

type_synonym 'v cell = "'v option"
type_synonym 'v sql_row = "name option \<times> name \<Rightarrow> 'v cell"

fun nonnull :: "'v cell list \<Rightarrow> 'v list" where
  "nonnull [] = []"
| "nonnull (None # xs) = nonnull xs"
| "nonnull (Some v # xs) = v # nonnull xs"

fun sql_aggregate :: "aggregate \<Rightarrow> ('v::linordered_field) cell list \<Rightarrow> 'v cell" where
  "sql_aggregate Sum xs = (if nonnull xs = [] then None else Some (sum_list (nonnull xs)))"
| "sql_aggregate Count xs = Some (of_nat (length (nonnull xs)))"
| "sql_aggregate CountDistinct xs = Some (of_nat (card (set (nonnull xs))))"
| "sql_aggregate Avg xs =
     (if nonnull xs = [] then None else Some (sum_list (nonnull xs) / of_nat (length (nonnull xs))))"
| "sql_aggregate Min xs = (if nonnull xs = [] then None else Some (linorder_class.Min (set (nonnull xs))))"
| "sql_aggregate Max xs = (if nonnull xs = [] then None else Some (linorder_class.Max (set (nonnull xs))))"

definition sql_count_if :: "('v::linordered_field) cell list \<Rightarrow> 'v cell" where
  "sql_count_if xs = sql_aggregate Sum (map (\<lambda>c. Some (if c = Some 1 then 1 else 0)) xs)"

definition sql_divide :: "zero_denominator \<Rightarrow> ('v::linordered_field) cell \<Rightarrow> 'v cell \<Rightarrow> unit + 'v cell" where
  "sql_divide z n d =
     (case d of
        None \<Rightarrow> Inr None
      | Some y \<Rightarrow>
          if y = 0 then (case z of ZeroNull \<Rightarrow> Inr None | ZeroFail \<Rightarrow> Inl ())
          else Inr (map_option (\<lambda>x. x / y) n))"

fun term_value :: "measure_term \<Rightarrow> ('v::linordered_field) sql_row list \<Rightarrow> 'v cell" where
  "term_value (TermAggregate a) rows =
     sql_aggregate (ac_aggregate a) (map (\<lambda>r. r (ac_model a, ac_column a)) rows)"
| "term_value (TermCountIf c m) rows = sql_count_if (map (\<lambda>r. r (m, c)) rows)"

fun measure_value :: "measure \<Rightarrow> ('v::linordered_field) sql_row list \<Rightarrow> unit + 'v cell" where
  "measure_value (Simple t) rows = Inr (term_value t rows)"
| "measure_value (Ratio n d z) rows = sql_divide z (term_value n rows) (term_value d rows)"

text \<open>What one group of a leg hands up: a column of one cell, or one cell per distinct key.\<close>

fun carried_leg :: "carried \<Rightarrow> ('v::linordered_field) sql_row list \<Rightarrow> 'v cell list" where
  "carried_leg (CarriedAggregated p c m) rows = [sql_aggregate (pushed_push p) (map (\<lambda>r. r (m, c)) rows)]"
| "carried_leg (CarriedCountIf c m) rows = [sql_count_if (map (\<lambda>r. r (m, c)) rows)]"
| "carried_leg (CarriedKeys p c m) rows = remdups (map (\<lambda>r. r (m, c)) rows)"

fun above_value :: "above \<Rightarrow> ('v::linordered_field) sql_row list list \<Rightarrow> unit + 'v cell" where
  "above_value (Total c) groups =
     Inr (sql_aggregate (carried_combine c) (concat (map (carried_leg c) groups)))"
| "above_value (Quotient n d z) groups =
     bind_res (above_value n groups) (\<lambda>x. bind_res (above_value d groups) (\<lambda>y. sql_divide z x y))"

section \<open>The classification keeps the meaning\<close>

lemma nonnull_append [simp]: "nonnull (xs @ ys) = nonnull xs @ nonnull ys"
  by (induction xs rule: nonnull.induct) simp_all

lemma set_nonnull: "set (nonnull xs) = {v. Some v \<in> set xs}"
  by (induction xs rule: nonnull.induct) auto

lemma set_nonnull_remdups [simp]: "set (nonnull (remdups xs)) = set (nonnull xs)"
  by (simp add: set_nonnull)

lemma nonnull_filter: "map Some (nonnull xs) = filter (\<lambda>c. c \<noteq> None) xs"
  by (induction xs rule: nonnull.induct) simp_all

lemma mset_nonnull: "mset xs = mset ys \<Longrightarrow> mset (nonnull xs) = mset (nonnull ys)"
proof -
  assume "mset xs = mset ys"
  then have "mset (map Some (nonnull xs)) = mset (map Some (nonnull ys))"
    by (simp only: nonnull_filter mset_filter)
  then have "image_mset the (mset (map Some (nonnull xs))) = image_mset the (mset (map Some (nonnull ys)))"
    by simp
  then show ?thesis by (simp flip: mset_map add: comp_def)
qed

text \<open>An aggregate does not see the order of the rows.\<close>

lemma sql_aggregate_mset:
  assumes "mset xs = mset ys"
  shows "sql_aggregate a xs = sql_aggregate a ys"
proof -
  have m: "mset (nonnull xs) = mset (nonnull ys)" by (rule mset_nonnull [OF assms])
  have "sum_list (nonnull xs) = sum_list (nonnull ys)"
    using m by (metis sum_mset_sum_list)
  moreover have "length (nonnull xs) = length (nonnull ys)" using m by (metis size_mset)
  moreover have "set (nonnull xs) = set (nonnull ys)" using m by (metis set_mset_mset)
  moreover have "nonnull xs = [] \<longleftrightarrow> nonnull ys = []" using m by (metis mset_zero_iff)
  ultimately show ?thesis by (cases a) simp_all
qed

text \<open>
  A sum and the two extremes are folds of one operation that ignores nulls, so aggregating
  the groups' values is aggregating the rows.
\<close>

fun null_skipping :: "('v \<Rightarrow> 'v \<Rightarrow> 'v) \<Rightarrow> 'v cell \<Rightarrow> 'v cell \<Rightarrow> 'v cell" where
  "null_skipping f None b = b"
| "null_skipping f a None = a"
| "null_skipping f (Some x) (Some y) = Some (f x y)"

fun fold_of :: "aggregate \<Rightarrow> ('v::linordered_field) \<Rightarrow> 'v \<Rightarrow> 'v" where
  "fold_of Min = min"
| "fold_of Max = max"
| "fold_of _ = (+)"

lemma aggregate_append:
  assumes "a \<in> {Sum, Min, Max}"
  shows "sql_aggregate a (xs @ ys) = null_skipping (fold_of a) (sql_aggregate a xs) (sql_aggregate a ys)"
  using assms
  by (cases a; cases "nonnull xs = []"; cases "nonnull ys = []") (simp_all add: Min_Un Max_Un)

lemma aggregate_single: "a \<in> {Sum, Min, Max} \<Longrightarrow> sql_aggregate a [c] = c"
  by (cases c) auto

lemma aggregate_of_aggregates:
  assumes "a \<in> {Sum, Min, Max}"
  shows "sql_aggregate a (map (sql_aggregate a) xss) = sql_aggregate a (concat xss)"
proof (induction xss)
  case (Cons xs xss)
  have "sql_aggregate a (sql_aggregate a xs # map (sql_aggregate a) xss)
      = null_skipping (fold_of a) (sql_aggregate a xs) (sql_aggregate a (map (sql_aggregate a) xss))"
    using aggregate_append [OF assms, of "[sql_aggregate a xs]" "map (sql_aggregate a) xss"]
      aggregate_single [OF assms, of "sql_aggregate a xs"]
    by (simp only: append_Cons append_Nil)
  also have "\<dots> = sql_aggregate a (xs @ concat xss)"
    by (simp only: Cons.IH aggregate_append [OF assms])
  finally show ?case by (simp only: list.map concat.simps)
qed (simp only: list.map concat.simps)

lemma sum_of_counts:
  assumes "xss \<noteq> []"
  shows "sql_aggregate Sum (map (sql_aggregate Count) xss) = sql_aggregate Count (concat xss)"
proof -
  have "sum_list (nonnull (map (sql_aggregate Count) xss)) = of_nat (length (nonnull (concat xss)))"
    by (induction xss) simp_all
  moreover have "nonnull (map (sql_aggregate Count) xss) \<noteq> []" using assms by (cases xss) simp_all
  ultimately show ?thesis by (simp del: sql_aggregate.simps(2) add: sql_aggregate.simps(2) [of "concat xss"])
qed

lemma distinct_of_keys:
  "sql_aggregate CountDistinct (concat (map remdups xss)) = sql_aggregate CountDistinct (concat xss)"
proof -
  have "set (nonnull (concat (map remdups xss))) = set (nonnull (concat xss))"
    by (auto simp: set_nonnull)
  then show ?thesis by simp
qed

lemma average_of_parts:
  "sql_divide ZeroNull (sql_aggregate Sum xs) (sql_aggregate Count xs) = Inr (sql_aggregate Avg xs)"
  by (auto simp: sql_divide_def)

lemma map_cells: "map (\<lambda>rows. f (map g rows)) groups = map f (map (map g) groups)"
  by simp

lemma concat_cells: "mset (concat groups) = mset rows \<Longrightarrow>
    mset (concat (map (map g) groups)) = mset (map g rows)"
  by (metis map_concat mset_map)

lemma concat_singletons: "concat (map (\<lambda>x. [f x]) xs) = map f xs"
  by (induction xs) simp_all

lemma carried_leg_fun:
  "carried_leg (CarriedAggregated p c m) = (\<lambda>rows. [sql_aggregate (pushed_push p) (map (\<lambda>r. r (m, c)) rows)])"
  "carried_leg (CarriedCountIf c m) = (\<lambda>rows. [sql_count_if (map (\<lambda>r. r (m, c)) rows)])"
  "carried_leg (CarriedKeys k c m) = (\<lambda>rows. remdups (map (\<lambda>r. r (m, c)) rows))"
  by (rule ext, simp)+

lemma total_pushed:
  assumes "mset (concat groups) = mset rows" and "groups \<noteq> []"
    and "descent_of a = AsWritten p \<or> descent_of a = Decomposed p d z \<and> a' = Sum
       \<or> descent_of a = Decomposed n p z \<and> a' = Count"
    and "descent_of a = AsWritten p \<Longrightarrow> a' = a"
  shows "above_value (Total (CarriedAggregated p c m)) groups
     = Inr (sql_aggregate a' (map (\<lambda>r. r (m, c)) rows))"
proof -
  let ?g = "\<lambda>r. r (m, c)"
  have p: "(pushed_push p = a' \<and> pushed_combine p = a' \<and> a' \<in> {Sum, Min, Max})
      \<or> (pushed_push p = Count \<and> pushed_combine p = Sum \<and> a' = Count)"
    using assms(3,4) by (cases a) auto
  have "above_value (Total (CarriedAggregated p c m)) groups
      = Inr (sql_aggregate (pushed_combine p) (map (sql_aggregate (pushed_push p)) (map (map ?g) groups)))"
    by (simp add: carried_leg_fun concat_singletons comp_def)
  also have "\<dots> = Inr (sql_aggregate a' (concat (map (map ?g) groups)))"
    using p aggregate_of_aggregates [of a' "map (map ?g) groups"]
      sum_of_counts [of "map (map ?g) groups"] assms(2) by auto
  also have "\<dots> = Inr (sql_aggregate a' (map ?g rows))"
    using sql_aggregate_mset [OF concat_cells [OF assms(1)]] by metis
  finally show ?thesis .
qed

lemma total_count_if:
  assumes "mset (concat groups) = mset rows"
  shows "above_value (Total (CarriedCountIf c m)) groups = Inr (sql_count_if (map (\<lambda>r. r (m, c)) rows))"
proof -
  let ?g = "\<lambda>r. Some (if r (m, c) = Some 1 then 1 else 0)"
  have "above_value (Total (CarriedCountIf c m)) groups
      = Inr (sql_aggregate Sum (map (sql_aggregate Sum) (map (map ?g) groups)))"
    by (simp only: above_value.simps carried_leg_fun carried_combine.simps concat_singletons
        sql_count_if_def map_map comp_def)
  also have "\<dots> = Inr (sql_aggregate Sum (concat (map (map ?g) groups)))"
    by (rule arg_cong [OF aggregate_of_aggregates]) simp
  also have "\<dots> = Inr (sql_aggregate Sum (map ?g rows))"
    using sql_aggregate_mset [OF concat_cells [OF assms]] by metis
  finally show ?thesis by (simp only: sql_count_if_def map_map comp_def)
qed

lemma total_keys:
  assumes "mset (concat groups) = mset rows"
  shows "above_value (Total (CarriedKeys (Pulled CountDistinct) c m)) groups
     = Inr (sql_aggregate CountDistinct (map (\<lambda>r. r (m, c)) rows))"
proof -
  let ?g = "\<lambda>r. r (m, c)"
  have "above_value (Total (CarriedKeys (Pulled CountDistinct) c m)) groups
      = Inr (sql_aggregate CountDistinct (concat (map remdups (map (map ?g) groups))))"
    by (simp only: above_value.simps carried_leg_fun carried_combine.simps pulled.sel map_map comp_def)
  also have "\<dots> = Inr (sql_aggregate CountDistinct (concat (map (map ?g) groups)))"
    by (simp only: distinct_of_keys)
  also have "\<dots> = Inr (sql_aggregate CountDistinct (map ?g rows))"
    using sql_aggregate_mset [OF concat_cells [OF assms]] by metis
  finally show ?thesis .
qed

lemma descend_value:
  assumes "mset (concat groups) = mset rows" and "groups \<noteq> []"
  shows "above_value (descend t) groups = Inr (term_value t rows)"
proof (cases t)
  case (TermCountIf c m)
  then show ?thesis using total_count_if [OF assms(1)] by (simp add: descend_def)
next
  case (TermAggregate x)
  note total = total_pushed [OF assms, of "ac_aggregate x"]
  show ?thesis
  proof (cases "ac_aggregate x")
    case CountDistinct
    then show ?thesis using TermAggregate total_keys [OF assms(1)] by (simp add: descend_def)
  next
    case Avg
    then show ?thesis
      using TermAggregate total [of _ _ _ Sum] total [of _ _ _ Count]
      by (simp add: descend_def average_of_parts del: above_value.simps(1) sql_aggregate.simps)
  qed (use TermAggregate total [of _ undefined undefined "ac_aggregate x"] in
      \<open>simp add: descend_def del: above_value.simps(1) sql_aggregate.simps\<close>)+
qed

lemma federation_value:
  assumes "mset (concat groups) = mset rows" and "groups \<noteq> []"
  shows "above_value (fed_above (federation_of m)) groups = measure_value m rows"
  by (cases m) (simp_all add: federation_of_def descend_value [OF assms])

lemma carried_leg_erase:
  assumes "\<forall>r \<in> set rows. \<forall>c. r (Some own, c) = r (None, c)"
  shows "carried_leg (erase_carried own k) rows = carried_leg k rows"
proof -
  have "map (\<lambda>r. r (if m = Some own then None else m, c)) rows = map (\<lambda>r. r (m, c)) rows" for m c
    using assms by auto
  then show ?thesis by (cases k) (simp_all only: erase_carried.simps carried_leg.simps)
qed

lemma combine_erase [simp]: "carried_combine (erase_carried own k) = carried_combine k"
  by (cases k) simp_all

lemma above_value_erase:
  assumes "\<forall>rows \<in> set groups. \<forall>r \<in> set rows. \<forall>c. r (Some own, c) = r (None, c)"
  shows "above_value (erase_own own a) groups = above_value a groups"
proof (induction a)
  case (Total k)
  have "map (carried_leg (erase_carried own k)) groups = map (carried_leg k) groups"
    using assms by (simp add: carried_leg_erase)
  then show ?case by (simp only: erase_own.simps above_value.simps combine_erase)
qed simp

lemma leaves_append: "leaves a out = out @ leaves a []"
  by (induction a arbitrary: out) (simp, metis append.assoc leaves.simps(2))

lemma leaves_quotient [simp]: "leaves (Quotient n d z) [] = leaves n [] @ leaves d []"
  using leaves_append [of d "leaves n []"] by simp

lemma leaves_descend:
  "\<forall>k \<in> set (leaves (descend t) []). carried_column k = term_column t \<and> carried_model k = term_model t"
  "1 \<le> length (leaves (descend t) [])" "length (leaves (descend t) []) \<le> 2"
  "(\<exists>k \<in> set (leaves (descend t) []). is_pulled_up k)
     \<longleftrightarrow> (\<exists>a. t = TermAggregate a \<and> ac_aggregate a = CountDistinct)"
  by (cases t; simp add: descend_def split: descent.splits;
      cases "ac_aggregate (case t of TermAggregate a \<Rightarrow> a)"; simp)+

section \<open>Properties\<close>

text \<open>C1: federating a measure does not change its value. However the rows of a group are
  cut into leg groups, and whatever order the legs return them in, aggregating in each leg what
  \<open>federation_of\<close> pushes down and combining above is the measure over all the rows: the
  average is not an average of averages, a distinct count does not count a shared key twice and a
  ratio divides once. Erasing the metric's own model changes nothing, because a column of the own
  model is the column without one.\<close>
theorem federation_exact:
  fixes rows :: "('v::linordered_field) sql_row list"
  assumes "mset (concat groups) = mset rows" and "groups \<noteq> []"
    and "\<forall>r \<in> set rows. \<forall>c. r (Some own, c) = r (None, c)"
  shows "above_value (fed_above (federation_of m)) groups = measure_value m rows
    \<and> above_value (fed_above (federation_of_metric m own)) groups = measure_value m rows"
proof -
  have "set (concat groups) = set rows" using assms(1) by (metis set_mset_mset)
  then have "\<forall>rows \<in> set groups. \<forall>r \<in> set rows. \<forall>c. r (Some own, c) = r (None, c)"
    using assms(3) by auto
  from above_value_erase [OF this] federation_value [OF assms(1,2)] show ?thesis
    by (simp add: federation_of_metric_def Let_def)
qed

theorem federation_exact_witness:
  "measure_value (Simple (TermAggregate \<lparr>ac_aggregate = Avg, ac_column = ''x'', ac_model = None\<rparr>))
     [\<lambda>_. Some (1::rat), \<lambda>_. Some 2, \<lambda>_. Some 6] = Inr (Some 3)
   \<and> above_value (fed_above (federation_of
       (Simple (TermAggregate \<lparr>ac_aggregate = Avg, ac_column = ''x'', ac_model = None\<rparr>))))
       [[\<lambda>_. Some 6], [\<lambda>_. Some (1::rat), \<lambda>_. Some 2]] = Inr (Some 3)"
proof -
  let ?m = "Simple (TermAggregate \<lparr>ac_aggregate = Avg, ac_column = ''x'', ac_model = None\<rparr>)"
  let ?rows = "[\<lambda>_. Some (1::rat), \<lambda>_. Some 2, \<lambda>_. Some 6] :: rat sql_row list"
  let ?groups = "[[\<lambda>_. Some 6], [\<lambda>_. Some (1::rat), \<lambda>_. Some 2]] :: rat sql_row list list"
  have v: "measure_value ?m ?rows = Inr (Some 3)" by simp
  have "mset (concat ?groups) = mset ?rows" "?groups \<noteq> []"
    "\<forall>r \<in> set ?rows. \<forall>c. r (Some ''own'', c) = r (None, c)" by simp_all
  from federation_exact [OF this, of ?m] v show ?thesis by (simp only:)
qed

text \<open>C28: what a leg is asked to carry: between one and four columns, each the column and the
  model of a term of the measure, and a leg is asked for rows at the grain of the column exactly
  when a term counts distinct values. A leg never divides: the type has no such value.\<close>
theorem federation_carries_terms:
  "1 \<le> length (fed_carried (federation_of m)) \<and> length (fed_carried (federation_of m)) \<le> 4
   \<and> (\<forall>k \<in> set (fed_carried (federation_of m)).
        (carried_column k, carried_model k) \<in> set (zip (measure_columns m) (measure_models m)))
   \<and> (pulls_up_rows (federation_of m) \<longleftrightarrow>
        (\<exists>a. TermAggregate a \<in> set (measure_terms m) \<and> ac_aggregate a = CountDistinct))"
proof (cases m)
  case (Simple t)
  then show ?thesis using leaves_descend [of t]
    by (auto simp: fed_carried_def federation_of_def measure_columns_def measure_models_def
        pulls_up_rows_def list_ex_iff)
next
  case (Ratio n d z)
  have carried: "fed_carried (federation_of m) = leaves (descend n) [] @ leaves (descend d) []"
    using leaves_append [of "descend d" "leaves (descend n) []"]
    by (simp add: fed_carried_def federation_of_def Ratio)
  have "zip (measure_columns m) (measure_models m)
      = [(term_column n, term_model n), (term_column d, term_model d)]"
    by (simp add: measure_columns_def measure_models_def Ratio)
  then have "\<forall>k \<in> set (fed_carried (federation_of m)).
      (carried_column k, carried_model k) \<in> set (zip (measure_columns m) (measure_models m))"
    using leaves_descend(1) [of n] leaves_descend(1) [of d] carried by fastforce
  moreover have "pulls_up_rows (federation_of m) \<longleftrightarrow>
      (\<exists>a. TermAggregate a \<in> set (measure_terms m) \<and> ac_aggregate a = CountDistinct)"
    using leaves_descend(4) [of n] leaves_descend(4) [of d] carried
    by (simp add: pulls_up_rows_def list_ex_iff Ratio bex_Un) metis
  ultimately show ?thesis
    using leaves_descend(2,3) [of n] leaves_descend(2,3) [of d] carried by simp
qed

theorem federation_carries_terms_witness:
  "length (fed_carried (federation_of (Ratio
     (TermAggregate \<lparr>ac_aggregate = Avg, ac_column = ''x'', ac_model = None\<rparr>) (TermCountIf ''y'' None)
     ZeroFail))) \<le> 4"
  using federation_carries_terms [of "Ratio
     (TermAggregate \<lparr>ac_aggregate = Avg, ac_column = ''x'', ac_model = None\<rparr>) (TermCountIf ''y'' None)
     ZeroFail"] by (simp only:)

end
