(* ===== verification/Catalog.thy ===== *)
theory Catalog
  imports Measure Calendar
begin

text \<open>
  \<open>sutura-domain/src/catalog.rs\<close>, \<open>catalog/metric.rs\<close>, \<open>catalog/audience.rs\<close>,
  \<open>plan/federated/link.rs\<close> and the computation of \<open>expression.rs\<close>: what a catalog
  declares. A model is a table with its columns, a relationship an edge between two models with at
  least one join key, a dimension a column at the end of a chain of relationships, a metric what is
  measured over one model. Each record is built by the constructor the code has, with its checks.
\<close>

section \<open>Audiences\<close>

datatype audience = Open | Restricted "name list"

datatype invalid_audience_grant = GrantEmpty

definition audience_grant_parse :: "name list \<Rightarrow> invalid_audience_grant + name list" where
  "audience_grant_parse ids = (if ids = [] then Inl GrantEmpty else Inr ids)"

definition intersects :: "name list \<Rightarrow> name list \<Rightarrow> bool" where
  "intersects grant granted \<longleftrightarrow> (\<exists>i \<in> set grant. i \<in> set granted)"

fun visible_to :: "audience \<Rightarrow> name list \<Rightarrow> bool" where
  "visible_to Open granted = True"
| "visible_to (Restricted grant) granted = intersects grant granted"

section \<open>Columns and models\<close>

record column =
  col_name :: name
  col_data_type :: "column_type option"
  col_description :: description
  col_nullable :: "bool option"

datatype column_refusal = ColumnRefusal name invalid_description

definition column_from_metadata ::
  "name \<Rightarrow> ustr option \<Rightarrow> ustr option \<Rightarrow> bool option \<Rightarrow> column_refusal + column" where
  "column_from_metadata n data_type desc nullable =
     (let parsed_type = (case data_type of None \<Rightarrow> None
          | Some raw \<Rightarrow> (case column_type_parse raw of Inl _ \<Rightarrow> None | Inr t \<Rightarrow> Some t)) in
      case desc of
        None \<Rightarrow> Inr \<lparr>col_name = n, col_data_type = parsed_type, col_description = [], col_nullable = nullable\<rparr>
      | Some raw \<Rightarrow>
          (case description_parse raw of
             Inl cause \<Rightarrow> Inl (ColumnRefusal n cause)
           | Inr d \<Rightarrow> Inr \<lparr>col_name = n, col_data_type = parsed_type, col_description = d, col_nullable = nullable\<rparr>))"

definition column_of_name :: "name \<Rightarrow> column" where
  "column_of_name n = \<lparr>col_name = n, col_data_type = None, col_description = [], col_nullable = None\<rparr>"

record model =
  model_name :: name
  model_source :: name
  model_table :: qualified_table
  model_columns :: "(name, column) btree"
  model_primary_key :: "name list"
  model_description :: description
  model_audience :: "audience option"

definition model_new :: "name \<Rightarrow> name \<Rightarrow> qualified_table \<Rightarrow> column list \<Rightarrow> description \<Rightarrow> model" where
  "model_new n source table columns desc =
     \<lparr>model_name = n, model_source = source, model_table = table,
      model_columns = fold (\<lambda>c m. bt_insert (col_name c) c m) columns [],
      model_primary_key = [], model_description = desc, model_audience = None\<rparr>"

definition with_audience :: "audience \<Rightarrow> model \<Rightarrow> model" where
  "with_audience a m = m\<lparr>model_audience := Some a\<rparr>"

definition has_column :: "model \<Rightarrow> name \<Rightarrow> bool" where
  "has_column m c \<longleftrightarrow> bt_get (model_columns m) c \<noteq> None"

definition model_column :: "model \<Rightarrow> name \<Rightarrow> column option" where
  "model_column m c = bt_get (model_columns m) c"

definition model_table_name :: "model \<Rightarrow> name" where
  "model_table_name m = qt_table (model_table m)"

section \<open>Link kinds\<close>

datatype link_kind = ExactInteger | ExactDecimal | LinkText | LinkDate | LinkBoolean

fun reaches :: "link_kind \<Rightarrow> link_kind \<Rightarrow> bool" where
  "reaches ExactInteger b \<longleftrightarrow> b = ExactInteger \<or> b = LinkText"
| "reaches ExactDecimal b \<longleftrightarrow> b = ExactDecimal \<or> b = ExactInteger"
| "reaches LinkText b \<longleftrightarrow> b = LinkText"
| "reaches LinkDate b \<longleftrightarrow> b = LinkDate"
| "reaches LinkBoolean b \<longleftrightarrow> b = LinkBoolean"

definition joins :: "link_kind option \<Rightarrow> link_kind \<Rightarrow> link_kind \<Rightarrow> bool" where
  "joins declared a b =
     (case declared of None \<Rightarrow> a = b
      | Some d \<Rightarrow> reaches d a \<and> reaches d b \<and> (a = d \<or> b = d))"

definition of_scale :: "ustr \<Rightarrow> link_kind option" where
  "of_scale parameters =
     (case split_once 44 parameters of
        None \<Rightarrow> None
      | Some (_, scale) \<Rightarrow>
          (case parse_unsigned 4294967295 (trim scale) of
             Inl _ \<Rightarrow> None
           | Inr n \<Rightarrow> Some (if n = 0 then ExactInteger else ExactDecimal)))"

definition kind_of_type :: "ustr \<Rightarrow> ustr option \<Rightarrow> link_kind option" where
  "kind_of_type n parameters =
     (if n \<in> set (map codes [''smallint'', ''int'', ''integer'', ''bigint'', ''int2'', ''int4'',
          ''int8'', ''int16'', ''int32'', ''int64'', ''uint8'', ''uint16'', ''uint32'', ''uint64''])
        then Some ExactInteger
      else if n \<in> set (map codes [''numeric'', ''decimal''])
        then (case parameters of None \<Rightarrow> None | Some p \<Rightarrow> of_scale p)
      else if n \<in> set (map codes [''string'', ''text'', ''varchar'', ''varchar2'', ''nvarchar'',
          ''nvarchar2'', ''char'', ''nchar'', ''character'', ''character varying''])
        then Some LinkText
      else if n = codes ''date'' then Some LinkDate
      else if n \<in> set (map codes [''boolean'', ''bool'']) then Some LinkBoolean
      else None)"

definition link_declared :: "column_type \<Rightarrow> link_kind option" where
  "link_declared t =
     (let lowered = map to_ascii_lower t in
      case split_once 40 lowered of
        None \<Rightarrow> kind_of_type lowered None
      | Some (n, rest) \<Rightarrow>
          (case strip_suffix 41 rest of
             None \<Rightarrow> None
           | Some parameters \<Rightarrow> kind_of_type (trim_end n) (Some parameters)))"

section \<open>Relationships\<close>

datatype join_key =
    KeyEqual (key_origin: name) (key_target: name)
  | KeyTruncatedEqual (key_origin: name) (truncation: grain) (key_target: name)

fun key_grain :: "join_key \<Rightarrow> grain option" where
  "key_grain (KeyEqual _ _) = None"
| "key_grain (KeyTruncatedEqual _ g _) = Some g"

definition link_of_origin :: "join_key \<Rightarrow> column_type \<Rightarrow> link_kind option" where
  "link_of_origin k t = (if key_grain k \<noteq> None then Some LinkDate else link_declared t)"

type_synonym join_keys = "join_key nonempty"

datatype invalid_join_keys = JoinKeysEmpty

definition join_keys_of :: "join_key list \<Rightarrow> invalid_join_keys + join_keys" where
  "join_keys_of ks = ok_or JoinKeysEmpty (ne_parse ks)"

record relationship =
  rel_name :: name
  rel_origin :: name
  rel_target :: name
  rel_join_type :: join_type
  rel_keys :: join_keys
  rel_comparison :: "link_kind option"

definition relationship_new :: "name \<Rightarrow> name \<Rightarrow> name \<Rightarrow> join_type \<Rightarrow> join_keys \<Rightarrow> relationship" where
  "relationship_new n origin target jt keys =
     \<lparr>rel_name = n, rel_origin = origin, rel_target = target, rel_join_type = jt, rel_keys = keys,
      rel_comparison = None\<rparr>"

datatype invalid_comparison = CompoundKey nat

definition with_comparison :: "link_kind \<Rightarrow> relationship \<Rightarrow> invalid_comparison + relationship" where
  "with_comparison c r =
     (let n = ne_len (rel_keys r) in
      if n = 1 then Inr (r\<lparr>rel_comparison := Some c\<rparr>) else Inl (CompoundKey n))"

section \<open>Dimensions\<close>

datatype invalid_via_chain = ViaChainEmpty

definition via_chain_of :: "name list \<Rightarrow> invalid_via_chain + name list" where
  "via_chain_of hops = (if hops = [] then Inl ViaChainEmpty else Inr hops)"

record dimension =
  dim_name :: name
  dim_column :: name
  dim_via :: "name list option"
  dim_allowed_values :: "dimension_value list option"
  dim_description :: description

definition is_filterable :: "dimension \<Rightarrow> bool" where
  "is_filterable d \<longleftrightarrow> dim_allowed_values d \<noteq> None"

definition permits :: "dimension \<Rightarrow> dimension_value \<Rightarrow> bool" where
  "permits d v = (case dim_allowed_values d of None \<Rightarrow> False | Some vs \<Rightarrow> v \<in> set vs)"

section \<open>Metrics\<close>

record anchor =
  anchor_range :: time_range
  anchor_value :: anchor_value

text \<open>
  The authored-SQL computation of a metric is text for one dialect or several; nothing in the
  modelled code looks inside it.
\<close>

datatype computation =
    ComputationMeasure measure
  | ComputationAuthoredSql "(string \<times> ustr) list"

datatype invalid_computation = ComputationNothing | ComputationBoth

fun computation_assemble ::
  "measure option \<Rightarrow> (string \<times> ustr) list option \<Rightarrow> invalid_computation + computation" where
  "computation_assemble (Some m) None = Inr (ComputationMeasure m)"
| "computation_assemble None (Some a) = Inr (ComputationAuthoredSql a)"
| "computation_assemble None None = Inl ComputationNothing"
| "computation_assemble (Some _) (Some _) = Inl ComputationBoth"

fun computation_measure :: "computation \<Rightarrow> measure option" where
  "computation_measure (ComputationMeasure m) = Some m"
| "computation_measure (ComputationAuthoredSql _) = None"

record metric =
  met_name :: name
  met_model :: name
  met_computation :: computation
  met_required_filters :: "required_filter list"
  met_time_column :: name
  met_grains :: "grain list"
  met_dimensions :: "(name, dimension) btree"
  met_anchor :: "anchor option"
  met_description :: description
  met_audience :: audience
  met_shared_calendars :: "name list option"

definition met_measure :: "metric \<Rightarrow> measure option" where
  "met_measure m = computation_measure (met_computation m)"

definition supports_grain :: "metric \<Rightarrow> grain \<Rightarrow> bool" where
  "supports_grain m g \<longleftrightarrow> g \<in> set (met_grains m)"

definition met_dimension :: "metric \<Rightarrow> name \<Rightarrow> dimension option" where
  "met_dimension m n = bt_get (met_dimensions m) n"

definition with_shared_calendars :: "name list \<Rightarrow> metric \<Rightarrow> metric" where
  "with_shared_calendars cs m = m\<lparr>met_shared_calendars := Some cs\<rparr>"

text \<open>Two names are one label when they are equal up to ASCII case.\<close>

definition one_label :: "name \<Rightarrow> name \<Rightarrow> bool" where
  "one_label a b \<longleftrightarrow> names_one_thing COARSEST (codes a) (codes b)"

datatype inconsistent_definitions =
    DuplicateModel name
  | DuplicateMetric name
  | DuplicateRelationship name
  | UnknownPrimaryKeyColumn name name
  | DuplicateDimension name name
  | UnknownModel name name
  | UnknownTermModel name name
  | UnknownMeasureColumn name name name
  | UnknownRequiredFilterColumn name name name
  | UnknownTimeColumn name name name
  | NoGrains name
  | UnknownRelationship name name name
  | RelationshipFromUnknownModel name name
  | RelationshipToUnknownModel name name
  | RelationshipUnknownColumn name name name
  | RelationshipComparisonContradicted name link_kind
  | UnknownDimensionColumn name name name name
  | RelationshipNotFromMetricModel name name name name
  | JoinWouldDuplicateRows name name name nat
  | ChainDoesNotJoinUp name name name name
  | EmptyAllowlist name name
  | TooManyValues name name nat nat
  | DimensionShadowsTimeBucket name name
  | DimensionShadowsMeasure name name
  | TwoDimensionsOneLabel name name name
  | LabelShadowsTable name name name
  | DefinitionsTooLarge nat nat
  | SharedCalendarNotReachable name name name
  | SharedCalendarsShareASource name name name name
  | NoSharedCalendarOnSource name name name
  | SharedCalendarsDisagreeOnTimeType name name name name
  | CrossModelTermHasNoEmptyValue name aggregate
  | CrossModelTermDoesNotReaggregate name aggregate
  | AnchorOnCrossModelRatio name

definition with_primary_key :: "name list \<Rightarrow> model \<Rightarrow> inconsistent_definitions + model" where
  "with_primary_key pk m =
     (let pk = bs_of pk in
      bind_res (each_ok (\<lambda>c. ensure (has_column m c) (UnknownPrimaryKeyColumn (model_name m) c)) pk)
        (\<lambda>_. Inr (m\<lparr>model_primary_key := pk\<rparr>)))"

fun declare_dimensions ::
  "name \<Rightarrow> (name, dimension) btree \<Rightarrow> dimension list \<Rightarrow> inconsistent_definitions + (name, dimension) btree" where
  "declare_dimensions metric declared [] = Inr declared"
| "declare_dimensions metric declared (d # ds) =
     (case List.find (\<lambda>earlier. one_label earlier (dim_name d)) (bt_keys declared) of
        Some first \<Rightarrow>
          Inl (if first = dim_name d then DuplicateDimension metric (dim_name d)
               else TwoDimensionsOneLabel metric first (dim_name d))
      | None \<Rightarrow> declare_dimensions metric (bt_insert (dim_name d) d declared) ds)"

definition metric_new ::
  "name \<Rightarrow> name \<Rightarrow> computation \<Rightarrow> required_filter list \<Rightarrow> name \<Rightarrow> grain list \<Rightarrow> dimension list
     \<Rightarrow> anchor option \<Rightarrow> description \<Rightarrow> audience \<Rightarrow> inconsistent_definitions + metric" where
  "metric_new n m c filters time grains dims anc desc aud =
     bind_res (declare_dimensions n [] dims) (\<lambda>declared.
       Inr \<lparr>met_name = n, met_model = m, met_computation = c, met_required_filters = filters,
         met_time_column = time, met_grains = grains, met_dimensions = declared, met_anchor = anc,
         met_description = desc, met_audience = aud, met_shared_calendars = None\<rparr>)"

section \<open>What the constructors establish\<close>

lemma one_label_refl [simp]: "one_label a a"
  by (simp add: one_label_def names_one_thing_def COARSEST_def eq_ignore_ascii_case_def)

lemma one_label_sym: "one_label a b \<Longrightarrow> one_label b a"
  by (simp add: one_label_def names_one_thing_def COARSEST_def eq_ignore_ascii_case_def)

text \<open>The dimensions of a metric: under their own names, and no two with one label.\<close>

definition dimensions_inv :: "(name, dimension) btree \<Rightarrow> bool" where
  "dimensions_inv ds \<longleftrightarrow> bt_inv ds \<and> (\<forall>(k, d) \<in> set ds. dim_name d = k)
     \<and> (\<forall>(k, d) \<in> set ds. \<forall>(k', d') \<in> set ds. one_label k k' \<longrightarrow> k = k')"

definition metric_inv :: "metric \<Rightarrow> bool" where
  "metric_inv m \<longleftrightarrow> dimensions_inv (met_dimensions m)"

definition model_inv :: "model \<Rightarrow> bool" where
  "model_inv m \<longleftrightarrow> bt_inv (model_columns m) \<and> (\<forall>(k, c) \<in> set (model_columns m). col_name c = k)
     \<and> (\<forall>c \<in> set (model_primary_key m). has_column m c)"

lemma in_set_bt_insert:
  "bt_inv m \<Longrightarrow> (a, b) \<in> set (bt_insert k v m) \<longleftrightarrow> (a = k \<and> b = v) \<or> (a \<noteq> k \<and> (a, b) \<in> set m)"
  by (simp flip: bt_get_eq_Some add: bt_inv_insert) auto

lemma dimensions_inv_Nil: "dimensions_inv []"
  by (simp add: dimensions_inv_def)

lemma declare_dimensions_inv:
  "declare_dimensions n declared ds = Inr out \<Longrightarrow> dimensions_inv declared \<Longrightarrow> dimensions_inv out"
proof (induction ds arbitrary: declared)
  case (Cons d ds)
  then have none: "\<forall>k \<in> fst ` set declared. \<not> one_label k (dim_name d)"
    and step: "declare_dimensions n (bt_insert (dim_name d) d declared) ds = Inr out"
    by (auto simp: find_None_all split: option.splits)
  have "dimensions_inv (bt_insert (dim_name d) d declared)"
    using Cons.prems(2) none one_label_sym
    by (auto simp: dimensions_inv_def in_set_bt_insert bt_inv_insert) fastforce+
  with Cons.IH [OF step] show ?case by blast
qed simp

lemma metric_new_inv: "metric_new n m c f t g ds a e u = Inr out \<Longrightarrow> metric_inv out"
  using declare_dimensions_inv [of n "[]" ds]
  by (auto simp: metric_new_def res_simps metric_inv_def dimensions_inv_Nil)

lemma model_new_inv: "model_inv (model_new n s t cs e)"
proof -
  have "bt_inv (fold (\<lambda>c m. bt_insert (col_name c) c m) cs acc)
      \<and> (\<forall>(k, c) \<in> set (fold (\<lambda>c m. bt_insert (col_name c) c m) cs acc). col_name c = k)"
    if "bt_inv acc" "\<forall>(k, c) \<in> set acc. col_name c = k" for acc
    using that
  proof (induction cs arbitrary: acc)
    case (Cons c cs)
    show ?case unfolding fold.simps comp_apply
      by (rule Cons.IH) (use Cons.prems in \<open>auto simp: bt_inv_insert in_set_bt_insert\<close>)
  qed simp
  from this [of "[]"] show ?thesis by (simp add: model_inv_def model_new_def)
qed

lemma with_primary_key_inv: "with_primary_key pk m = Inr m' \<Longrightarrow> model_inv m \<Longrightarrow> model_inv m'"
  by (auto simp: with_primary_key_def Let_def res_simps model_inv_def has_column_def)

lemma met_dimension_name: "metric_inv m \<Longrightarrow> met_dimension m n = Some d \<Longrightarrow> dim_name d = n"
  by (auto simp: metric_inv_def dimensions_inv_def met_dimension_def dest!: map_of_SomeD)

end
