(* ===== verification/Consistency.thy ===== *)
theory Consistency
  imports Catalog
begin

text \<open>
  \<open>sutura-domain/src/catalog/consistency.rs\<close> and \<open>catalog/calendar.rs\<close>: how a list
  of models, relationships and metrics becomes \<open>Definitions\<close>, or is refused with the first
  inconsistency found. The three load loops are interpretations of \<open>unique_loader\<close>; the
  lemmas say what an assembled catalog promises the resolver and the planner, in terms of where a
  chain of relationships ends instead of the checks that were made.
\<close>

section \<open>Shared calendars\<close>

datatype invalid_shared_calendars = CalendarsEmpty | CalendarRepeated name

fun shared_calendars_collect :: "name list \<Rightarrow> name list \<Rightarrow> invalid_shared_calendars + name list" where
  "shared_calendars_collect calendars [] = Inr calendars"
| "shared_calendars_collect calendars (m # ms) =
     (if m \<in> set calendars then Inl (CalendarRepeated m)
      else shared_calendars_collect (bs_insert m calendars) ms)"

definition shared_calendars_parse :: "name list \<Rightarrow> invalid_shared_calendars + name list" where
  "shared_calendars_parse ms =
     bind_res (shared_calendars_collect [] ms) (\<lambda>calendars.
       if calendars = [] then Inl CalendarsEmpty else Inr calendars)"

type_synonym models = "(name, model) btree"
type_synonym relationships = "(name, relationship) btree"
type_synonym metrics = "(name, metric) btree"

fun calendars_on_source ::
  "models \<Rightarrow> metric \<Rightarrow> models \<Rightarrow> name list \<Rightarrow> inconsistent_definitions + models" where
  "calendars_on_source ms metric on_source [] = Inr on_source"
| "calendars_on_source ms metric on_source (n # ns) =
     (case bt_get ms n of
        None \<Rightarrow> Inl (SharedCalendarNotReachable (met_name metric) n n)
      | Some calendar \<Rightarrow>
          (case bt_get on_source (model_source calendar) of
             Some first \<Rightarrow>
               Inl (SharedCalendarsShareASource (met_name metric) (model_source calendar)
                 (model_name first) (model_name calendar))
           | None \<Rightarrow> calendars_on_source ms metric (bt_insert (model_source calendar) calendar on_source) ns))"

definition fact_models :: "metric \<Rightarrow> name list" where
  "fact_models metric =
     bs_of (met_model metric #
       (case met_measure metric of None \<Rightarrow> [] | Some m \<Rightarrow> [n. Some n \<leftarrow> measure_models m]))"

definition check_fact_calendar ::
  "relationships \<Rightarrow> metric \<Rightarrow> models \<Rightarrow> model \<Rightarrow> inconsistent_definitions + unit" where
  "check_fact_calendar rels metric on_source reader =
     (case bt_get on_source (model_source reader) of
        None \<Rightarrow> Inl (NoSharedCalendarOnSource (met_name metric) (model_name reader) (model_source reader))
      | Some calendar \<Rightarrow>
          ensure (\<exists>rel \<in> set (bt_values rels). rel_origin rel = model_name reader \<and> rel_target rel = model_name calendar)
            (SharedCalendarNotReachable (met_name metric) (model_name calendar) (model_name reader)))"

fun check_time_kinds ::
  "metric \<Rightarrow> (model \<times> link_kind) option \<Rightarrow> model list \<Rightarrow> inconsistent_definitions + unit" where
  "check_time_kinds metric typed [] = Inr ()"
| "check_time_kinds metric typed (calendar # cs) =
     (case model_column calendar (met_time_column metric) of
        None \<Rightarrow> Inl (UnknownTimeColumn (met_name metric) (model_name calendar) (met_time_column metric))
      | Some column \<Rightarrow>
          (case (typed, Option.bind (col_data_type column) link_declared) of
             (Some (first, seen), Some declared) \<Rightarrow>
               if seen \<noteq> declared
               then Inl (SharedCalendarsDisagreeOnTimeType (met_name metric) (met_time_column metric)
                      (model_name first) (model_name calendar))
               else check_time_kinds metric typed cs
           | (None, Some declared) \<Rightarrow> check_time_kinds metric (Some (calendar, declared)) cs
           | _ \<Rightarrow> check_time_kinds metric typed cs))"

definition check_calendars ::
  "models \<Rightarrow> relationships \<Rightarrow> metric \<Rightarrow> name list \<Rightarrow> inconsistent_definitions + unit" where
  "check_calendars ms rels metric calendars =
     bind_res (calendars_on_source ms metric [] calendars) (\<lambda>on_source.
     bind_res (each_ok (check_fact_calendar rels metric on_source)
         (List.map_filter (bt_get ms) (fact_models metric))) (\<lambda>_.
       check_time_kinds metric None (bt_values on_source)))"

section \<open>The checks\<close>

definition comparison_contradicted :: "link_kind \<Rightarrow> relationship \<Rightarrow> model \<Rightarrow> model \<Rightarrow> bool" where
  "comparison_contradicted declared r from to =
     (let k = ne_head (rel_keys r);
          origin = Option.bind (Option.bind (model_column from (key_origin k)) col_data_type) (link_of_origin k);
          target = Option.bind (Option.bind (model_column to (key_target k)) col_data_type) link_declared in
      case (origin, target) of
        (Some o1, Some t1) \<Rightarrow> \<not> joins (Some declared) o1 t1
      | (Some known, None) \<Rightarrow> \<not> reaches declared known
      | (None, Some known) \<Rightarrow> \<not> reaches declared known
      | (None, None) \<Rightarrow> False)"

definition check_relationship :: "models \<Rightarrow> relationship \<Rightarrow> inconsistent_definitions + unit" where
  "check_relationship ms r =
     bind_res (ok_or (RelationshipFromUnknownModel (rel_name r) (rel_origin r)) (bt_get ms (rel_origin r))) (\<lambda>from.
     bind_res (ok_or (RelationshipToUnknownModel (rel_name r) (rel_target r)) (bt_get ms (rel_target r))) (\<lambda>to.
     bind_res (each_ok (\<lambda>k. each_ok (\<lambda>(m, c).
           ensure (has_column m c) (RelationshipUnknownColumn (rel_name r) (model_name m) c))
         [(from, key_origin k), (to, key_target k)]) (ne_iter (rel_keys r))) (\<lambda>_.
       case rel_comparison r of
         None \<Rightarrow> Inr ()
       | Some declared \<Rightarrow>
           ensure (\<not> comparison_contradicted declared r from to)
             (RelationshipComparisonContradicted (rel_name r) declared))))"

definition TIME_BUCKET_LABEL :: name where
  "TIME_BUCKET_LABEL = ''period''"

definition MAX_VALUES_PER_DIMENSION :: nat where
  "MAX_VALUES_PER_DIMENSION = 64"

definition MAX_DEFINITIONS_BYTES :: nat where
  "MAX_DEFINITIONS_BYTES = 131072"

definition check_labels_against_table :: "metric \<Rightarrow> name \<Rightarrow> inconsistent_definitions + unit" where
  "check_labels_against_table metric table =
     each_ok (\<lambda>label. ensure (\<not> one_label label table) (LabelShadowsTable (met_name metric) label table))
       (met_name metric # TIME_BUCKET_LABEL # map dim_name (bt_values (met_dimensions metric)))"

text \<open>
  The walk along a chain. \<open>previous\<close> is the hop before, none at the first hop, and the
  result is the model the chain ends at.
\<close>

fun walk_chain ::
  "models \<Rightarrow> relationships \<Rightarrow> metric \<Rightarrow> dimension \<Rightarrow> nat \<Rightarrow> name option \<Rightarrow> model \<Rightarrow> name list
     \<Rightarrow> inconsistent_definitions + model" where
  "walk_chain ms rels metric d hop previous owning [] = Inr owning"
| "walk_chain ms rels metric d hop previous owning (n # ns) =
     bind_res (ok_or (UnknownRelationship (met_name metric) (dim_name d) n) (bt_get rels n)) (\<lambda>r.
     if rel_origin r \<noteq> model_name owning then
       (if hop = 0 then Inl (RelationshipNotFromMetricModel (met_name metric) (dim_name d) n (met_model metric))
        else Inl (ChainDoesNotJoinUp (met_name metric) (dim_name d)
               (case previous of Some p \<Rightarrow> p | None \<Rightarrow> n) n))
     else if may_duplicate_rows (rel_join_type r) then
       Inl (JoinWouldDuplicateRows (met_name metric) (dim_name d) n (sat_add_usize hop 1))
     else
       bind_res (ok_or (RelationshipToUnknownModel n (rel_target r)) (bt_get ms (rel_target r))) (\<lambda>target.
         walk_chain ms rels metric d (hop + 1) (Some n) target ns))"

definition check_dimension ::
  "models \<Rightarrow> relationships \<Rightarrow> metric \<Rightarrow> model \<Rightarrow> dimension \<Rightarrow> inconsistent_definitions + unit" where
  "check_dimension ms rels metric m d =
     (if one_label (dim_name d) TIME_BUCKET_LABEL
        then Inl (DimensionShadowsTimeBucket (met_name metric) (dim_name d))
      else if one_label (dim_name d) (met_name metric)
        then Inl (DimensionShadowsMeasure (met_name metric) (dim_name d))
      else if dim_allowed_values d = Some []
        then Inl (EmptyAllowlist (met_name metric) (dim_name d))
      else bind_res
        (case dim_allowed_values d of
           None \<Rightarrow> Inr ()
         | Some vs \<Rightarrow> ensure (length vs \<le> MAX_VALUES_PER_DIMENSION)
             (TooManyValues (met_name metric) (dim_name d) (length vs) MAX_VALUES_PER_DIMENSION)) (\<lambda>_.
        bind_res
          (case dim_via d of None \<Rightarrow> Inr m | Some chain \<Rightarrow> walk_chain ms rels metric d 0 None m chain) (\<lambda>owning.
        bind_res (ensure (has_column owning (dim_column d))
            (UnknownDimensionColumn (met_name metric) (dim_name d) (model_name owning) (dim_column d))) (\<lambda>_.
          check_labels_against_table metric (model_table_name owning)))))"

fun check_cross_model_aggregate :: "metric \<Rightarrow> aggregate \<Rightarrow> inconsistent_definitions + unit" where
  "check_cross_model_aggregate metric Avg = Inl (CrossModelTermHasNoEmptyValue (met_name metric) Avg)"
| "check_cross_model_aggregate metric Min = Inl (CrossModelTermHasNoEmptyValue (met_name metric) Min)"
| "check_cross_model_aggregate metric Max = Inl (CrossModelTermHasNoEmptyValue (met_name metric) Max)"
| "check_cross_model_aggregate metric CountDistinct =
     Inl (CrossModelTermDoesNotReaggregate (met_name metric) CountDistinct)"
| "check_cross_model_aggregate metric Sum = Inr ()"
| "check_cross_model_aggregate metric Count = Inr ()"

definition is_cross_model :: "metric \<Rightarrow> measure \<Rightarrow> bool" where
  "is_cross_model metric m = list_ex (\<lambda>n. n \<noteq> None \<and> n \<noteq> Some (met_model metric)) (measure_models m)"

definition check_cross_model :: "models \<Rightarrow> relationships \<Rightarrow> metric \<Rightarrow> inconsistent_definitions + unit" where
  "check_cross_model ms rels metric =
     bind_res
       (case met_measure metric of
          None \<Rightarrow> Inr ()
        | Some q \<Rightarrow>
            if \<not> is_cross_model metric q then Inr ()
            else if met_anchor metric \<noteq> None then Inl (AnchorOnCrossModelRatio (met_name metric))
            else each_ok (\<lambda>t. case t of
                TermAggregate inner \<Rightarrow> check_cross_model_aggregate metric (ac_aggregate inner)
              | TermCountIf _ _ \<Rightarrow> Inr ()) (measure_terms q)) (\<lambda>_.
       case met_shared_calendars metric of
         None \<Rightarrow> Inr ()
       | Some calendars \<Rightarrow> check_calendars ms rels metric calendars)"

definition check_measure_column ::
  "models \<Rightarrow> metric \<Rightarrow> model \<Rightarrow> name \<times> name option \<Rightarrow> inconsistent_definitions + unit" where
  "check_measure_column ms metric m = (\<lambda>(column, term_model).
     bind_res
       (case term_model of
          None \<Rightarrow> Inr m
        | Some n \<Rightarrow> ok_or (UnknownTermModel (met_name metric) n) (bt_get ms n)) (\<lambda>owning.
       ensure (has_column owning column)
         (UnknownMeasureColumn (met_name metric) (model_name owning) column)))"

definition check_metric :: "models \<Rightarrow> relationships \<Rightarrow> metric \<Rightarrow> inconsistent_definitions + unit" where
  "check_metric ms rels metric =
     bind_res (ok_or (UnknownModel (met_name metric) (met_model metric)) (bt_get ms (met_model metric))) (\<lambda>m.
     bind_res
       (case met_measure metric of
          None \<Rightarrow> Inr ()
        | Some q \<Rightarrow>
            each_ok (check_measure_column ms metric m) (zip (measure_columns q) (measure_models q))) (\<lambda>_.
     bind_res (each_ok (\<lambda>f. ensure (has_column m (filter_column f))
         (UnknownRequiredFilterColumn (met_name metric) (model_name m) (filter_column f)))
       (met_required_filters metric)) (\<lambda>_.
     bind_res (ensure (has_column m (met_time_column metric))
         (UnknownTimeColumn (met_name metric) (model_name m) (met_time_column metric))) (\<lambda>_.
     bind_res (ensure (met_grains metric \<noteq> []) (NoGrains (met_name metric))) (\<lambda>_.
     bind_res (check_labels_against_table metric (model_table_name m)) (\<lambda>_.
     bind_res (each_ok (check_dimension ms rels metric m) (bt_values (met_dimensions metric))) (\<lambda>_.
       check_cross_model ms rels metric)))))))"

section \<open>The bytes a catalog carries\<close>

text \<open>
  \<open>RequiredFilter\<close> displays its value with \<open>Debug\<close>, which writes a character that is
  not printable, or that extends a grapheme, as \<open>\u{..}\<close>. Which characters those are is a
  table of the Unicode data the compiler ships, the argument \<open>escaped\<close>.
\<close>

fun hex_digits :: "nat \<Rightarrow> nat" where
  "hex_digits c = (if c < 16 then 1 else 1 + hex_digits (c div 16))"

declare hex_digits.simps [simp del]

definition debug_char_len :: "(nat \<Rightarrow> bool) \<Rightarrow> nat \<Rightarrow> nat" where
  "debug_char_len escaped c =
     (if c \<in> {0, 9, 10, 13, 34, 92} then 2
      else if escaped c then 4 + hex_digits c
      else char_utf8_len c)"

definition debug_len :: "(nat \<Rightarrow> bool) \<Rightarrow> ustr \<Rightarrow> nat" where
  "debug_len escaped s = 2 + sum_list (map (debug_char_len escaped) s)"

fun filter_display_len :: "(nat \<Rightarrow> bool) \<Rightarrow> required_filter \<Rightarrow> nat" where
  "filter_display_len escaped (Equals c v) = length c + 3 + debug_len escaped v"
| "filter_display_len escaped (NotEquals c v) = length c + 4 + debug_len escaped v"
| "filter_display_len escaped (IsTrue c) = length c + length '' is true''"
| "filter_display_len escaped (IsNotNull c) = length c + length '' is not null''"

definition column_bytes :: "column \<Rightarrow> nat" where
  "column_bytes c =
     sat_add_usize (sat_add_usize (length (col_name c))
       (case col_data_type c of None \<Rightarrow> 0 | Some t \<Rightarrow> utf8_len t)) (utf8_len (col_description c))"

definition model_bytes :: "model \<Rightarrow> nat" where
  "model_bytes m =
     sat_add_usize (sat_add_usize (sat_add_usize (length (model_name m)) (length (qt_display (model_table m))))
       (sat_sum_usize (map column_bytes (bt_values (model_columns m))))) (utf8_len (model_description m))"

definition relationship_bytes :: "relationship \<Rightarrow> nat" where
  "relationship_bytes r =
     foldl (\<lambda>acc k. sat_add_usize (sat_add_usize acc (length (key_origin k))) (length (key_target k))) 0
       (ne_iter (rel_keys r))"

definition dimension_bytes :: "dimension \<Rightarrow> nat" where
  "dimension_bytes d =
     sat_add_usize (case dim_allowed_values d of None \<Rightarrow> 0 | Some vs \<Rightarrow> sat_sum_usize (map utf8_len vs))
       (utf8_len (dim_description d))"

definition metric_bytes :: "(nat \<Rightarrow> bool) \<Rightarrow> metric \<Rightarrow> nat" where
  "metric_bytes escaped m =
     sat_add_usize (sat_add_usize
       (sat_sum_usize (map (filter_display_len escaped) (met_required_filters m)))
       (sat_sum_usize (map dimension_bytes (bt_values (met_dimensions m))))) (utf8_len (met_description m))"

section \<open>Assembling the definitions\<close>

record definitions =
  defs_models :: models
  defs_relationships :: relationships
  defs_metrics :: metrics

definition authored_bytes :: "(nat \<Rightarrow> bool) \<Rightarrow> definitions \<Rightarrow> nat" where
  "authored_bytes escaped d =
     sat_add_usize (sat_add_usize
       (sat_sum_usize (map model_bytes (bt_values (defs_models d))))
       (sat_sum_usize (map relationship_bytes (bt_values (defs_relationships d)))))
       (sat_sum_usize (map (metric_bytes escaped) (bt_values (defs_metrics d))))"

fun load_models :: "models \<Rightarrow> model list \<Rightarrow> inconsistent_definitions + models" where
  "load_models ms [] = Inr ms"
| "load_models ms (x # xs) =
     (case bt_get ms (model_name x) of
        Some existing \<Rightarrow> Inl (DuplicateModel (model_name existing))
      | None \<Rightarrow> load_models (bt_insert (model_name x) x ms) xs)"

fun load_relationships ::
  "models \<Rightarrow> relationships \<Rightarrow> relationship list \<Rightarrow> inconsistent_definitions + relationships" where
  "load_relationships ms rels [] = Inr rels"
| "load_relationships ms rels (x # xs) =
     bind_res (check_relationship ms x) (\<lambda>_.
     case bt_get rels (rel_name x) of
        Some existing \<Rightarrow> Inl (DuplicateRelationship (rel_name existing))
      | None \<Rightarrow> load_relationships ms (bt_insert (rel_name x) x rels) xs)"

fun load_metrics ::
  "models \<Rightarrow> relationships \<Rightarrow> metrics \<Rightarrow> metric list \<Rightarrow> inconsistent_definitions + metrics" where
  "load_metrics ms rels mets [] = Inr mets"
| "load_metrics ms rels mets (x # xs) =
     bind_res (check_metric ms rels x) (\<lambda>_.
     case bt_get mets (met_name x) of
        Some existing \<Rightarrow> Inl (DuplicateMetric (met_name existing))
      | None \<Rightarrow> load_metrics ms rels (bt_insert (met_name x) x mets) xs)"

definition assemble ::
  "(nat \<Rightarrow> bool) \<Rightarrow> model list \<Rightarrow> relationship list \<Rightarrow> metric list \<Rightarrow> inconsistent_definitions + definitions" where
  "assemble escaped models relationships metrics =
     bind_res (load_models [] models) (\<lambda>ms.
     bind_res (load_relationships ms [] relationships) (\<lambda>rels.
     bind_res (load_metrics ms rels [] metrics) (\<lambda>mets.
       let assembled = \<lparr>defs_models = ms, defs_relationships = rels, defs_metrics = mets\<rparr>;
           bytes = authored_bytes escaped assembled in
       if bytes > MAX_DEFINITIONS_BYTES then Inl (DefinitionsTooLarge bytes MAX_DEFINITIONS_BYTES)
       else Inr assembled)))"

interpretation model_loader: unique_loader "[]" bt_insert map_of "\<lambda>m. m" bt_inv
    model_name "\<lambda>_. Inr ()" "\<lambda>m. DuplicateModel (model_name m)" load_models
  by unfold_locales auto

interpretation relationship_loader: unique_loader "[]" bt_insert map_of "\<lambda>m. m" bt_inv
    rel_name "check_relationship ms" "\<lambda>r. DuplicateRelationship (rel_name r)" "load_relationships ms"
  for ms
  by unfold_locales (auto simp: bind_res_def split: sum.splits)

interpretation metric_loader: unique_loader "[]" bt_insert map_of "\<lambda>m. m" bt_inv
    met_name "check_metric ms rels" "\<lambda>m. DuplicateMetric (met_name m)" "load_metrics ms rels"
  for ms rels
  by unfold_locales (auto simp: bind_res_def split: sum.splits)

section \<open>What the checks accept\<close>

text \<open>Where a chain of relationships ends, when it is a path that duplicates no row.\<close>

fun chain_end :: "models \<Rightarrow> relationships \<Rightarrow> model \<Rightarrow> name list \<Rightarrow> model option" where
  "chain_end ms rels m [] = Some m"
| "chain_end ms rels m (n # ns) =
     (case bt_get rels n of
        None \<Rightarrow> None
      | Some r \<Rightarrow>
          if rel_origin r = model_name m \<and> rel_join_type r \<noteq> OneToMany
          then (case bt_get ms (rel_target r) of None \<Rightarrow> None | Some t \<Rightarrow> chain_end ms rels t ns)
          else None)"

definition dim_hops :: "dimension \<Rightarrow> name list" where
  "dim_hops d = (case dim_via d of None \<Rightarrow> [] | Some hops \<Rightarrow> hops)"

definition labels_of :: "metric \<Rightarrow> name list" where
  "labels_of metric = met_name metric # TIME_BUCKET_LABEL # map dim_name (bt_values (met_dimensions metric))"

definition dimension_ok :: "models \<Rightarrow> relationships \<Rightarrow> metric \<Rightarrow> model \<Rightarrow> dimension \<Rightarrow> bool" where
  "dimension_ok ms rels metric m d \<longleftrightarrow>
     \<not> one_label (dim_name d) TIME_BUCKET_LABEL \<and> \<not> one_label (dim_name d) (met_name metric)
     \<and> (\<forall>vs. dim_allowed_values d = Some vs \<longrightarrow> vs \<noteq> [] \<and> length vs \<le> 64)
     \<and> (\<exists>e. chain_end ms rels m (dim_hops d) = Some e \<and> has_column e (dim_column d)
          \<and> (\<forall>l \<in> set (labels_of metric). \<not> one_label l (model_table_name e)))"

definition term_model_of :: "models \<Rightarrow> model \<Rightarrow> name option \<Rightarrow> model option" where
  "term_model_of ms m n = (case n of None \<Rightarrow> Some m | Some k \<Rightarrow> bt_get ms k)"

definition measure_ok :: "models \<Rightarrow> metric \<Rightarrow> model \<Rightarrow> measure \<Rightarrow> bool" where
  "measure_ok ms metric m q \<longleftrightarrow>
     (\<forall>t \<in> set (measure_terms q). \<exists>e. term_model_of ms m (term_model t) = Some e \<and> has_column e (term_column t))
     \<and> (is_cross_model metric q \<longrightarrow> met_anchor metric = None
         \<and> (\<forall>a. TermAggregate a \<in> set (measure_terms q) \<longrightarrow> ac_aggregate a \<in> {Sum, Count}))"

definition metric_ok :: "models \<Rightarrow> relationships \<Rightarrow> metric \<Rightarrow> bool" where
  "metric_ok ms rels metric \<longleftrightarrow> (\<exists>m. bt_get ms (met_model metric) = Some m
     \<and> (\<forall>q. met_measure metric = Some q \<longrightarrow> measure_ok ms metric m q)
     \<and> (\<forall>f \<in> set (met_required_filters metric). has_column m (filter_column f))
     \<and> has_column m (met_time_column metric) \<and> met_grains metric \<noteq> []
     \<and> (\<forall>l \<in> set (labels_of metric). \<not> one_label l (model_table_name m))
     \<and> (\<forall>d \<in> set (bt_values (met_dimensions metric)). dimension_ok ms rels metric m d)
     \<and> (\<forall>cs. met_shared_calendars metric = Some cs \<longrightarrow> check_calendars ms rels metric cs = Inr ()))"

lemma walk_chain_end:
  "walk_chain ms rels metric d hop prev m ns = Inr e \<longleftrightarrow> chain_end ms rels m ns = Some e"
proof (induction ns arbitrary: hop prev m)
  case (Cons n ns)
  then show ?case
    by (cases "bt_get rels n")
      (auto simp: res_simps may_duplicate_rows_def simp del: not_None_eq split: option.splits)
qed simp

lemma check_labels_ok:
  "check_labels_against_table metric table = Inr u \<longleftrightarrow> (\<forall>l \<in> set (labels_of metric). \<not> one_label l table)"
  by (auto simp: check_labels_against_table_def labels_of_def res_simps)

lemma check_dimension_ok:
  "check_dimension ms rels metric m d = Inr () \<longleftrightarrow> dimension_ok ms rels metric m d"
proof -
  have "(case dim_via d of None \<Rightarrow> Inr m | Some chain \<Rightarrow> walk_chain ms rels metric d 0 None m chain) = Inr e
      \<longleftrightarrow> chain_end ms rels m (dim_hops d) = Some e" for e
    by (auto simp: dim_hops_def walk_chain_end split: option.splits)
  moreover have "(case dim_allowed_values d of None \<Rightarrow> Inr () | Some vs \<Rightarrow>
        ensure (length vs \<le> MAX_VALUES_PER_DIMENSION) (f vs)) = Inr u
      \<longleftrightarrow> (\<forall>vs. dim_allowed_values d = Some vs \<longrightarrow> length vs \<le> 64)" for f :: "_ \<Rightarrow> inconsistent_definitions" and u
    by (auto simp: MAX_VALUES_PER_DIMENSION_def res_simps split: option.splits)
  ultimately show ?thesis
    by (auto simp: check_dimension_def dimension_ok_def res_simps check_labels_ok)
qed

lemma check_aggregate_ok:
  "check_cross_model_aggregate metric a = Inr () \<longleftrightarrow> a \<in> {Sum, Count}"
  by (cases a) simp_all

lemma check_terms_ok:
  "each_ok (\<lambda>t. case t of
        TermAggregate inner \<Rightarrow> check_cross_model_aggregate metric (ac_aggregate inner)
      | TermCountIf _ _ \<Rightarrow> Inr ()) ts = Inr ()
   \<longleftrightarrow> (\<forall>a. TermAggregate a \<in> set ts \<longrightarrow> ac_aggregate a \<in> {Sum, Count})"
  by (force simp: res_simps check_aggregate_ok split: measure_term.splits)

lemma check_measure_columns_ok:
  "each_ok (check_measure_column ms metric m) (zip (measure_columns q) (measure_models q)) = Inr ()
   \<longleftrightarrow> (\<forall>t \<in> set (measure_terms q). \<exists>e. term_model_of ms m (term_model t) = Some e \<and> has_column e (term_column t))"
proof -
  have "check_measure_column ms metric m (c, n) = Inr () \<longleftrightarrow> (\<exists>e. term_model_of ms m n = Some e \<and> has_column e c)" for c n
    by (auto simp: check_measure_column_def term_model_of_def res_simps split: option.splits)
  moreover have "zip (measure_columns q) (measure_models q) = map (\<lambda>t. (term_column t, term_model t)) (measure_terms q)"
    by (simp add: measure_columns_def measure_models_def zip_map_map map_zip_map zip_same_conv_map)
  ultimately show ?thesis by (auto simp: res_simps)
qed

lemma check_cross_model_ok:
  "check_cross_model ms rels metric = Inr () \<longleftrightarrow>
     (\<forall>q. met_measure metric = Some q \<longrightarrow> is_cross_model metric q \<longrightarrow> met_anchor metric = None
         \<and> (\<forall>a. TermAggregate a \<in> set (measure_terms q) \<longrightarrow> ac_aggregate a \<in> {Sum, Count}))
     \<and> (\<forall>cs. met_shared_calendars metric = Some cs \<longrightarrow> check_calendars ms rels metric cs = Inr ())"
  unfolding check_cross_model_def bind_res_eq_Inr
  by (cases "met_measure metric"; cases "met_shared_calendars metric")
    (auto simp: check_terms_ok simp del: each_ok.simps split: if_splits)

lemma check_metric_ok: "check_metric ms rels metric = Inr () \<longleftrightarrow> metric_ok ms rels metric"
proof (cases "met_measure metric")
  case None
  then show ?thesis
    by (auto simp: check_metric_def metric_ok_def res_simps check_labels_ok check_dimension_ok check_cross_model_ok)
next
  case (Some q)
  then show ?thesis
    by (simp add: check_metric_def metric_ok_def bind_res_eq_Inr ensure_eq_Inr ok_or_eq_Inr each_ok_eq_Inr
        check_measure_columns_ok [unfolded each_ok_eq_Inr] check_labels_ok check_dimension_ok
        check_cross_model_ok measure_ok_def) blast
qed

definition relationship_ok :: "models \<Rightarrow> relationship \<Rightarrow> bool" where
  "relationship_ok ms r \<longleftrightarrow> (\<exists>from to. bt_get ms (rel_origin r) = Some from \<and> bt_get ms (rel_target r) = Some to
     \<and> (\<forall>k \<in> set (ne_iter (rel_keys r)). has_column from (key_origin k) \<and> has_column to (key_target k))
     \<and> (\<forall>c. rel_comparison r = Some c \<longrightarrow> \<not> comparison_contradicted c r from to))"

lemma check_relationship_ok: "check_relationship ms r = Inr () \<longleftrightarrow> relationship_ok ms r"
  by (cases "rel_comparison r")
    (auto simp: check_relationship_def relationship_ok_def res_simps simp del: ne_iter_simps)

text \<open>A catalog whose every reference resolves.\<close>

definition definitions_ok :: "definitions \<Rightarrow> bool" where
  "definitions_ok d \<longleftrightarrow>
     bt_inv (defs_models d) \<and> bt_inv (defs_relationships d) \<and> bt_inv (defs_metrics d)
     \<and> (\<forall>(k, m) \<in> set (defs_models d). model_name m = k)
     \<and> (\<forall>(k, r) \<in> set (defs_relationships d). rel_name r = k \<and> relationship_ok (defs_models d) r)
     \<and> (\<forall>(k, m) \<in> set (defs_metrics d). met_name m = k \<and> metric_ok (defs_models d) (defs_relationships d) m)"

lemma assemble_parts:
  assumes "assemble escaped models relationships metrics = Inr d"
  shows "load_models [] models = Inr (defs_models d)"
    and "load_relationships (defs_models d) [] relationships = Inr (defs_relationships d)"
    and "load_metrics (defs_models d) (defs_relationships d) [] metrics = Inr (defs_metrics d)"
    and "authored_bytes escaped d \<le> 131072"
  using assms by (auto simp: assemble_def res_simps Let_def MAX_DEFINITIONS_BYTES_def split: if_splits)

lemma assemble_definitions_ok:
  assumes "assemble escaped models relationships metrics = Inr d"
  shows "definitions_ok d"
proof -
  note parts = assemble_parts [OF assms]
  note m = model_loader.loaded_exactly [OF parts(1)]
  note r = relationship_loader.loaded_exactly [OF parts(2)] relationship_loader.load_checked [OF parts(2)]
  note k = metric_loader.loaded_exactly [OF parts(3)] metric_loader.load_checked [OF parts(3)]
  show ?thesis
    unfolding definitions_ok_def
    using m(1,4) r(1,4,5) k(1,4,5) by (auto simp: check_relationship_ok check_metric_ok)
qed

lemma assemble_iff:
  "assemble escaped models relationships metrics = Inr d \<longleftrightarrow>
     distinct (map model_name models) \<and> distinct (map rel_name relationships)
     \<and> distinct (map met_name metrics)
     \<and> d = \<lparr>defs_models = fold (\<lambda>m. bt_insert (model_name m) m) models [],
            defs_relationships = fold (\<lambda>r. bt_insert (rel_name r) r) relationships [],
            defs_metrics = fold (\<lambda>m. bt_insert (met_name m) m) metrics []\<rparr>
     \<and> (\<forall>r \<in> set relationships. relationship_ok (defs_models d) r)
     \<and> (\<forall>m \<in> set metrics. metric_ok (defs_models d) (defs_relationships d) m)
     \<and> authored_bytes escaped d \<le> 131072"
  unfolding assemble_def bind_res_eq_Inr model_loader.load_iff relationship_loader.load_iff
    metric_loader.load_iff check_relationship_ok check_metric_ok Let_def MAX_DEFINITIONS_BYTES_def
  by (auto split: if_splits)

lemma calendars_on_source_exact:
  assumes "calendars_on_source ms metric acc ns = Inr os" and "bt_inv acc"
    and "\<forall>(s, c) \<in> set acc. model_source c = s"
  shows "bt_inv os \<and> (\<forall>(s, c) \<in> set os. model_source c = s)
    \<and> (\<forall>c. c \<in> set (bt_values os) \<longleftrightarrow> c \<in> set (bt_values acc) \<or> (\<exists>n \<in> set ns. bt_get ms n = Some c))"
  using assms
proof (induction ns arbitrary: acc)
  case (Cons n ns)
  then obtain c where c: "bt_get ms n = Some c" "bt_get acc (model_source c) = None"
    and step: "calendars_on_source ms metric (bt_insert (model_source c) c acc) ns = Inr os"
    by (auto split: option.splits)
  have new: "(a, b) \<in> set (bt_insert (model_source c) c acc) \<longleftrightarrow> (a = model_source c \<and> b = c) \<or> (a, b) \<in> set acc" for a b
    using c(2) Cons.prems(2) by (auto simp: in_set_bt_insert map_of_eq_None_iff image_iff)
  have "b \<in> set (bt_values (bt_insert (model_source c) c acc)) \<longleftrightarrow> b = c \<or> b \<in> set (bt_values acc)" for b
    unfolding in_values new by blast
  moreover have "bt_inv (bt_insert (model_source c) c acc)" using Cons.prems(2) by (rule bt_inv_insert)
  moreover have "\<forall>(s, c) \<in> set (bt_insert (model_source c) c acc). model_source c = s"
    using new Cons.prems(3) by auto
  ultimately show ?case using Cons.IH [OF step] c(1) by auto
qed simp

lemma check_time_kinds_columns:
  "check_time_kinds metric typed cs = Inr () \<Longrightarrow> c \<in> set cs \<Longrightarrow> has_column c (met_time_column metric)"
  by (induction metric typed cs rule: check_time_kinds.induct)
    (auto simp: has_column_def model_column_def split: option.splits if_splits)

lemma check_calendars_sound:
  assumes ok: "check_calendars ms rels metric cs = Inr ()"
    and f: "f \<in> set (fact_models metric)" "bt_get ms f = Some m"
  shows "\<exists>c. {c'. \<exists>n \<in> set cs. bt_get ms n = Some c' \<and> model_source c' = model_source m} = {c}
     \<and> has_column c (met_time_column metric)
     \<and> (\<exists>r \<in> set (bt_values rels). rel_origin r = model_name m \<and> rel_target r = model_name c)"
proof -
  from ok obtain os where os: "calendars_on_source ms metric [] cs = Inr os"
    and facts: "each_ok (check_fact_calendar rels metric os) (List.map_filter (bt_get ms) (fact_models metric)) = Inr ()"
    and kinds: "check_time_kinds metric None (bt_values os) = Inr ()"
    by (auto simp: check_calendars_def bind_res_eq_Inr)
  from calendars_on_source_exact [OF os] have inv: "bt_inv os"
    and src: "\<forall>(s, c) \<in> set os. model_source c = s"
    and vals: "\<And>c. c \<in> set (bt_values os) \<longleftrightarrow> (\<exists>n \<in> set cs. bt_get ms n = Some c)" by auto
  have "m \<in> set (List.map_filter (bt_get ms) (fact_models metric))"
    using f by (auto simp: map_filter_def intro!: image_eqI [of _ _ f])
  with facts have "check_fact_calendar rels metric os m = Inr ()" by (simp add: each_ok_eq_Inr)
  then obtain c where c: "bt_get os (model_source m) = Some c"
    and r: "\<exists>r \<in> set (bt_values rels). rel_origin r = model_name m \<and> rel_target r = model_name c"
    by (auto simp: check_fact_calendar_def res_simps split: option.splits)
  from c have cos: "(model_source m, c) \<in> set os" by (rule map_of_SomeD)
  then have mem: "c \<in> set (bt_values os)" by force
  from vals mem obtain n where n: "n \<in> set cs" "bt_get ms n = Some c" by blast
  have src_c: "model_source c = model_source m" using src cos by auto
  have one: "c' = c" if "n' \<in> set cs" "bt_get ms n' = Some c'" "model_source c' = model_source m" for n' c'
  proof -
    have "c' \<in> set (bt_values os)" using vals that by blast
    then have "(model_source m, c') \<in> set os" using src that(3) by auto
    then show "c' = c" using c inv by (metis bt_get_eq_Some option.inject)
  qed
  have "{c'. \<exists>n \<in> set cs. bt_get ms n = Some c' \<and> model_source c' = model_source m} = {c}"
    using n src_c one by blast
  with check_time_kinds_columns [OF kinds mem] r show ?thesis by blast
qed

section \<open>A small catalog\<close>

text \<open>
  Three tables in a row, and a metric over the first whose one dimension is a column of the
  last, under a name that is an argument.
\<close>

definition sample_column :: "name \<Rightarrow> column" where
  "sample_column n = column_of_name n"

definition sample_model :: "name \<Rightarrow> name \<Rightarrow> name \<Rightarrow> name list \<Rightarrow> model" where
  "sample_model n source table columns =
     model_new n source \<lparr>qt_qualifier = None, qt_table = table\<rparr> (map sample_column columns) []"

definition sample_models :: "model list" where
  "sample_models = [sample_model ''a'' ''s'' ''ta'' [''d'', ''n'', ''k''],
     sample_model ''b'' ''s'' ''tb'' [''k'', ''r''], sample_model ''c'' ''s'' ''tc'' [''r'', ''l'']]"

definition sample_relationships :: "relationship list" where
  "sample_relationships =
     [relationship_new ''ab'' ''a'' ''b'' ManyToOne (ne_one (KeyEqual ''k'' ''k'')),
      relationship_new ''bc'' ''b'' ''c'' ManyToOne (ne_one (KeyEqual ''r'' ''r''))]"

definition sample_metric :: "name \<Rightarrow> metric" where
  "sample_metric dim =
     \<lparr>met_name = ''m'', met_model = ''a'',
      met_computation = ComputationMeasure (Simple (TermAggregate
        \<lparr>ac_aggregate = Sum, ac_column = ''n'', ac_model = None\<rparr>)),
      met_required_filters = [], met_time_column = ''d'', met_grains = [Day],
      met_dimensions = [(dim, \<lparr>dim_name = dim, dim_column = ''l'', dim_via = Some [''ab'', ''bc''],
        dim_allowed_values = Some [[120]], dim_description = []\<rparr>)],
      met_anchor = None, met_description = [], met_audience = Open, met_shared_calendars = None\<rparr>"

definition sample_definitions :: "name \<Rightarrow> definitions" where
  "sample_definitions dim =
     \<lparr>defs_models = map (\<lambda>m. (model_name m, m)) sample_models,
      defs_relationships = map (\<lambda>r. (rel_name r, r)) sample_relationships,
      defs_metrics = [(''m'', sample_metric dim)]\<rparr>"

lemmas sample_defs = sample_column_def sample_model_def sample_models_def sample_relationships_def
  sample_metric_def sample_definitions_def model_new_def column_of_name_def relationship_new_def

lemma sample_models_built:
  "fold (\<lambda>m. bt_insert (model_name m) m) sample_models [] = defs_models (sample_definitions dim)"
  by (simp add: sample_defs less_char_def)

lemma sample_relationships_built:
  "fold (\<lambda>r. bt_insert (rel_name r) r) sample_relationships [] = defs_relationships (sample_definitions dim)"
  by (simp add: sample_defs less_char_def)

lemma sample_relationships_ok:
  "r \<in> set sample_relationships \<Longrightarrow> relationship_ok (defs_models (sample_definitions dim)) r"
  by (auto simp: relationship_ok_def sample_defs has_column_def less_char_def)

lemmas label_eval = one_label_def names_one_thing_def COARSEST_def eq_ignore_ascii_case_def
  to_ascii_lower_def

lemma sample_chain:
  "chain_end (defs_models (sample_definitions dim)) (defs_relationships (sample_definitions dim))
     (sample_model ''a'' ''s'' ''ta'' [''d'', ''n'', ''k'']) [''ab'', ''bc'']
   = Some (sample_model ''c'' ''s'' ''tc'' [''r'', ''l''])"
  by (simp add: sample_defs)

lemma sample_metric_ok:
  assumes "\<not> one_label dim TIME_BUCKET_LABEL" and "\<not> one_label dim ''m''"
    and "\<not> one_label dim ''ta''" and "\<not> one_label dim ''tc''"
  shows "metric_ok (defs_models (sample_definitions dim)) (defs_relationships (sample_definitions dim)) (sample_metric dim)"
proof -
  let ?m = "sample_model ''a'' ''s'' ''ta'' [''d'', ''n'', ''k'']"
  let ?ms = "defs_models (sample_definitions dim)"
  have m: "bt_get ?ms ''a'' = Some ?m" by (simp add: sample_definitions_def sample_models_def sample_model_def model_new_def)
  have cols: "has_column ?m ''n''" "has_column ?m ''d''"
    "has_column (sample_model ''c'' ''s'' ''tc'' [''r'', ''l'']) ''l''"
    by (simp_all add: has_column_def sample_defs less_char_def)
  have tables: "model_table_name ?m = ''ta''"
    "model_table_name (sample_model ''c'' ''s'' ''tc'' [''r'', ''l'']) = ''tc''"
    by (simp_all add: model_table_name_def sample_model_def model_new_def)
  have labels: "labels_of (sample_metric dim) = [''m'', TIME_BUCKET_LABEL, dim]"
    by (simp add: labels_of_def sample_metric_def)
  have fixed: "\<not> one_label ''m'' t" "\<not> one_label TIME_BUCKET_LABEL t" if "t \<in> {''ta'', ''tc''}" for t
    using that by (auto simp: label_eval TIME_BUCKET_LABEL_def)
  show ?thesis
    unfolding metric_ok_def
  proof (intro exI [of _ ?m] conjI)
    show "\<forall>q. met_measure (sample_metric dim) = Some q \<longrightarrow> measure_ok ?ms (sample_metric dim) ?m q"
      using cols by (simp add: met_measure_def measure_ok_def sample_metric_def term_model_of_def
          is_cross_model_def measure_models_def)
    show "\<forall>d \<in> set (bt_values (met_dimensions (sample_metric dim))).
        dimension_ok ?ms (defs_relationships (sample_definitions dim)) (sample_metric dim) ?m d"
      using assms fixed cols(3) sample_chain [of dim] tables labels
      by (simp add: dimension_ok_def dim_hops_def sample_metric_def)
  qed (use m cols tables labels assms fixed in \<open>simp_all add: sample_metric_def\<close>)
qed

lemma sample_assembles:
  assumes "\<not> one_label dim TIME_BUCKET_LABEL" and "\<not> one_label dim ''m''"
    and "\<not> one_label dim ''ta''" and "\<not> one_label dim ''tc''"
  shows "assemble esc sample_models sample_relationships [sample_metric dim] = Inr (sample_definitions dim)"
  unfolding assemble_iff
proof (intro conjI)
  show "distinct (map model_name sample_models)" "distinct (map rel_name sample_relationships)"
    "distinct (map met_name [sample_metric dim])"
    by (simp_all add: sample_defs)
  show "sample_definitions dim = \<lparr>defs_models = fold (\<lambda>m. bt_insert (model_name m) m) sample_models [],
            defs_relationships = fold (\<lambda>r. bt_insert (rel_name r) r) sample_relationships [],
            defs_metrics = fold (\<lambda>m. bt_insert (met_name m) m) [sample_metric dim] []\<rparr>"
    unfolding sample_models_built [of dim] sample_relationships_built [of dim]
    by (simp add: sample_definitions_def sample_metric_def)
  show "\<forall>r \<in> set sample_relationships. relationship_ok (defs_models (sample_definitions dim)) r"
    using sample_relationships_ok by blast
  show "\<forall>m \<in> set [sample_metric dim]. metric_ok (defs_models (sample_definitions dim))
      (defs_relationships (sample_definitions dim)) m"
    using sample_metric_ok [OF assms] by simp
  show "authored_bytes esc (sample_definitions dim) \<le> 131072"
    by (simp add: authored_bytes_def sample_defs sat_sum_usize_min sat_add_usize_def usize_max_def
        model_bytes_def column_bytes_def relationship_bytes_def metric_bytes_def dimension_bytes_def
        qt_display_def utf8_len_def char_utf8_len_def less_char_def)
qed

text \<open>
  Two fact tables with one calendar between them, and a ratio of a sum over each.
\<close>

definition cross_models :: "model list" where
  "cross_models = [sample_model ''a'' ''s'' ''ta'' [''d'', ''n''],
     sample_model ''b'' ''s'' ''tb'' [''n''], sample_model ''c'' ''s'' ''tc'' [''d'']]"

definition cross_relationships :: "relationship list" where
  "cross_relationships =
     [relationship_new ''ac'' ''a'' ''c'' ManyToOne (ne_one (KeyEqual ''d'' ''d'')),
      relationship_new ''bc'' ''b'' ''c'' ManyToOne (ne_one (KeyEqual ''n'' ''d''))]"

definition cross_ratio :: measure where
  "cross_ratio = Ratio (TermAggregate \<lparr>ac_aggregate = Sum, ac_column = ''n'', ac_model = None\<rparr>)
     (TermAggregate \<lparr>ac_aggregate = Sum, ac_column = ''n'', ac_model = Some ''b''\<rparr>) ZeroNull"

definition cross_metric :: metric where
  "cross_metric = (sample_metric ''x'') \<lparr>met_computation := ComputationMeasure cross_ratio,
     met_dimensions := [], met_shared_calendars := Some [''c'']\<rparr>"

definition cross_definitions :: definitions where
  "cross_definitions =
     \<lparr>defs_models = map (\<lambda>m. (model_name m, m)) cross_models,
      defs_relationships = map (\<lambda>r. (rel_name r, r)) cross_relationships,
      defs_metrics = [(''m'', cross_metric)]\<rparr>"

lemmas cross_defs = cross_models_def cross_relationships_def cross_ratio_def cross_metric_def
  cross_definitions_def

lemma cross_is_cross: "met_measure cross_metric = Some cross_ratio" "is_cross_model cross_metric cross_ratio"
  by (simp_all add: cross_defs met_measure_def is_cross_model_def measure_models_def sample_metric_def)

lemma cross_metric_ok:
  "metric_ok (defs_models cross_definitions) (defs_relationships cross_definitions) cross_metric"
proof -
  let ?m = "sample_model ''a'' ''s'' ''ta'' [''d'', ''n'']"
  show ?thesis
    unfolding metric_ok_def
  proof (intro exI [of _ ?m] conjI)
    show "\<forall>q. met_measure cross_metric = Some q \<longrightarrow> measure_ok (defs_models cross_definitions) cross_metric ?m q"
      by (auto simp: met_measure_def measure_ok_def term_model_of_def cross_defs sample_defs has_column_def
          less_char_def)
    show "\<forall>l \<in> set (labels_of cross_metric). \<not> one_label l (model_table_name ?m)"
      by (simp add: labels_of_def cross_metric_def sample_metric_def model_table_name_def sample_model_def
          model_new_def label_eval TIME_BUCKET_LABEL_def)
    show "\<forall>cs. met_shared_calendars cross_metric = Some cs \<longrightarrow>
        check_calendars (defs_models cross_definitions) (defs_relationships cross_definitions) cross_metric cs = Inr ()"
      by (simp add: check_calendars_def fact_models_def met_measure_def check_fact_calendar_def
          measure_models_def model_column_def cross_defs sample_defs List.map_filter_simps less_char_def bs_of_def ensure_def)
  qed (simp_all add: cross_defs sample_defs has_column_def less_char_def)
qed

lemma cross_assembles:
  "assemble escaped cross_models cross_relationships [cross_metric] = Inr cross_definitions"
  unfolding assemble_iff
proof (intro conjI)
  show "\<forall>r \<in> set cross_relationships. relationship_ok (defs_models cross_definitions) r"
    by (auto simp: relationship_ok_def cross_defs sample_defs has_column_def less_char_def)
  show "\<forall>m \<in> set [cross_metric]. metric_ok (defs_models cross_definitions) (defs_relationships cross_definitions) m"
    using cross_metric_ok by simp
  show "authored_bytes escaped cross_definitions \<le> 131072"
    by (simp add: authored_bytes_def cross_defs sample_defs sat_sum_usize_min sat_add_usize_def usize_max_def
        model_bytes_def column_bytes_def relationship_bytes_def metric_bytes_def
        qt_display_def utf8_len_def char_utf8_len_def less_char_def)
qed (simp_all add: cross_defs sample_defs less_char_def)

section \<open>Properties\<close>

text \<open>C3: \<open>assemble\<close> accepts a catalog exactly when names are unique, every
  relationship joins columns of models that exist, every metric is measured, filtered, bucketed and
  broken down by columns its models have, and the authored bytes are within the bound; and then the
  definitions are the declared items under their names, whatever the order of the declarations.\<close>
theorem assemble_exact:
  "assemble escaped models relationships metrics = Inr d \<longleftrightarrow>
     distinct (map model_name models) \<and> distinct (map rel_name relationships)
     \<and> distinct (map met_name metrics)
     \<and> d = \<lparr>defs_models = fold (\<lambda>m. bt_insert (model_name m) m) models [],
            defs_relationships = fold (\<lambda>r. bt_insert (rel_name r) r) relationships [],
            defs_metrics = fold (\<lambda>m. bt_insert (met_name m) m) metrics []\<rparr>
     \<and> (\<forall>r \<in> set relationships. relationship_ok (defs_models d) r)
     \<and> (\<forall>m \<in> set metrics. metric_ok (defs_models d) (defs_relationships d) m)
     \<and> authored_bytes escaped d \<le> 131072"
  by (rule assemble_iff)

theorem assemble_exact_witness:
  "distinct (map model_name sample_models)
     \<and> is_ok (assemble (\<lambda>_. False) sample_models sample_relationships [sample_metric ''x''])"
proof -
  have "assemble (\<lambda>_. False) sample_models sample_relationships [sample_metric ''x'']
      = Inr (sample_definitions ''x'')"
    by (rule sample_assembles) (simp_all add: label_eval TIME_BUCKET_LABEL_def)
  with assemble_exact [of "\<lambda>_. False" sample_models sample_relationships "[sample_metric ''x'']"
      "sample_definitions ''x''"] show ?thesis by simp
qed

text \<open>C4: in an assembled catalog no reference dangles. Every metric's model exists, every
  term, required filter and time bucket reads a column of its model, and every dimension's chain of
  relationships is a path from the metric's model, along edges that duplicate no row, to a model that
  has the dimension's column.\<close>
theorem assembled_references_resolve:
  assumes "assemble escaped models relationships metrics = Inr d" and "x \<in> set metrics"
  shows "\<exists>m. bt_get (defs_models d) (met_model x) = Some m \<and> m \<in> set models
     \<and> (\<forall>q. met_measure x = Some q \<longrightarrow> (\<forall>t \<in> set (measure_terms q).
          \<exists>e. (case term_model t of None \<Rightarrow> Some m | Some n \<Rightarrow> bt_get (defs_models d) n) = Some e
            \<and> has_column e (term_column t)))
     \<and> (\<forall>f \<in> set (met_required_filters x). has_column m (filter_column f))
     \<and> has_column m (met_time_column x) \<and> met_grains x \<noteq> []
     \<and> (\<forall>b \<in> set (bt_values (met_dimensions x)).
          \<exists>e. chain_end (defs_models d) (defs_relationships d) m (dim_hops b) = Some e
            \<and> has_column e (dim_column b))"
proof -
  note parts = assemble_parts [OF assms(1)]
  have "metric_ok (defs_models d) (defs_relationships d) x"
    using metric_loader.load_checked [OF parts(3) assms(2)] by (simp add: check_metric_ok)
  then obtain m where m: "bt_get (defs_models d) (met_model x) = Some m"
    and rest: "(\<forall>q. met_measure x = Some q \<longrightarrow> measure_ok (defs_models d) x m q)
      \<and> (\<forall>f \<in> set (met_required_filters x). has_column m (filter_column f))
      \<and> has_column m (met_time_column x) \<and> met_grains x \<noteq> []
      \<and> (\<forall>b \<in> set (bt_values (met_dimensions x)).
          dimension_ok (defs_models d) (defs_relationships d) x m b)"
    unfolding metric_ok_def by blast
  have "m \<in> set models" using model_loader.loaded_exactly(2) [OF parts(1)] m by blast
  with m rest show ?thesis
    by (intro exI [of _ m]) (auto simp: measure_ok_def dimension_ok_def term_model_of_def)
qed

theorem assembled_references_resolve_witness:
  "\<exists>e. chain_end (defs_models (sample_definitions ''x'')) (defs_relationships (sample_definitions ''x''))
     (sample_model ''a'' ''s'' ''ta'' [''d'', ''n'', ''k'']) [''ab'', ''bc''] = Some e \<and> has_column e ''l''"
proof -
  have a: "assemble (\<lambda>_. False) sample_models sample_relationships [sample_metric ''x'']
      = Inr (sample_definitions ''x'')"
    by (rule sample_assembles) (simp_all add: label_eval TIME_BUCKET_LABEL_def)
  have "bt_get (defs_models (sample_definitions ''x'')) ''a''
      = Some (sample_model ''a'' ''s'' ''ta'' [''d'', ''n'', ''k''])"
    by (simp add: sample_definitions_def sample_models_def sample_model_def model_new_def)
  with assembled_references_resolve [OF a, of "sample_metric ''x''"] show ?thesis
    by (auto simp: sample_metric_def dim_hops_def)
qed




text \<open>C27: the cross-model rules. In an assembled catalog a ratio whose terms are on two models
  has only sums and counts, which can be combined over legs that hold no row, and no anchor; and a
  metric with shared calendars has, for each model it measures, exactly one of them on that model's
  source, with a relationship to it and the time column in it.\<close>
theorem assembled_cross_model:
  assumes "assemble escaped models relationships metrics = Inr d" and "x \<in> set metrics"
  shows "(\<forall>q. met_measure x = Some q \<and> is_cross_model x q \<longrightarrow> met_anchor x = None
        \<and> (\<forall>a. TermAggregate a \<in> set (measure_terms q) \<longrightarrow> ac_aggregate a \<in> {Sum, Count}))
     \<and> (\<forall>cs f m. met_shared_calendars x = Some cs \<and> f \<in> set (fact_models x)
          \<and> bt_get (defs_models d) f = Some m \<longrightarrow>
        (\<exists>c. {c'. \<exists>n \<in> set cs. bt_get (defs_models d) n = Some c' \<and> model_source c' = model_source m} = {c}
           \<and> has_column c (met_time_column x)
           \<and> (\<exists>r \<in> set relationships. rel_origin r = f \<and> rel_target r = model_name c)))"
proof -
  note parts = assemble_parts [OF assms(1)]
  have ok: "metric_ok (defs_models d) (defs_relationships d) x"
    using metric_loader.load_checked [OF parts(3) assms(2)] by (simp add: check_metric_ok)
  have rels: "r \<in> set relationships" if "r \<in> set (bt_values (defs_relationships d))" for r
    using relationship_loader.loaded_exactly(4) [OF parts(2)] that by (auto simp: in_values)
  have calendar: "\<exists>c. {c'. \<exists>n \<in> set cs. bt_get (defs_models d) n = Some c' \<and> model_source c' = model_source m} = {c}
           \<and> has_column c (met_time_column x)
           \<and> (\<exists>r \<in> set relationships. rel_origin r = f \<and> rel_target r = model_name c)"
    if cs: "met_shared_calendars x = Some cs" and f: "f \<in> set (fact_models x)" "bt_get (defs_models d) f = Some m"
    for cs f m
  proof -
    have "check_calendars (defs_models d) (defs_relationships d) x cs = Inr ()"
      using ok cs by (auto simp: metric_ok_def)
    moreover have "model_name m = f" using model_loader.loaded_exactly(2) [OF parts(1)] f(2) by blast
    ultimately show ?thesis using check_calendars_sound [OF _ f] rels by (metis (lifting))
  qed
  from ok have "\<forall>q. met_measure x = Some q \<and> is_cross_model x q \<longrightarrow> met_anchor x = None
        \<and> (\<forall>a. TermAggregate a \<in> set (measure_terms q) \<longrightarrow> ac_aggregate a \<in> {Sum, Count})"
    by (auto simp: metric_ok_def measure_ok_def)
  with calendar show ?thesis by blast
qed

theorem assembled_cross_model_witness:
  "is_cross_model cross_metric cross_ratio \<and> met_anchor cross_metric = None
     \<and> (\<exists>c. {c'. \<exists>n \<in> set [''c'']. bt_get (defs_models cross_definitions) n = Some c'
          \<and> model_source c' = ''s''} = {c})"
proof -
  note facts = assembled_cross_model [OF cross_assembles, of cross_metric]
  have b: "''b'' \<in> set (fact_models cross_metric)"
    by (simp add: fact_models_def cross_is_cross(1) measure_models_def cross_ratio_def)
  have m: "bt_get (defs_models cross_definitions) ''b'' = Some (sample_model ''b'' ''s'' ''tb'' [''n''])"
    by (simp add: cross_defs sample_defs)
  have cs: "met_shared_calendars cross_metric = Some [''c'']" by (simp add: cross_metric_def)
  have mem: "cross_metric \<in> set [cross_metric]" by simp
  have "met_anchor cross_metric = None"
    using conjunct1 [OF facts [OF mem]] cross_is_cross by blast
  moreover obtain c where "{c'. \<exists>n \<in> set [''c'']. bt_get (defs_models cross_definitions) n = Some c'
      \<and> model_source c' = model_source (sample_model ''b'' ''s'' ''tb'' [''n''])} = {c}"
    using conjunct2 [OF facts [OF mem], rule_format, OF conjI [OF cs conjI [OF b m]]] by blast
  ultimately show ?thesis using cross_is_cross(2) by (auto simp: sample_model_def model_new_def)
qed

end
