(* ===== verification/Labels.thy ===== *)
theory Labels
  imports Consistency
begin

text \<open>
  \<open>sutura-domain/src/plan/federated/label.rs\<close> and \<open>plan/label.rs\<close>: the labels a
  statement projects. A result label is the name of a dimension or metric, the fixed name of the time
  bucket, or an internal label, the column of a leg that joins or re-aggregates. The lemmas show
  that an internal label is read back from its text, that no other text is read as one, and that an
  internal label is never the name of anything declared.
\<close>

section \<open>Standard library text operations\<close>

definition strip_prefix :: "ustr \<Rightarrow> ustr \<Rightarrow> ustr option" where
  "strip_prefix p s = (if take (length p) s = p then Some (drop (length p) s) else None)"

fun split_once_on :: "ustr \<Rightarrow> ustr \<Rightarrow> (ustr \<times> ustr) option" where
  "split_once_on p [] = (if p = [] then Some ([], []) else None)"
| "split_once_on p (x # xs) =
     (case strip_prefix p (x # xs) of
        Some rest \<Rightarrow> Some ([], rest)
      | None \<Rightarrow> map_option (\<lambda>(a, b). (x # a, b)) (split_once_on p xs))"

definition usize_of :: "ustr \<Rightarrow> nat option" where
  "usize_of s = (case parse_unsigned (int usize_max) s of Inl _ \<Rightarrow> None | Inr n \<Rightarrow> Some (nat n))"

lemma strip_prefix_append [simp]: "strip_prefix p (p @ s) = Some s"
  by (simp add: strip_prefix_def)

lemma strip_prefix_eq_Some: "strip_prefix p s = Some r \<longleftrightarrow> s = p @ r"
  by (auto simp: strip_prefix_def) (metis append_take_drop_id)

lemma strip_prefix_eq_None: "strip_prefix p s = None \<longleftrightarrow> (\<nexists>r. s = p @ r)"
  using strip_prefix_eq_Some [of p s] by (cases "strip_prefix p s") auto

lemma split_once_on_first:
  assumes "p \<noteq> []" and "hd p \<notin> set a"
  shows "split_once_on p (a @ p @ r) = Some (a, r)"
  using assms(2)
proof (induction a)
  case Nil
  obtain x xs where "p @ r = x # xs" using assms(1) by (cases p) auto
  moreover from this have "strip_prefix p (x # xs) = Some r" by (metis strip_prefix_append)
  ultimately show ?case by simp
next
  case (Cons x a)
  then have "strip_prefix p (x # a @ p @ r) = None"
    using assms(1) by (cases p) (auto simp: strip_prefix_eq_None)
  with Cons show ?case by simp
qed

lemma usize_of_show_nat:
  assumes "n \<le> usize_max"
  shows "usize_of (codes (show_nat n)) = Some n"
proof -
  obtain c cs where s: "show_nat n = c # cs" using show_nat_nonempty by (cases "show_nat n") auto
  then have "is_ascii_digit (of_char c)" using show_nat_digits [of c n] by simp
  then have "(of_char c :: nat) \<noteq> 43" "(of_char c :: nat) \<noteq> 45" by (auto simp: is_ascii_digit_def)
  moreover have "parse_digits (int usize_max) 0 (codes (c # cs)) = Inr (int n)"
    using parse_show_nat [of n "int usize_max"] assms s by simp
  ultimately show ?thesis using s by (simp add: usize_of_def parse_unsigned_def)
qed

section \<open>Internal labels\<close>

datatype internal_label = Link (link_leg: nat) (link_part: nat) | Leaf (leaf_position: nat)

definition LINK :: string where
  "LINK = ''_link''"

definition LEAF :: string where
  "LEAF = ''0_leaf_''"

definition internal_link :: "nat \<Rightarrow> internal_label" where
  "internal_link leg = Link leg 0"

definition is_link_of :: "nat \<Rightarrow> ustr \<Rightarrow> bool" where
  "is_link_of leg t =
     (case strip_prefix (codes (show_nat leg @ LINK)) t of
        None \<Rightarrow> False
      | Some part \<Rightarrow> part = [] \<or>
          (case strip_prefix (codes ''_'') part of None \<Rightarrow> False | Some n \<Rightarrow> usize_of n \<noteq> None))"

fun internal_text :: "internal_label \<Rightarrow> string" where
  "internal_text (Link leg part) =
     (if part = 0 then show_nat leg @ LINK else show_nat leg @ LINK @ ''_'' @ show_nat part)"
| "internal_text (Leaf position) = LEAF @ show_nat position"

definition internal_label_parse :: "ustr \<Rightarrow> internal_label option" where
  "internal_label_parse t =
     Option.bind
       (case strip_prefix (codes LEAF) t of
          Some position \<Rightarrow> map_option Leaf (usize_of position)
        | None \<Rightarrow>
            Option.bind (split_once_on (codes LINK) t) (\<lambda>(leg, part).
            Option.bind (usize_of leg) (\<lambda>l.
            map_option (Link l)
              (if part = [] then Some 0
               else Option.bind (strip_prefix (codes ''_'') part) usize_of))))
       (\<lambda>parsed. if codes (internal_text parsed) = t then Some parsed else None)"

section \<open>Result labels\<close>

datatype result_label = ResultLabel (label_str: string)

definition label_dimension :: "name \<Rightarrow> result_label" where
  "label_dimension n = ResultLabel n"

definition label_bucket :: result_label where
  "label_bucket = ResultLabel TIME_BUCKET_LABEL"

definition label_measure :: "name \<Rightarrow> result_label" where
  "label_measure metric = ResultLabel metric"

definition label_internal :: "internal_label \<Rightarrow> result_label" where
  "label_internal l = ResultLabel (internal_text l)"

section \<open>Facts about them\<close>

fun label_bounded :: "internal_label \<Rightarrow> bool" where
  "label_bounded (Link leg part) \<longleftrightarrow> leg \<le> usize_max \<and> part \<le> usize_max"
| "label_bounded (Leaf position) \<longleftrightarrow> position \<le> usize_max"

lemma show_nat_no_mark: "(95::nat) \<notin> set (codes (show_nat n))"
  using show_nat_digits by (fastforce simp: is_ascii_digit_def)

lemma usize_of_bounded: "usize_of s = Some n \<Longrightarrow> n \<le> usize_max"
proof -
  have le: "parse_digits hi acc s = Inr v \<Longrightarrow> acc \<le> hi \<Longrightarrow> v \<le> hi" for hi acc v s
    by (induction hi acc s rule: parse_digits.induct) (auto simp: Let_def split: if_splits)
  assume "usize_of s = Some n"
  then obtain v t where "parse_digits (int usize_max) 0 t = Inr v" "n = nat v"
    by (auto simp: usize_of_def parse_unsigned_def simp del: parse_digits.simps
        split: sum.splits list.splits if_splits)
  with le [of "int usize_max" 0 t v] show "n \<le> usize_max" by simp
qed

lemma codes_eq_iff: "codes s = codes t \<longleftrightarrow> s = t"
  using inj_of_char by (simp add: codes_def inj_map_eq_map)

lemma link_not_leaf: "strip_prefix (codes LEAF) (codes (show_nat leg @ LINK @ r)) = None"
proof -
  have "codes (show_nat leg @ LINK @ r) \<noteq> codes LEAF @ s" for s
  proof
    assume eq: "codes (show_nat leg @ LINK @ r) = codes LEAF @ s"
    obtain c cs where d: "show_nat leg = c # cs" using show_nat_nonempty by (cases "show_nat leg") auto
    have "cs = []"
    proof (rule ccontr)
      assume "cs \<noteq> []"
      then obtain c' cs' where "cs = c' # cs'" by (cases cs) auto
      with eq d have "(of_char c' :: nat) = 95" by (simp add: LEAF_def)
      moreover have "c' \<in> set (show_nat leg)" using d \<open>cs = c' # cs'\<close> by simp
      ultimately show False using show_nat_digits [of c' leg] by (simp add: is_ascii_digit_def)
    qed
    with eq d show False by (simp add: LEAF_def LINK_def)
  qed
  then show ?thesis by (simp add: strip_prefix_eq_None)
qed

lemma internal_label_parses:
  assumes "label_bounded l"
  shows "internal_label_parse (codes (internal_text l)) = Some l"
proof (cases l)
  case (Leaf p)
  then show ?thesis using assms usize_of_show_nat
    by (simp add: internal_label_parse_def)
next
  case (Link leg part)
  have first: "split_once_on (codes LINK) (codes (show_nat leg) @ codes LINK @ r) = Some (codes (show_nat leg), r)" for r
    using show_nat_no_mark by (intro split_once_on_first) (auto simp: LINK_def)
  have "strip_prefix (codes LEAF) (codes (internal_text l)) = None"
    using link_not_leaf [of leg "[]"] link_not_leaf [of leg "''_'' @ show_nat part"] Link by simp
  moreover have "split_once_on (codes LINK) (codes (internal_text l))
      = Some (codes (show_nat leg), if part = 0 then [] else codes ''_'' @ codes (show_nat part))"
    using first [of "[]"] first [of "codes ''_'' @ codes (show_nat part)"] Link by simp
  moreover have "strip_prefix (codes ''_'') (codes ''_'' @ codes (show_nat part)) = Some (codes (show_nat part))"
    by (rule strip_prefix_append)
  moreover have "codes (show_nat part) \<noteq> []" by (metis codes_simps(4) length_0_conv show_nat_nonempty)
  ultimately show ?thesis using assms Link usize_of_show_nat
    by (simp add: internal_label_parse_def del: codes_simps)
qed

lemma internal_label_parse_sound:
  assumes "internal_label_parse t = Some l"
  shows "t = codes (internal_text l) \<and> label_bounded l"
  using assms usize_of_bounded
  by (auto simp: internal_label_parse_def bind_eq_Some_conv split: option.splits if_splits)

lemma internal_label_inj:
  assumes "label_bounded k" and "label_bounded l" and "internal_text k = internal_text l"
  shows "k = l"
  by (metis internal_label_parses assms option.inject)

lemma internal_label_digit: "is_ascii_digit (of_char (hd (internal_text l)))"
proof -
  have "is_ascii_digit (of_char (hd (show_nat n)))" for n
    by (rule show_nat_digits) (rule hd_in_set, simp)
  then show ?thesis by (cases l) (simp_all add: LEAF_def is_ascii_digit_def hd_append)
qed

lemma internal_label_not_named: "well_named h n \<Longrightarrow> n \<noteq> internal_text l"
  using internal_label_digit [of l]
  by (auto simp: well_named_def is_ascii_alphabetic_def is_ascii_digit_def)

section \<open>Properties\<close>

text \<open>C32: an internal label is read back from its text, and a text is read as an internal label
  only when it is exactly that label's text; so different labels have different texts.\<close>
theorem internal_label_roundtrip:
  "internal_label_parse t = Some l \<longleftrightarrow> label_bounded l \<and> t = codes (internal_text l)"
  using internal_label_parses internal_label_parse_sound by blast

text \<open>C33: no name of the catalog, and so no label of an answer, is the text of an internal label,
  whatever the numbers in it.\<close>
theorem labels_apart:
  assumes "well_named h n"
  shows "label_dimension n \<noteq> label_internal l \<and> label_measure n \<noteq> label_internal l
     \<and> label_bucket \<noteq> label_internal l"
proof -
  have "well_named Rejected ''period''"
    by (simp add: well_named_def admits_def is_ascii_alphanumeric_def is_ascii_alphabetic_def)
  then show ?thesis
    using internal_label_not_named [OF assms] internal_label_not_named
    by (auto simp: label_dimension_def label_measure_def label_bucket_def label_internal_def TIME_BUCKET_LABEL_def)
qed

theorem labels_apart_witness: "label_dimension ''region'' \<noteq> label_internal (Link 0 1)"
  using labels_apart [of Rejected "''region''" "Link 0 1"]
  by (simp add: well_named_def admits_def is_ascii_alphanumeric_def is_ascii_alphabetic_def)

end
