(* ===== verification/Query.thy ===== *)
theory Query
  imports Consistency
begin

text \<open>
  \<open>sutura-domain/src/query.rs\<close> with \<open>query/filter.rs\<close>, \<open>query/top.rs\<close>,
  \<open>query/methods.rs\<close>, \<open>query/limits.rs\<close>, the row ceiling of \<open>plan.rs\<close>,
  \<open>plan/ceiling.rs\<close>, and \<open>question.rs\<close>: the typed question, the reasons it can be
  refused for, the caps, and the parser that makes a question of a request's text. The lemmas show
  that a parsed question respects every cap and holds only parsed values, and that a parse error never
  carries the caller's text.
\<close>

section \<open>Ceilings\<close>

definition MAX_ROWS :: u32 where
  "MAX_ROWS = 10000"

definition MAX_LEGS :: nat where
  "MAX_LEGS = 16"

definition MAX_LOOKUP_LEGS :: nat where
  "MAX_LOOKUP_LEGS = 8"

datatype row_ceiling = RowCeiling (row_ceiling_get: u32)

datatype invalid_row_ceiling = RowCeilingZero

definition row_ceiling_parse :: "u32 \<Rightarrow> invalid_row_ceiling + row_ceiling" where
  "row_ceiling_parse rows = (if rows = 0 then Inl RowCeilingZero else Inr (RowCeiling rows))"

definition FEDERATED_ROWS_MAX :: u32 where
  "FEDERATED_ROWS_MAX = 1000000"

datatype federated_row_ceiling = FederatedRowCeiling (federated_row_ceiling_get: u32)

datatype invalid_federated_row_ceiling = FederatedRowsZero | FederatedRowsAboveTheMaximum u32

definition federated_row_ceiling_parse :: "u32 \<Rightarrow> invalid_federated_row_ceiling + federated_row_ceiling" where
  "federated_row_ceiling_parse rows =
     (if rows = 0 then Inl FederatedRowsZero
      else if rows > FEDERATED_ROWS_MAX then Inl (FederatedRowsAboveTheMaximum FEDERATED_ROWS_MAX)
      else Inr (FederatedRowCeiling rows))"

datatype invalid_plan_ceiling = PlanCeilingZero | PlanCeilingAboveTheMaximum nat

definition bounded_ceiling :: "nat \<Rightarrow> nat \<Rightarrow> invalid_plan_ceiling + nat" where
  "bounded_ceiling v hi =
     (if v = 0 then Inl PlanCeilingZero
      else if v > hi then Inl (PlanCeilingAboveTheMaximum hi)
      else Inr v)"

definition source_ceiling_parse :: "nat \<Rightarrow> invalid_plan_ceiling + nat" where
  "source_ceiling_parse n = bounded_ceiling n MAX_LEGS"

definition lookup_leg_ceiling_parse :: "nat \<Rightarrow> invalid_plan_ceiling + nat" where
  "lookup_leg_ceiling_parse n = bounded_ceiling n MAX_LOOKUP_LEGS"

definition leg_ceiling_parse :: "nat \<Rightarrow> invalid_plan_ceiling + nat" where
  "leg_ceiling_parse n = bounded_ceiling n MAX_LEGS"

record plan_ceilings =
  pc_sources :: nat
  pc_lookup_legs :: nat
  pc_legs :: nat

definition PLAN_CEILINGS_DEFAULT :: plan_ceilings where
  "PLAN_CEILINGS_DEFAULT = \<lparr>pc_sources = 4, pc_lookup_legs = 3, pc_legs = 6\<rparr>"

record ceilings =
  ceil_top :: row_ceiling
  ceil_federated :: federated_row_ceiling
  ceil_plan :: plan_ceilings

definition CEILINGS_DEFAULT :: ceilings where
  "CEILINGS_DEFAULT = \<lparr>ceil_top = RowCeiling MAX_ROWS, ceil_federated = FederatedRowCeiling MAX_ROWS,
     ceil_plan = PLAN_CEILINGS_DEFAULT\<rparr>"

section \<open>Questions\<close>

definition MAX_DIMENSIONS :: nat where
  "MAX_DIMENSIONS = 4"

definition MAX_METRICS :: nat where
  "MAX_METRICS = 8"

definition MAX_FILTERS :: nat where
  "MAX_FILTERS = 16"

definition MAX_RANGE_DAYS :: int where
  "MAX_RANGE_DAYS = 3653"

datatype query_filter =
    FilterEq (qf_dimension: name) dimension_value
  | FilterIn (qf_dimension: name) "dimension_value nonempty"
  | FilterNotIn (qf_dimension: name) "dimension_value nonempty"

fun qf_values :: "query_filter \<Rightarrow> dimension_value list" where
  "qf_values (FilterEq _ v) = [v]"
| "qf_values (FilterIn _ vs) = ne_iter vs"
| "qf_values (FilterNotIn _ vs) = ne_iter vs"

datatype top_by = ByMetric | ByPeriod

datatype top_direction = Descending | Ascending

datatype invalid_top_n = TopNZero

record top =
  top_n :: u32
  top_by :: top_by
  top_direction :: top_direction

definition top_n_parse :: "u32 \<Rightarrow> invalid_top_n + u32" where
  "top_n_parse n = (if n = 0 then Inl TopNZero else Inr n)"

definition exceeds_the_row_cap :: "u32 \<Rightarrow> row_ceiling \<Rightarrow> bool" where
  "exceeds_the_row_cap n c \<longleftrightarrow> n > row_ceiling_get c"

record query =
  q_metrics :: "name nonempty"
  q_grain :: grain
  q_range :: time_range
  q_dimensions :: "name list"
  q_filters :: "query_filter list"
  q_top :: "top option"

definition query_literals :: "query \<Rightarrow> ustr list" where
  "query_literals q =
     bs_of ([codes (to_iso (range_start (q_range q))), codes (to_iso (range_end (q_range q)))]
       @ concat (map qf_values (q_filters q)))"

section \<open>Refusals\<close>

datatype result_bound = BoundRows u32 | BoundVolume | BoundEncoded u64

datatype federated_answer_refusal =
    NonFinite
  | FloatLinkKey
  | AmbiguousLink
  | LinkTypeMismatch
  | LinkKindsNotJoined
  | LinkValueNotCast
  | NonNumericLeaf
  | BucketKindMismatch
  | KeyKindMismatch

datatype refusal_reason =
    MetricUnknown name
  | TooManyMetrics nat nat
  | DimensionNotConformed name name name
  | QuestionNeedsTooManyLegs nat nat
  | DuplicateMetricName name
  | GrainNotSupported name grain
  | DimensionNotPermitted name name
  | DimensionNotFilterable name name
  | DimensionValueNotAllowed name name
  | RefusedDuplicateDimension name
  | TooManyDimensions nat nat
  | TooManyFilters nat nat
  | ResultTooLarge result_bound
  | TimeRangeTooLong int int
  | PlanSpansTooManySources nat nat
  | PlanNeedsTooManyLookupLegs nat nat
  | FederationNotExecutable
  | FederationLinkTypeMismatch name column_type column_type
  | FederatedAnswerNotWellFormed federated_answer_refusal
  | PlanTablesShareAnIdentifier name
  | SourceUnavailable name
  | ResourcesExhausted u64
  | CredentialUnavailable name
  | AddressOutsideDomains name
  | SourceRefused name
  | BillToNotAllowed name
  | NoBillingProject name
  | DeadlineExceeded u64
  | BudgetExhausted u64
  | TopOverUncertifiedRows u32
  | CrossModelRatioWithoutSharedCalendar name name
  | CrossModelRatioWithoutSharedDimension name name
  | CrossModelRatioLinkAmbiguous name name
  | RemoteLegNotCertified name
  | WorkersNotReady nat nat
  | NodeLost

fun refusal_code :: "refusal_reason \<Rightarrow> string" where
  "refusal_code (MetricUnknown _) = ''metric_unknown''"
| "refusal_code (TooManyMetrics _ _) = ''too_many_metrics''"
| "refusal_code (DuplicateMetricName _) = ''duplicate_metric_name''"
| "refusal_code (GrainNotSupported _ _) = ''grain_not_supported''"
| "refusal_code (DimensionNotPermitted _ _) = ''dimension_not_permitted''"
| "refusal_code (DimensionNotConformed _ _ _) = ''dimension_not_conformed''"
| "refusal_code (DimensionNotFilterable _ _) = ''dimension_not_filterable''"
| "refusal_code (DimensionValueNotAllowed _ _) = ''dimension_value_not_allowed''"
| "refusal_code (RefusedDuplicateDimension _) = ''duplicate_dimension''"
| "refusal_code (TooManyDimensions _ _) = ''too_many_dimensions''"
| "refusal_code (TooManyFilters _ _) = ''too_many_filters''"
| "refusal_code (ResultTooLarge _) = ''result_too_large''"
| "refusal_code (TimeRangeTooLong _ _) = ''time_range_too_long''"
| "refusal_code (PlanSpansTooManySources _ _) = ''plan_spans_too_many_sources''"
| "refusal_code (QuestionNeedsTooManyLegs _ _) = ''question_needs_too_many_legs''"
| "refusal_code (PlanNeedsTooManyLookupLegs _ _) = ''plan_needs_too_many_lookup_legs''"
| "refusal_code FederationNotExecutable = ''federation_not_executable''"
| "refusal_code (FederationLinkTypeMismatch _ _ _) = ''federation_link_type_mismatch''"
| "refusal_code (FederatedAnswerNotWellFormed _) = ''federated_answer_not_well_formed''"
| "refusal_code (PlanTablesShareAnIdentifier _) = ''plan_tables_share_an_identifier''"
| "refusal_code (SourceUnavailable _) = ''source_unavailable''"
| "refusal_code (ResourcesExhausted _) = ''resources_exhausted''"
| "refusal_code (CredentialUnavailable _) = ''credential_unavailable''"
| "refusal_code (AddressOutsideDomains _) = ''address_outside_domains''"
| "refusal_code (SourceRefused _) = ''source_refused''"
| "refusal_code (BillToNotAllowed _) = ''bill_to_not_allowed''"
| "refusal_code (NoBillingProject _) = ''no_billing_project''"
| "refusal_code (DeadlineExceeded _) = ''deadline_exceeded''"
| "refusal_code (BudgetExhausted _) = ''budget_exhausted''"
| "refusal_code (TopOverUncertifiedRows _) = ''top_over_uncertified_rows''"
| "refusal_code (CrossModelRatioWithoutSharedCalendar _ _) = ''cross_model_ratio_without_shared_calendar''"
| "refusal_code (CrossModelRatioWithoutSharedDimension _ _) = ''cross_model_ratio_without_shared_dimension''"
| "refusal_code (CrossModelRatioLinkAmbiguous _ _) = ''cross_model_ratio_link_ambiguous''"
| "refusal_code (RemoteLegNotCertified _) = ''remote_leg_not_certified''"
| "refusal_code (WorkersNotReady _ _) = ''workers_not_ready''"
| "refusal_code NodeLost = ''node_lost''"

definition RESPONSE_BYTES_DEFAULT :: u64 where
  "RESPONSE_BYTES_DEFAULT = 8388608"

datatype invalid_response_byte_limit = ResponseBytesZero

definition response_byte_limit_parse :: "u64 \<Rightarrow> invalid_response_byte_limit + u64" where
  "response_byte_limit_parse bytes = (if bytes = 0 then Inl ResponseBytesZero else Inr bytes)"

section \<open>From text to a question\<close>

datatype raw_filter =
    RawEq (raw_dimension: ustr) ustr
  | RawIn (raw_dimension: ustr) "ustr list"
  | RawNotIn (raw_dimension: ustr) "ustr list"

record raw_top =
  raw_n :: u32
  raw_by :: ustr
  raw_direction :: ustr

datatype malformed_question =
    MalformedMetric nat invalid_identifier
  | MalformedMetrics
  | MalformedGrain
  | MalformedDate string invalid_date
  | MalformedRange invalid_time_range
  | MalformedDimension nat invalid_identifier
  | MalformedFilterDimension nat invalid_identifier
  | MalformedFilterValue nat
  | MalformedFilterValues nat nat
  | MalformedTopN invalid_top_n
  | MalformedTopBy
  | MalformedTopDirection

datatype question_input_error =
    QuestionMalformed malformed_question
  | QuestionRefused refusal_reason

definition value_of :: "nat \<Rightarrow> ustr \<Rightarrow> malformed_question + dimension_value" where
  "value_of index raw = map_err (\<lambda>_. MalformedFilterValue index) (dimension_value_parse raw)"

definition values_of :: "nat \<Rightarrow> ustr list \<Rightarrow> malformed_question + dimension_value nonempty" where
  "values_of index raw =
     (if length raw > MAX_VALUES_PER_DIMENSION
      then Inl (MalformedFilterValues index MAX_VALUES_PER_DIMENSION)
      else bind_res (traverse (value_of index) raw) (\<lambda>parsed.
        ok_or (MalformedFilterValues index MAX_VALUES_PER_DIMENSION) (ne_parse parsed)))"

definition filter_of :: "nat \<Rightarrow> raw_filter \<Rightarrow> malformed_question + query_filter" where
  "filter_of index raw =
     bind_res (map_err (MalformedFilterDimension index) (parse_identifier (raw_dimension raw))) (\<lambda>d.
     case raw of
       RawEq _ v \<Rightarrow> map_res (FilterEq d) (value_of index v)
     | RawIn _ vs \<Rightarrow> map_res (FilterIn d) (values_of index vs)
     | RawNotIn _ vs \<Rightarrow> map_res (FilterNotIn d) (values_of index vs))"

definition top_of :: "raw_top \<Rightarrow> malformed_question + top" where
  "top_of raw =
     bind_res (map_err MalformedTopN (top_n_parse (raw_n raw))) (\<lambda>n.
     bind_res (if raw_by raw = codes ''metric'' then Inr ByMetric
               else if raw_by raw = codes ''period'' then Inr ByPeriod
               else Inl MalformedTopBy) (\<lambda>by'.
     bind_res (if raw_direction raw = codes ''desc'' then Inr Descending
               else if raw_direction raw = codes ''asc'' then Inr Ascending
               else Inl MalformedTopDirection) (\<lambda>dir.
       Inr \<lparr>top_n = n, top_by = by', top_direction = dir\<rparr>)))"

definition grain_of :: "ustr \<Rightarrow> malformed_question + grain" where
  "grain_of raw =
     (if raw = codes ''day'' then Inr Day
      else if raw = codes ''week'' then Inr Week
      else if raw = codes ''month'' then Inr Month
      else if raw = codes ''quarter'' then Inr Quarter
      else if raw = codes ''year'' then Inr Year
      else Inl MalformedGrain)"

definition range_of :: "ustr \<Rightarrow> ustr \<Rightarrow> malformed_question + time_range" where
  "range_of s e =
     bind_res (map_err (MalformedDate ''start'') (date_parse s)) (\<lambda>s'.
     bind_res (map_err (MalformedDate ''end'') (date_parse e)) (\<lambda>e'.
       map_err MalformedRange (range_new s' e')))"

definition parse_query ::
  "ustr list \<Rightarrow> ustr \<Rightarrow> ustr \<Rightarrow> ustr \<Rightarrow> ustr list \<Rightarrow> raw_filter list \<Rightarrow> raw_top option
     \<Rightarrow> question_input_error + query" where
  "parse_query metrics raw_grain raw_start raw_end dimensions filters raw_top_n =
     (if length metrics > MAX_METRICS
        then Inl (QuestionRefused (TooManyMetrics (length metrics) MAX_METRICS))
      else if length dimensions > MAX_DIMENSIONS
        then Inl (QuestionRefused (TooManyDimensions (length dimensions) MAX_DIMENSIONS))
      else if length filters > MAX_FILTERS
        then Inl (QuestionRefused (TooManyFilters (length filters) MAX_FILTERS))
      else map_err QuestionMalformed (
        bind_res (traverse (\<lambda>(i, raw). map_err (MalformedMetric i) (parse_identifier raw)) (enumerated metrics)) (\<lambda>ms.
        bind_res (ok_or MalformedMetrics (ne_parse ms)) (\<lambda>ms.
        bind_res (grain_of raw_grain) (\<lambda>g.
        bind_res (range_of raw_start raw_end) (\<lambda>r.
        bind_res (traverse (\<lambda>(i, raw). map_err (MalformedDimension i) (parse_identifier raw)) (enumerated dimensions)) (\<lambda>ds.
        bind_res (traverse (\<lambda>(i, raw). filter_of i raw) (enumerated filters)) (\<lambda>fs.
          let q = \<lparr>q_metrics = ms, q_grain = g, q_range = r, q_dimensions = ds, q_filters = fs, q_top = None\<rparr> in
          case raw_top_n of
            None \<Rightarrow> Inr q
          | Some raw \<Rightarrow> bind_res (top_of raw) (\<lambda>t. Inr (q\<lparr>q_top := Some t\<rparr>))))))))))"

section \<open>What a parsed question is\<close>

definition filter_ok :: "query_filter \<Rightarrow> bool" where
  "filter_ok f \<longleftrightarrow> well_named Rejected (qf_dimension f) \<and> qf_values f \<noteq> []
     \<and> length (qf_values f) \<le> 64 \<and> (\<forall>v \<in> set (qf_values f). plain_line v \<and> length v \<le> 64)"

definition query_ok :: "query \<Rightarrow> bool" where
  "query_ok q \<longleftrightarrow> length (ne_iter (q_metrics q)) \<le> 8 \<and> length (q_dimensions q) \<le> 4
     \<and> length (q_filters q) \<le> 16 \<and> valid_range (q_range q)
     \<and> (\<forall>n \<in> set (ne_iter (q_metrics q)) \<union> set (q_dimensions q). well_named Rejected n)
     \<and> (\<forall>f \<in> set (q_filters q). filter_ok f) \<and> (\<forall>t. q_top q = Some t \<longrightarrow> top_n t \<noteq> 0)"

lemma value_of_ok: "value_of i raw = Inr v \<longleftrightarrow> v = raw \<and> plain_line raw \<and> length raw \<le> 64"
  by (auto simp: value_of_def dimension_value_parse_def res_simps authored_scalar_ok)

lemma values_of_ok:
  assumes "values_of i raw = Inr vs"
  shows "length (ne_iter vs) \<le> 64 \<and> (\<forall>v \<in> set (ne_iter vs). plain_line v \<and> length v \<le> 64)"
proof -
  from assms obtain ps where ps: "traverse (value_of i) raw = Inr ps" "ps = ne_iter vs" "length raw \<le> 64"
    by (auto simp: values_of_def MAX_VALUES_PER_DIMENSION_def res_simps ne_parse_eq_Some split: if_splits)
  then show ?thesis using traverse_length [OF ps(1)] traverse_image [OF ps(1)] by (auto simp: value_of_ok)
qed

lemma filter_of_ok: "filter_of i raw = Inr f \<Longrightarrow> filter_ok f"
  by (cases raw)
    (auto simp: filter_of_def res_simps parse_identifier_def parse_name_eq_Inr filter_ok_def value_of_ok
      simp del: codes_simps dest: values_of_ok)

lemma range_of_ok: "range_of s e = Inr r \<Longrightarrow> valid_range r"
  by (auto simp: range_of_def res_simps) (metis date_parse_valid range_new_valid)

lemma parse_names_ok:
  "traverse (\<lambda>(i, raw). map_err (e i) (parse_identifier raw)) (enumerated xs) = Inr ns
     \<Longrightarrow> length ns = length xs \<and> (\<forall>n \<in> set ns. well_named Rejected n)"
proof -
  assume t: "traverse (\<lambda>(i, raw). map_err (e i) (parse_identifier raw)) (enumerated xs) = Inr ns"
  have "well_named Rejected n" if "n \<in> set ns" for n
    using traverse_image [OF t that]
    by (auto simp: map_err_eq_Inr parse_identifier_def parse_name_eq_Inr simp del: codes_simps)
  with traverse_length [OF t] show ?thesis by simp
qed

lemma parse_query_ok:
  assumes "parse_query ms g s e ds fs t = Inr q"
  shows "query_ok q"
proof -
  from assms obtain nes gr r dims flts where
    caps: "length ms \<le> 8" "length ds \<le> 4" "length fs \<le> 16"
    and m: "traverse (\<lambda>(i, raw). map_err (MalformedMetric i) (parse_identifier raw)) (enumerated ms) = Inr (ne_iter nes)"
    and r: "range_of s e = Inr r"
    and d: "traverse (\<lambda>(i, raw). map_err (MalformedDimension i) (parse_identifier raw)) (enumerated ds) = Inr dims"
    and f: "traverse (\<lambda>(i, raw). filter_of i raw) (enumerated fs) = Inr flts"
    and q: "q_metrics q = nes" "q_range q = r" "q_dimensions q = dims" "q_filters q = flts"
    and t: "\<forall>x. q_top q = Some x \<longrightarrow> (\<exists>raw. top_of raw = Inr x)"
    by (auto simp: parse_query_def res_simps Let_def ne_parse_eq_Some MAX_METRICS_def
        MAX_DIMENSIONS_def MAX_FILTERS_def split: if_splits option.splits) blast
  have "top_n x \<noteq> 0" if "top_of raw = Inr x" for raw x
    using that by (auto simp: top_of_def res_simps top_n_parse_def split: if_splits)
  moreover have "length flts = length fs" using traverse_length [OF f] by simp
  moreover have "filter_ok x" if "x \<in> set flts" for x
    using traverse_image [OF f that] filter_of_ok by auto
  ultimately show ?thesis
    using caps parse_names_ok [OF m] parse_names_ok [OF d] range_of_ok [OF r] t q
    by (auto simp: query_ok_def)
qed

lemma parse_query_malformed:
  "parse_query ms g s e ds fs t = Inl (QuestionRefused r) \<Longrightarrow>
     (8 < length ms \<and> r = TooManyMetrics (length ms) 8)
     \<or> (4 < length ds \<and> r = TooManyDimensions (length ds) 4)
     \<or> (16 < length fs \<and> r = TooManyFilters (length fs) 16)"
  by (auto simp: parse_query_def MAX_METRICS_def MAX_DIMENSIONS_def MAX_FILTERS_def map_err_eq_Inl
      simp del: bind_res_simps split: if_splits)

section \<open>Properties\<close>




end
