(* ===== verification/Plan.thy ===== *)
theory Plan
  imports Labels Query
begin

text \<open>
  \<open>sutura-domain/src/plan.rs\<close> with \<open>plan/key.rs\<close>, \<open>plan/bound_params.rs\<close>,
  \<open>plan/bindings.rs\<close> and \<open>plan/tables.rs\<close>: the plan of one statement. Predicates name
  their parameters by index, and the bindings of a plan are accepted only when the indices, read in the
  order the statement writes them, count up through every parameter. The tables of a statement are
  accepted only when each identifier names one of them. The lemmas give both checks exactly, what
  \<open>with_measures\<close> does to coherent bindings, and what re-resolving the tables of a plan keeps.
\<close>

section \<open>Columns, joins and buckets\<close>

datatype param_value = ParamText ustr | ParamDate date

record plan_column =
  pcol_table :: name
  pcol_column :: name

datatype plan_join_key =
    PlanEqual (pjk_origin: plan_column) (pjk_target: plan_column)
  | PlanTruncatedEqual (pjk_origin: plan_column) grain (pjk_target: plan_column)

fun pjk_grain :: "plan_join_key \<Rightarrow> grain option" where
  "pjk_grain (PlanEqual _ _) = None"
| "pjk_grain (PlanTruncatedEqual _ g _) = Some g"

record plan_join =
  pj_relationship :: name
  pj_table :: qualified_table
  pj_join_type :: join_type
  pj_keys :: "plan_join_key nonempty"

definition plan_hop_key :: "name \<Rightarrow> name \<Rightarrow> join_key \<Rightarrow> plan_join_key" where
  "plan_hop_key origin target_table key =
     (case key of
        KeyEqual f t \<Rightarrow> PlanEqual \<lparr>pcol_table = origin, pcol_column = f\<rparr>
          \<lparr>pcol_table = target_table, pcol_column = t\<rparr>
      | KeyTruncatedEqual f g t \<Rightarrow> PlanTruncatedEqual \<lparr>pcol_table = origin, pcol_column = f\<rparr> g
          \<lparr>pcol_table = target_table, pcol_column = t\<rparr>)"

definition plan_hop :: "relationship \<Rightarrow> name \<Rightarrow> model \<Rightarrow> plan_join" where
  "plan_hop r origin target =
     \<lparr>pj_relationship = rel_name r, pj_table = model_table target, pj_join_type = rel_join_type r,
      pj_keys = ne_map (plan_hop_key origin (model_table_name target)) (rel_keys r)\<rparr>"

record plan_bucket =
  pb_label :: result_label
  pb_grain :: grain
  pb_column :: plan_column

definition on_the_axis_of :: "plan_bucket \<Rightarrow> plan_bucket \<Rightarrow> bool" where
  "on_the_axis_of a b \<longleftrightarrow> pb_label a = pb_label b \<and> pb_grain a = pb_grain b
     \<and> pcol_column (pb_column a) = pcol_column (pb_column b)"

section \<open>Keys\<close>

record plan_key =
  pkey_label :: result_label
  pkey_column :: plan_column
  pkey_grain :: "grain option"

datatype key_value = KeyColumn plan_column | KeyTruncated plan_column grain

definition plan_key_new :: "result_label \<Rightarrow> plan_column \<Rightarrow> plan_key" where
  "plan_key_new l c = \<lparr>pkey_label = l, pkey_column = c, pkey_grain = None\<rparr>"

definition plan_key_truncated :: "result_label \<Rightarrow> plan_column \<Rightarrow> grain \<Rightarrow> plan_key" where
  "plan_key_truncated l c g = \<lparr>pkey_label = l, pkey_column = c, pkey_grain = Some g\<rparr>"

definition plan_key_value :: "plan_key \<Rightarrow> key_value" where
  "plan_key_value k =
     (case pkey_grain k of None \<Rightarrow> KeyColumn (pkey_column k) | Some g \<Rightarrow> KeyTruncated (pkey_column k) g)"

section \<open>Measures\<close>

datatype plan_term =
    PlanAggregate aggregate plan_column
  | PlanCountIf plan_column

fun plan_term_column :: "plan_term \<Rightarrow> plan_column" where
  "plan_term_column (PlanAggregate _ c) = c"
| "plan_term_column (PlanCountIf c) = c"

datatype plan_measure =
    PlanSimple plan_term
  | PlanRatio plan_term plan_term zero_denominator

definition plan_resolve_term :: "(name \<Rightarrow> plan_column) \<Rightarrow> measure_term \<Rightarrow> plan_term" where
  "plan_resolve_term resolve t =
     (case t of
        TermAggregate inner \<Rightarrow> PlanAggregate (ac_aggregate inner) (resolve (ac_column inner))
      | TermCountIf column _ \<Rightarrow> PlanCountIf (resolve column))"

definition plan_measure_of :: "measure \<Rightarrow> (name \<Rightarrow> plan_column) \<Rightarrow> plan_measure" where
  "plan_measure_of m resolve =
     (case m of
        Simple t \<Rightarrow> PlanSimple (plan_resolve_term resolve t)
      | Ratio n d z \<Rightarrow> PlanRatio (plan_resolve_term resolve n) (plan_resolve_term resolve d) z)"

section \<open>Predicates\<close>

datatype plan_predicate =
    AtOrAfter (pp_column: plan_column) nat
  | Before (pp_column: plan_column) nat
  | PlanEquals (pp_column: plan_column) nat
  | PlanNotEquals (pp_column: plan_column) nat
  | PlanIn (pp_column: plan_column) "nat nonempty"
  | PlanNotIn (pp_column: plan_column) "nat nonempty"
  | PlanIsTrue (pp_column: plan_column)
  | PlanIsNotNull (pp_column: plan_column)

fun pp_param :: "plan_predicate \<Rightarrow> nat option" where
  "pp_param (AtOrAfter _ p) = Some p"
| "pp_param (Before _ p) = Some p"
| "pp_param (PlanEquals _ p) = Some p"
| "pp_param (PlanNotEquals _ p) = Some p"
| "pp_param (PlanIn _ _) = None"
| "pp_param (PlanNotIn _ _) = None"
| "pp_param (PlanIsTrue _) = None"
| "pp_param (PlanIsNotNull _) = None"

fun bound_params :: "plan_predicate \<Rightarrow> nat list" where
  "bound_params (AtOrAfter _ p) = [p]"
| "bound_params (Before _ p) = [p]"
| "bound_params (PlanEquals _ p) = [p]"
| "bound_params (PlanNotEquals _ p) = [p]"
| "bound_params (PlanIn _ ps) = ne_iter ps"
| "bound_params (PlanNotIn _ ps) = ne_iter ps"
| "bound_params (PlanIsTrue _) = []"
| "bound_params (PlanIsNotNull _) = []"

datatype predicate_origin = OriginDefinition | OriginRequested

record plan_filter =
  pf_origin :: predicate_origin
  pf_predicate :: plan_predicate

text \<open>
  \<open>plan_required_filter\<close> takes the binding of a value as a closure over the caller's state.
  Here the state is passed, and the closure is a function of it.
\<close>

fun plan_required_filter ::
  "required_filter \<Rightarrow> plan_column \<Rightarrow> (ustr \<Rightarrow> 's \<Rightarrow> nat \<times> 's) \<Rightarrow> 's \<Rightarrow> plan_predicate \<times> 's" where
  "plan_required_filter (Equals _ v) column bind s = (let (p, s') = bind v s in (PlanEquals column p, s'))"
| "plan_required_filter (NotEquals _ v) column bind s = (let (p, s') = bind v s in (PlanNotEquals column p, s'))"
| "plan_required_filter (IsTrue _) column bind s = (PlanIsTrue column, s)"
| "plan_required_filter (IsNotNull _) column bind s = (PlanIsNotNull column, s)"

section \<open>Bindings\<close>

datatype incoherent_bindings =
    BindingOutOfRange nat nat
  | OutOfPlaceholderOrder nat nat
  | NeverRead nat nat

record plan_bindings =
  pbs_filters :: "plan_filter list"
  pbs_params :: "param_value list"

fun check_params :: "nat \<Rightarrow> nat \<Rightarrow> nat list \<Rightarrow> incoherent_bindings + nat" where
  "check_params len placeholder [] = Inr placeholder"
| "check_params len placeholder (index # rest) =
     (if index \<ge> len then Inl (BindingOutOfRange index len)
      else if index \<noteq> placeholder then Inl (OutOfPlaceholderOrder placeholder index)
      else check_params len (sat_add_usize placeholder 1) rest)"

fun check_filters_params :: "nat \<Rightarrow> nat \<Rightarrow> plan_filter list \<Rightarrow> incoherent_bindings + nat" where
  "check_filters_params len placeholder [] = Inr placeholder"
| "check_filters_params len placeholder (f # fs) =
     bind_res (check_params len placeholder (bound_params (pf_predicate f))) (\<lambda>next.
       check_filters_params len next fs)"

definition plan_bindings_parse :: "plan_filter list \<Rightarrow> param_value list \<Rightarrow> incoherent_bindings + plan_bindings" where
  "plan_bindings_parse filters params =
     bind_res (check_filters_params (length params) 0 filters) (\<lambda>placeholder.
       if placeholder \<noteq> length params then Inl (NeverRead placeholder (length params))
       else Inr \<lparr>pbs_filters = filters, pbs_params = params\<rparr>)"

definition bindings_none :: plan_bindings where
  "bindings_none = \<lparr>pbs_filters = [], pbs_params = []\<rparr>"

definition range_filters :: "time_range \<Rightarrow> plan_column \<Rightarrow> param_value list \<Rightarrow> plan_filter list \<times> param_value list" where
  "range_filters rng time_column params =
     (let start = length params in
      ([\<lparr>pf_origin = OriginDefinition, pf_predicate = AtOrAfter time_column start\<rparr>,
        \<lparr>pf_origin = OriginDefinition, pf_predicate = Before time_column (sat_add_usize start 1)\<rparr>],
       params @ [ParamDate (range_start rng), ParamDate (range_end rng)]))"

section \<open>The tables of a statement\<close>

datatype ambiguous_tables = OneIdentifierTwoTables (amb_alias: name) string string

record statement_tables =
  st_table :: qualified_table
  st_joins :: "plan_join list"

definition one_table :: "qualified_table \<Rightarrow> qualified_table \<Rightarrow> bool" where
  "one_table earlier candidate \<longleftrightarrow>
     names_one_thing COARSEST (codes (qt_table earlier)) (codes (qt_table candidate))"

fun check_tables :: "qualified_table list \<Rightarrow> plan_join list \<Rightarrow> ambiguous_tables + unit" where
  "check_tables seen [] = Inr ()"
| "check_tables seen (j # js) =
     (case List.find (\<lambda>earlier. one_table earlier (pj_table j)) seen of
        Some earlier \<Rightarrow> Inl (OneIdentifierTwoTables (qt_table (pj_table j)) (qt_display earlier) (qt_display (pj_table j)))
      | None \<Rightarrow> check_tables (seen @ [pj_table j]) js)"

definition statement_tables_parse :: "qualified_table \<Rightarrow> plan_join list \<Rightarrow> ambiguous_tables + statement_tables" where
  "statement_tables_parse table js =
     bind_res (check_tables [table] js) (\<lambda>_. Inr \<lparr>st_table = table, st_joins = js\<rparr>)"

definition tables_only :: "qualified_table \<Rightarrow> statement_tables" where
  "tables_only table = \<lparr>st_table = table, st_joins = []\<rparr>"

section \<open>The plan\<close>

record planned_measure =
  pm_metric :: name
  pm_label :: result_label
  pm_measure :: plan_measure
  pm_guard :: "plan_predicate list"

record query_plan =
  qp_source :: name
  qp_measures :: "planned_measure nonempty"
  qp_table :: qualified_table
  qp_joins :: "plan_join list"
  qp_bucket :: plan_bucket
  qp_keys :: "plan_key list"
  qp_filters :: "plan_filter list"
  qp_params :: "param_value list"
  qp_range :: time_range
  qp_max_rows :: u32
  qp_top :: "top option"

definition with_measures ::
  "name \<Rightarrow> planned_measure nonempty \<Rightarrow> statement_tables \<Rightarrow> plan_bucket \<Rightarrow> plan_key list
     \<Rightarrow> plan_bindings \<Rightarrow> time_range \<Rightarrow> query_plan" where
  "with_measures source ms tables bucket keys bindings rng =
     (let guard_count = sum_list (map (\<lambda>m. length (pm_guard m)) (ne_iter ms));
          shared = drop (min guard_count (length (pbs_filters bindings))) (pbs_filters bindings) in
      \<lparr>qp_source = source, qp_measures = ms, qp_table = st_table tables, qp_joins = st_joins tables,
       qp_bucket = bucket, qp_keys = keys, qp_filters = shared, qp_params = pbs_params bindings,
       qp_range = rng, qp_max_rows = MAX_ROWS, qp_top = None\<rparr>)"

definition query_plan_new ::
  "name \<Rightarrow> name \<Rightarrow> statement_tables \<Rightarrow> plan_bucket \<Rightarrow> plan_key list \<Rightarrow> plan_measure
     \<Rightarrow> result_label \<Rightarrow> plan_bindings \<Rightarrow> time_range \<Rightarrow> query_plan" where
  "query_plan_new source metric tables bucket keys m measure_label bindings rng =
     with_measures source
       (ne_one \<lparr>pm_metric = metric, pm_label = measure_label, pm_measure = m, pm_guard = []\<rparr>)
       tables bucket keys bindings rng"

definition with_top :: "top \<Rightarrow> query_plan \<Rightarrow> query_plan" where
  "with_top t p = p\<lparr>qp_top := Some t\<rparr>"

definition row_limit :: "query_plan \<Rightarrow> u32" where
  "row_limit p = (if qp_max_rows p = -1 then -1 else qp_max_rows p + 1)"

definition result_labels :: "query_plan \<Rightarrow> string list" where
  "result_labels p =
     map (\<lambda>k. label_str (pkey_label k)) (qp_keys p) @ [label_str (pb_label (qp_bucket p))]
     @ map (\<lambda>m. label_str (pm_label m)) (ne_iter (qp_measures p))"

datatype 'e resolve_tables_error = ResolveFailed 'e | ResolveAmbiguous ambiguous_tables

definition resolve_tables ::
  "(qualified_table \<Rightarrow> 'e + qualified_table) \<Rightarrow> query_plan \<Rightarrow> 'e resolve_tables_error + query_plan" where
  "resolve_tables resolve p =
     bind_res (map_err ResolveFailed (resolve (qp_table p))) (\<lambda>table.
     bind_res (map_err ResolveFailed (traverse (\<lambda>j. map_res (\<lambda>t. j\<lparr>pj_table := t\<rparr>) (resolve (pj_table j)))
         (qp_joins p))) (\<lambda>js.
     bind_res (map_err ResolveAmbiguous (statement_tables_parse table js)) (\<lambda>tables.
       Inr (p\<lparr>qp_table := st_table tables, qp_joins := st_joins tables\<rparr>))))"

definition definitional_params :: "query_plan \<Rightarrow> param_value list" where
  "definitional_params p =
     (let shared = List.map_filter (\<lambda>f. pp_param (pf_predicate f))
            (filter (\<lambda>f. pf_origin f = OriginDefinition) (qp_filters p));
          guards = List.map_filter pp_param (concat (map pm_guard (ne_iter (qp_measures p)))) in
      List.map_filter (\<lambda>i. if i < length (qp_params p) then Some (qp_params p ! i) else None) (shared @ guards))"

section \<open>Bindings read in placeholder order\<close>

definition all_bound :: "plan_predicate list \<Rightarrow> nat list" where
  "all_bound ps = concat (map bound_params ps)"

lemma all_bound_simps [simp]:
  "all_bound [] = []" "all_bound (p # ps) = bound_params p @ all_bound ps"
  "all_bound (ps @ qs) = all_bound ps @ all_bound qs"
  by (simp_all add: all_bound_def)

lemma Cons_eq_upt: "i # xs = [p..<n] \<longleftrightarrow> i = p \<and> p < n \<and> xs = [Suc p..<n]"
  by (cases "p < n") (auto simp: upt_conv_Cons)

lemma check_params_ok:
  assumes "len \<le> usize_max" and "placeholder \<le> len"
  shows "check_params len placeholder ixs = Inr n \<longleftrightarrow> ixs = [placeholder..<n] \<and> placeholder \<le> n \<and> n \<le> len"
  using assms(2)
proof (induction ixs arbitrary: placeholder)
  case (Cons i ixs)
  show ?case
  proof (cases "i < len \<and> i = placeholder")
    case True
    then have "sat_add_usize placeholder 1 = Suc placeholder"
      using assms(1) by (simp add: sat_add_usize_def)
    with True Cons.IH [of "Suc placeholder"] show ?thesis
      by (auto simp: Cons_eq_upt)
  next
    case False
    then show ?thesis by (auto simp: Cons_eq_upt)
  qed
qed (auto simp: eq_commute [of "[]"])

lemma check_filters_params_ok:
  assumes "len \<le> usize_max" and "placeholder \<le> len"
  shows "check_filters_params len placeholder fs = Inr n
    \<longleftrightarrow> all_bound (map pf_predicate fs) = [placeholder..<n] \<and> placeholder \<le> n \<and> n \<le> len"
  using assms(2)
proof (induction fs arbitrary: placeholder)
  case (Cons f fs)
  have "check_filters_params len placeholder (f # fs) = Inr n \<longleftrightarrow>
      (\<exists>k. bound_params (pf_predicate f) = [placeholder..<k] \<and> placeholder \<le> k \<and> k \<le> len
         \<and> all_bound (map pf_predicate fs) = [k..<n] \<and> k \<le> n \<and> n \<le> len)"
    using Cons check_params_ok [OF assms(1) Cons.prems] by (auto simp: bind_res_eq_Inr)
  also have "\<dots> \<longleftrightarrow> bound_params (pf_predicate f) @ all_bound (map pf_predicate fs) = [placeholder..<n]
      \<and> placeholder \<le> n \<and> n \<le> len"
  proof
    assume "\<exists>k. bound_params (pf_predicate f) = [placeholder..<k] \<and> placeholder \<le> k \<and> k \<le> len
         \<and> all_bound (map pf_predicate fs) = [k..<n] \<and> k \<le> n \<and> n \<le> len"
    then show "bound_params (pf_predicate f) @ all_bound (map pf_predicate fs) = [placeholder..<n]
      \<and> placeholder \<le> n \<and> n \<le> len"
      by (metis le_trans upt_add_eq_append le_add_diff_inverse)
  next
    let ?xs = "bound_params (pf_predicate f)" and ?ys = "all_bound (map pf_predicate fs)"
    assume a: "?xs @ ?ys = [placeholder..<n] \<and> placeholder \<le> n \<and> n \<le> len"
    let ?k = "placeholder + length ?xs"
    from a have k: "?k \<le> n" by (metis diff_le_self le_add1 le_add_diff_inverse length_append length_upt nat_add_left_cancel_le)
    with a have "?xs @ ?ys = [placeholder..<?k] @ [?k..<n]" by (metis le_add1 le_add_diff_inverse upt_add_eq_append)
    then have "?xs = [placeholder..<?k]" "?ys = [?k..<n]" by (simp_all add: append_eq_append_conv)
    with k a show "\<exists>k. ?xs = [placeholder..<k] \<and> placeholder \<le> k \<and> k \<le> len
         \<and> ?ys = [k..<n] \<and> k \<le> n \<and> n \<le> len" by (intro exI [of _ ?k]) auto
  qed
  finally show ?case by simp
qed (auto simp: eq_commute [of "[]"])

text \<open>Bindings are coherent when the predicates bind every parameter once, in order.\<close>

definition coherent :: "plan_predicate list \<Rightarrow> param_value list \<Rightarrow> bool" where
  "coherent ps params \<longleftrightarrow> all_bound ps = [0..<length params]"

lemma plan_bindings_parse_ok:
  assumes "length params \<le> usize_max"
  shows "plan_bindings_parse filters params = Inr b
    \<longleftrightarrow> coherent (map pf_predicate filters) params \<and> b = \<lparr>pbs_filters = filters, pbs_params = params\<rparr>"
  using check_filters_params_ok [OF assms, of 0 filters]
  by (auto simp: plan_bindings_parse_def coherent_def bind_res_eq_Inr)

section \<open>Tables\<close>

definition tables_of :: "qualified_table \<Rightarrow> plan_join list \<Rightarrow> qualified_table list" where
  "tables_of table js = table # map pj_table js"

lemma check_tables_ok:
  "check_tables seen js = Inr () \<longleftrightarrow>
     (\<forall>t \<in> set seen. \<forall>j \<in> set js. \<not> one_table t (pj_table j))
     \<and> sorted_wrt (\<lambda>a b. \<not> one_table a b) (map pj_table js)"
proof (induction js arbitrary: seen)
  case (Cons j js)
  then show ?case
    by (auto simp: find_None_all split: option.splits dest!: find_Some_mem)
qed simp

lemma statement_tables_ok:
  "statement_tables_parse table js = Inr s \<longleftrightarrow>
     sorted_wrt (\<lambda>a b. \<not> one_table a b) (tables_of table js) \<and> s = \<lparr>st_table = table, st_joins = js\<rparr>"
  by (auto simp: statement_tables_parse_def bind_res_eq_Inr check_tables_ok tables_of_def)

lemma check_tables_error:
  "check_tables seen js = Inl e \<longleftrightarrow> (\<exists>pre j post earlier. js = pre @ j # post
     \<and> check_tables seen pre = Inr ()
     \<and> List.find (\<lambda>t. one_table t (pj_table j)) (seen @ map pj_table pre) = Some earlier
     \<and> e = OneIdentifierTwoTables (qt_table (pj_table j)) (qt_display earlier) (qt_display (pj_table j)))"
  (is "?l seen js \<longleftrightarrow> ?r seen js")
proof (induction js arbitrary: seen)
  case (Cons j js)
  show ?case
  proof (cases "List.find (\<lambda>t. one_table t (pj_table j)) seen")
    case None
    have "?r seen (j # js) \<longleftrightarrow> ?r (seen @ [pj_table j]) js"
    proof
      assume "?r seen (j # js)"
      then obtain pre k post earlier where s: "j # js = pre @ k # post" "check_tables seen pre = Inr ()"
        "List.find (\<lambda>t. one_table t (pj_table k)) (seen @ map pj_table pre) = Some earlier"
        "e = OneIdentifierTwoTables (qt_table (pj_table k)) (qt_display earlier) (qt_display (pj_table k))" by blast
      with None obtain pre' where "pre = j # pre'" by (cases pre) auto
      with s None show "?r (seen @ [pj_table j]) js" by (intro exI [of _ pre'] exI [of _ k] exI [of _ post]) auto
    next
      assume "?r (seen @ [pj_table j]) js"
      then obtain pre k post earlier where s: "js = pre @ k # post" "check_tables (seen @ [pj_table j]) pre = Inr ()"
        "List.find (\<lambda>t. one_table t (pj_table k)) ((seen @ [pj_table j]) @ map pj_table pre) = Some earlier"
        "e = OneIdentifierTwoTables (qt_table (pj_table k)) (qt_display earlier) (qt_display (pj_table k))" by blast
      with None show "?r seen (j # js)" by (intro exI [of _ "j # pre"] exI [of _ k] exI [of _ post]) auto
    qed
    with None Cons.IH show ?thesis by simp
  next
    case (Some earlier)
    have "?r seen (j # js) \<longleftrightarrow> e = OneIdentifierTwoTables (qt_table (pj_table j)) (qt_display earlier) (qt_display (pj_table j))"
    proof
      assume "?r seen (j # js)"
      then obtain pre k post f where s: "j # js = pre @ k # post" "check_tables seen pre = Inr ()"
        "List.find (\<lambda>t. one_table t (pj_table k)) (seen @ map pj_table pre) = Some f"
        "e = OneIdentifierTwoTables (qt_table (pj_table k)) (qt_display f) (qt_display (pj_table k))" by blast
      then have "pre = []" using Some by (cases pre) auto
      with s Some show "e = OneIdentifierTwoTables (qt_table (pj_table j)) (qt_display earlier) (qt_display (pj_table j))" by simp
    next
      assume "e = OneIdentifierTwoTables (qt_table (pj_table j)) (qt_display earlier) (qt_display (pj_table j))"
      with Some show "?r seen (j # js)" by (intro exI [of _ "[]"] exI [of _ j] exI [of _ js]) auto
    qed
    with Some show ?thesis by auto
  qed
qed simp

lemma resolve_joins_ok:
  "traverse (\<lambda>j. map_res (\<lambda>t. j\<lparr>pj_table := t\<rparr>) (resolve (pj_table j))) js = Inr ks
     \<longleftrightarrow> list_all2 (\<lambda>j k. resolve (pj_table j) = Inr (pj_table k) \<and> k = j\<lparr>pj_table := pj_table k\<rparr>) js ks"
proof (induction js arbitrary: ks)
  case (Cons j js)
  have "(\<exists>t. resolve (pj_table j) = Inr t \<and> k = j\<lparr>pj_table := t\<rparr>)
      \<longleftrightarrow> resolve (pj_table j) = Inr (pj_table k) \<and> k = j\<lparr>pj_table := pj_table k\<rparr>" for k
    by (metis (no_types) plan_join.select_convs(2) plan_join.surjective plan_join.update_convs(2))
  with Cons show ?case
    by (cases ks) (auto simp: bind_res_eq_Inr map_res_eq_Inr)
qed auto

section \<open>Properties\<close>

text \<open>C18: bindings are accepted exactly when the predicates, read in order, bind the parameters
  0, 1, 2 and so on through the last: every parameter once, none out of range, none unread.\<close>
theorem bindings_exact:
  assumes "length params \<le> usize_max"
  shows "plan_bindings_parse filters params = Inr b
    \<longleftrightarrow> concat (map (\<lambda>f. bound_params (pf_predicate f)) filters) = [0..<length params]
       \<and> b = \<lparr>pbs_filters = filters, pbs_params = params\<rparr>"
  using plan_bindings_parse_ok [OF assms] by (simp add: coherent_def all_bound_def comp_def)

theorem bindings_exact_witness:
  "is_ok (plan_bindings_parse [\<lparr>pf_origin = OriginRequested, pf_predicate = PlanIn \<lparr>pcol_table = ''orders'', pcol_column = ''region''\<rparr> (NonEmpty 0 [1])\<rparr>,
      \<lparr>pf_origin = OriginDefinition, pf_predicate = PlanEquals \<lparr>pcol_table = ''orders'', pcol_column = ''region''\<rparr> 2\<rparr>] [ParamText [], ParamText [], ParamText []])
   \<and> \<not> is_ok (plan_bindings_parse [\<lparr>pf_origin = OriginRequested, pf_predicate = PlanIn \<lparr>pcol_table = ''orders'', pcol_column = ''region''\<rparr> (NonEmpty 1 [0])\<rparr>]
      [ParamText [], ParamText []])"
  using bindings_exact [of "[ParamText [], ParamText [], ParamText []]"]
    bindings_exact [of "[ParamText [], ParamText []]"]
  by (simp add: is_ok_iff usize_max_def ne_iter_def upt_rec)

text \<open>C19: the tables of a statement are accepted exactly when no identifier names two of them, case
  folded, and are then the tables given; otherwise the refusal names the first table that collides
  and the first one before it that it collides with.\<close>
theorem statement_tables_exact:
  "case statement_tables_parse table js of
     Inr s \<Rightarrow> s = \<lparr>st_table = table, st_joins = js\<rparr> \<and> sorted_wrt (\<lambda>a b. \<not> one_table a b) (table # map pj_table js)
   | Inl e \<Rightarrow> (\<exists>pre j post earlier. js = pre @ j # post \<and> is_ok (statement_tables_parse table pre)
       \<and> List.find (\<lambda>t. one_table t (pj_table j)) (table # map pj_table pre) = Some earlier
       \<and> e = OneIdentifierTwoTables (qt_table (pj_table j)) (qt_display earlier) (qt_display (pj_table j)))"
proof (cases "statement_tables_parse table js")
  case (Inr s)
  with Inr statement_tables_ok [of table js s] show ?thesis by (simp add: tables_of_def)
next
  case (Inl e)
  then have "check_tables [table] js = Inl e" by (simp add: statement_tables_parse_def bind_res_def split: sum.splits)
  moreover have "is_ok (statement_tables_parse table pre) \<longleftrightarrow> check_tables [table] pre = Inr ()" for pre
    by (auto simp: statement_tables_parse_def is_ok_iff bind_res_eq_Inr)
  ultimately show ?thesis using check_tables_error [of "[table]" js e] Inl by simp
qed

text \<open>C20: the plan of several measures splits coherent bindings without disturbing them. When the
  bindings open with the guards of the measures, the plan's own filters are the rest, and the
  guards followed by them still bind every parameter once, in the order the statement writes them.\<close>
theorem with_measures_coherent:
  assumes "length params \<le> usize_max" and "plan_bindings_parse filters params = Inr b"
    and "concat (map pm_guard (ne_iter ms)) = map pf_predicate own"
    and "filters = own @ shared"
  shows "qp_filters (with_measures source ms tables bucket keys b rng) = shared
     \<and> qp_params (with_measures source ms tables bucket keys b rng) = params
     \<and> all_bound (concat (map pm_guard (ne_iter ms))
          @ map pf_predicate (qp_filters (with_measures source ms tables bucket keys b rng))) = [0..<length params]"
proof -
  from assms(2) have b: "b = \<lparr>pbs_filters = filters, pbs_params = params\<rparr>"
    and co: "all_bound (map pf_predicate filters) = [0..<length params]"
    using plan_bindings_parse_ok [OF assms(1)] by (simp_all add: coherent_def)
  have "sum_list (map (\<lambda>m. length (pm_guard m)) (ne_iter ms)) = length own"
    using arg_cong [OF assms(3), of length] by (simp add: length_concat comp_def)
  then have "qp_filters (with_measures source ms tables bucket keys b rng) = shared
      \<and> qp_params (with_measures source ms tables bucket keys b rng) = params"
    by (simp add: with_measures_def b assms(4))
  with co assms(3,4) show ?thesis by simp
qed

theorem with_measures_coherent_witness:
  "\<forall>s e tables bucket keys rng. qp_filters (with_measures s (NonEmpty \<lparr>pm_metric = ''m'', pm_label = label_measure ''m'', pm_measure = e,
        pm_guard = [PlanEquals \<lparr>pcol_table = ''orders'', pcol_column = ''region''\<rparr> 0]\<rparr> []) tables bucket keys
      \<lparr>pbs_filters = [\<lparr>pf_origin = OriginDefinition, pf_predicate = PlanEquals \<lparr>pcol_table = ''orders'', pcol_column = ''region''\<rparr> 0\<rparr>,
         \<lparr>pf_origin = OriginRequested, pf_predicate = PlanEquals \<lparr>pcol_table = ''orders'', pcol_column = ''region''\<rparr> 1\<rparr>],
       pbs_params = [ParamText [], ParamText []]\<rparr> rng)
     = [\<lparr>pf_origin = OriginRequested, pf_predicate = PlanEquals \<lparr>pcol_table = ''orders'', pcol_column = ''region''\<rparr> 1\<rparr>]"
    (is "\<forall>s e tables bucket keys rng. ?P s e tables bucket keys rng")
proof (intro allI)
  fix s e tables bucket keys rng
  let ?fs = "[\<lparr>pf_origin = OriginDefinition, pf_predicate = PlanEquals \<lparr>pcol_table = ''orders'', pcol_column = ''region''\<rparr> 0\<rparr>,
         \<lparr>pf_origin = OriginRequested, pf_predicate = PlanEquals \<lparr>pcol_table = ''orders'', pcol_column = ''region''\<rparr> 1\<rparr>]"
  let ?ps = "[ParamText [], ParamText []]"
  have "plan_bindings_parse ?fs ?ps = Inr \<lparr>pbs_filters = ?fs, pbs_params = ?ps\<rparr>"
    by (simp add: plan_bindings_parse_ok coherent_def usize_max_def upt_rec)
  from with_measures_coherent [OF _ this, of "NonEmpty \<lparr>pm_metric = ''m'', pm_label = label_measure ''m'',
      pm_measure = e, pm_guard = [PlanEquals \<lparr>pcol_table = ''orders'', pcol_column = ''region''\<rparr> 0]\<rparr> []" "[hd ?fs]" "tl ?fs"]
  show "?P s e tables bucket keys rng" by (simp add: usize_max_def ne_iter_def)
qed

text \<open>Re-resolving the tables of a plan succeeds exactly when every table resolves and no
  identifier names two of the results, and then changes the tables alone.\<close>
theorem resolve_tables_exact:
  "resolve_tables resolve p = Inr p' \<longleftrightarrow>
     (\<exists>table js. resolve (qp_table p) = Inr table
        \<and> list_all2 (\<lambda>j k. resolve (pj_table j) = Inr (pj_table k) \<and> k = j\<lparr>pj_table := pj_table k\<rparr>) (qp_joins p) js
        \<and> sorted_wrt (\<lambda>a b. \<not> one_table a b) (table # map pj_table js)
        \<and> p' = p\<lparr>qp_table := table, qp_joins := js\<rparr>)"
  by (auto simp: resolve_tables_def bind_res_eq_Inr map_err_eq_Inr resolve_joins_ok statement_tables_ok tables_of_def)

end
