(* ===== verification/Shapes.thy ===== *)
theory Shapes
  imports Plan
begin

text \<open>
  The shapes a plan is put into: \<open>plan/anchor.rs\<close> (a plan that certifies an anchor),
  \<open>plan/stacked.rs\<close> (several plans joined on the rows they share), the size decision of
  \<open>plan/split.rs\<close> and \<open>plan/address_family.rs\<close>. Each constructor is given exactly:
  what it accepts, and what it then guarantees.
\<close>

section \<open>The plan of an anchor\<close>

datatype not_an_anchors_plan =
    NotSingleMetric nat
  | NotThatMetric name name
  | AnchorMetricNotDefined name
  | DeclaresNoAnchor name
  | AnchorGrouped nat
  | AnchorRequested
  | NotTheCoarsestGrain name grain "grain option"
  | NotTheAnchorsRange time_range time_range

definition coarsest_grain :: "grain list \<Rightarrow> grain option" where
  "coarsest_grain gs = (case gs of [] \<Rightarrow> None | g # rest \<Rightarrow> Some (foldl max g rest))"

definition anchor_plan_of :: "query_plan \<Rightarrow> definitions \<Rightarrow> name \<Rightarrow> not_an_anchors_plan + query_plan" where
  "anchor_plan_of p pinned metric =
     (if ne_len (qp_measures p) \<noteq> 1 then Inl (NotSingleMetric (ne_len (qp_measures p)))
      else if pm_metric (ne_head (qp_measures p)) \<noteq> metric
        then Inl (NotThatMetric (pm_metric (ne_head (qp_measures p))) metric)
      else
        bind_res (ok_or (AnchorMetricNotDefined metric) (bt_get (defs_metrics pinned) metric)) (\<lambda>definition'.
        bind_res (ok_or (DeclaresNoAnchor metric) (met_anchor definition')) (\<lambda>anchor.
          let coarsest = coarsest_grain (met_grains definition') in
          if qp_keys p \<noteq> [] then Inl (AnchorGrouped (length (qp_keys p)))
          else if list_ex (\<lambda>f. pf_origin f = OriginRequested) (qp_filters p) then Inl AnchorRequested
          else if coarsest \<noteq> Some (pb_grain (qp_bucket p))
            then Inl (NotTheCoarsestGrain metric (pb_grain (qp_bucket p)) coarsest)
          else if qp_range p \<noteq> anchor_range anchor
            then Inl (NotTheAnchorsRange (qp_range p) (anchor_range anchor))
          else Inr p)))"

lemma foldl_max_eq: "foldl max (g::'a::linorder) gs = linorder_class.Max (set (g # gs))"
  unfolding Max.set_eq_fold foldl_conv_fold by (simp add: max.commute)

lemma coarsest_grain_eq:
  "coarsest_grain gs = Some g \<longleftrightarrow> g \<in> set gs \<and> (\<forall>h \<in> set gs. h \<le> g)"
proof (cases gs)
  case (Cons x xs)
  then have "coarsest_grain gs = Some (linorder_class.Max (set gs))"
    by (simp add: coarsest_grain_def foldl_max_eq del: set_simps)
  moreover have "finite (set gs)" "set gs \<noteq> {}" using Cons by simp_all
  ultimately show ?thesis using Max_eq_iff by auto
qed (simp add: coarsest_grain_def)

section \<open>Several plans over the same rows\<close>

datatype stacked_plan_error =
    StackedArmCarriesTop name
  | StackedDuplicateLabel name
  | StackedSourceDiffers name
  | StackedKeysDiffer name
  | StackedBucketDiffers name
  | StackedRangeDiffers name

record stacked_plan =
  sp_arms :: "query_plan nonempty"
  sp_params :: "param_value list"
  sp_top :: "top option"

definition measure_labels :: "query_plan \<Rightarrow> string list" where
  "measure_labels p = map (\<lambda>m. label_str (pm_label m)) (ne_iter (qp_measures p))"

definition key_labels :: "query_plan \<Rightarrow> string list" where
  "key_labels p = map (\<lambda>k. label_str (pkey_label k)) (qp_keys p)"

definition check_stacked_arm :: "query_plan \<Rightarrow> query_plan list \<Rightarrow> query_plan \<Rightarrow> stacked_plan_error + unit" where
  "check_stacked_arm first earlier arm =
     (let metric = pm_metric (ne_head (qp_measures arm)) in
      if qp_top arm \<noteq> None then Inl (StackedArmCarriesTop metric)
      else if list_ex (\<lambda>e. list_ex (\<lambda>l. l \<in> set (measure_labels arm)) (measure_labels e)) earlier
        then Inl (StackedDuplicateLabel metric)
      else if qp_source arm \<noteq> qp_source first then Inl (StackedSourceDiffers metric)
      else if key_labels arm \<noteq> key_labels first then Inl (StackedKeysDiffer metric)
      else if (label_str (pb_label (qp_bucket arm)), pb_grain (qp_bucket arm))
          \<noteq> (label_str (pb_label (qp_bucket first)), pb_grain (qp_bucket first))
        then Inl (StackedBucketDiffers metric)
      else if qp_range arm \<noteq> qp_range first then Inl (StackedRangeDiffers metric)
      else Inr ())"

fun check_stacked :: "query_plan \<Rightarrow> query_plan list \<Rightarrow> query_plan list \<Rightarrow> stacked_plan_error + unit" where
  "check_stacked first earlier [] = Inr ()"
| "check_stacked first earlier (arm # rest) =
     bind_res (check_stacked_arm first earlier arm) (\<lambda>_. check_stacked first (earlier @ [arm]) rest)"

definition stacked_plan_new :: "query_plan \<Rightarrow> query_plan \<Rightarrow> query_plan list \<Rightarrow> stacked_plan_error + stacked_plan" where
  "stacked_plan_new first second rest =
     (let every = first # second # rest in
      bind_res (check_stacked first [] every) (\<lambda>_.
        Inr \<lparr>sp_arms = NonEmpty first (second # rest), sp_params = concat (map qp_params every), sp_top = None\<rparr>))"

definition stacked_with_top :: "top \<Rightarrow> stacked_plan \<Rightarrow> stacked_plan" where
  "stacked_with_top t s = s\<lparr>sp_top := Some t\<rparr>"

definition stacked_source :: "stacked_plan \<Rightarrow> name" where
  "stacked_source s = qp_source (ne_head (sp_arms s))"

definition stacked_row_limit :: "stacked_plan \<Rightarrow> u32" where
  "stacked_row_limit s = row_limit (ne_head (sp_arms s))"

definition stacked_result_labels :: "stacked_plan \<Rightarrow> string list" where
  "stacked_result_labels s =
     result_labels (ne_head (sp_arms s)) @ concat (map measure_labels (tl (ne_iter (sp_arms s))))"

text \<open>What one arm shares with the first.\<close>

definition same_frame :: "query_plan \<Rightarrow> query_plan \<Rightarrow> bool" where
  "same_frame first arm \<longleftrightarrow> qp_source arm = qp_source first \<and> key_labels arm = key_labels first
     \<and> pb_label (qp_bucket arm) = pb_label (qp_bucket first) \<and> pb_grain (qp_bucket arm) = pb_grain (qp_bucket first)
     \<and> qp_range arm = qp_range first"

lemma check_stacked_arm_ok:
  "check_stacked_arm first earlier arm = Inr () \<longleftrightarrow> qp_top arm = None
     \<and> (\<forall>e \<in> set earlier. set (measure_labels e) \<inter> set (measure_labels arm) = {}) \<and> same_frame first arm"
  by (auto simp: check_stacked_arm_def Let_def same_frame_def list_ex_iff result_label.expand)

lemma check_stacked_ok:
  "check_stacked first earlier arms = Inr u \<longleftrightarrow>
     (\<forall>a \<in> set arms. qp_top a = None \<and> same_frame first a)
     \<and> (\<forall>e \<in> set earlier. \<forall>a \<in> set arms. set (measure_labels e) \<inter> set (measure_labels a) = {})
     \<and> sorted_wrt (\<lambda>a b. set (measure_labels a) \<inter> set (measure_labels b) = {}) arms"
  by (induction first earlier arms rule: check_stacked.induct)
    (auto simp: bind_res_eq_Inr check_stacked_arm_ok)

section \<open>How many ways to split a leg\<close>

datatype split_decision = SplitWhole | SplitInto nat | SplitRefused nat nat nat

definition div_ceil :: "nat \<Rightarrow> nat \<Rightarrow> nat" where
  "div_ceil a b = a div b + (if a mod b > 0 then 1 else 0)"

definition split_decide :: "nat \<Rightarrow> nat \<Rightarrow> nat \<Rightarrow> nat \<Rightarrow> nat \<Rightarrow> split_decision" where
  "split_decide bytes rows above_bytes per_stream_bound ready_workers =
     (if bytes \<le> above_bytes then SplitWhole
      else let required = max (div_ceil rows per_stream_bound) 1 in
        if required > ready_workers then SplitRefused rows per_stream_bound ready_workers
        else SplitInto required)"

lemma div_ceil_least: "0 < b \<Longrightarrow> div_ceil a b \<le> n \<longleftrightarrow> a \<le> n * b"
proof -
  assume b: "0 < b"
  have a: "a = a div b * b + a mod b" by simp
  show ?thesis
  proof
    assume "div_ceil a b \<le> n"
    then show "a \<le> n * b"
    proof (cases "a mod b > 0")
      case True
      with \<open>div_ceil a b \<le> n\<close> have "Suc (a div b) \<le> n" by (simp add: div_ceil_def)
      then have "(a div b + 1) * b \<le> n * b" by (metis Suc_eq_plus1 mult_le_mono1)
      moreover have "a mod b < b" using b by simp
      ultimately show ?thesis using a by (metis (no_types) add.commute add_mult_distrib le_trans less_or_eq_imp_le mult_1 nat_add_left_cancel_le)
    next
      case False
      with \<open>div_ceil a b \<le> n\<close> have "a div b \<le> n" by (simp add: div_ceil_def)
      with False a show ?thesis by (metis add_cancel_left_right gr0I mult_le_mono1)
    qed
  next
    assume le: "a \<le> n * b"
    show "div_ceil a b \<le> n"
    proof (cases "a mod b > 0")
      case True
      have "a div b < n"
      proof (rule ccontr)
        assume "\<not> a div b < n"
        then have "n * b \<le> a div b * b" by simp
        with le a True show False by linarith
      qed
      with True show ?thesis by (simp add: div_ceil_def)
    next
      case False
      have "a div b \<le> n * b div b" using le by (rule div_le_mono)
      with False b show ?thesis by (simp add: div_ceil_def)
    qed
  qed
qed

section \<open>Addresses\<close>

datatype address_family = AddrAuto | AddrIpv4 | AddrIpv6

datatype ip_addr = V4 "32 word" | V6 "128 word"

definition is_ipv4 :: "ip_addr \<Rightarrow> bool" where
  "is_ipv4 a = (case a of V4 _ \<Rightarrow> True | V6 _ \<Rightarrow> False)"

definition is_ipv6 :: "ip_addr \<Rightarrow> bool" where
  "is_ipv6 a = (case a of V4 _ \<Rightarrow> False | V6 _ \<Rightarrow> True)"

fun family_name :: "address_family \<Rightarrow> string" where
  "family_name AddrAuto = ''auto''"
| "family_name AddrIpv4 = ''ipv4''"
| "family_name AddrIpv6 = ''ipv6''"

fun family_admits :: "address_family \<Rightarrow> ip_addr \<Rightarrow> bool" where
  "family_admits AddrAuto a = True"
| "family_admits AddrIpv4 a = is_ipv4 a"
| "family_admits AddrIpv6 a = is_ipv6 a"

definition family_keep :: "address_family \<Rightarrow> ip_addr list \<Rightarrow> ip_addr list" where
  "family_keep f resolved =
     (let ipv4 = (case f of AddrIpv4 \<Rightarrow> True | AddrIpv6 \<Rightarrow> False | AddrAuto \<Rightarrow> list_ex is_ipv4 resolved) in
      filter (\<lambda>a. is_ipv4 a = ipv4) resolved)"

definition family_from_str :: "ustr \<Rightarrow> ustr + address_family" where
  "family_from_str raw =
     (if raw = codes ''auto'' then Inr AddrAuto
      else if raw = codes ''ipv4'' then Inr AddrIpv4
      else if raw = codes ''ipv6'' then Inr AddrIpv6
      else Inl raw)"

section \<open>Properties\<close>

text \<open>C30: a plan is taken as an anchor's plan exactly when it computes that metric alone, the
  metric declares an anchor, nothing is grouped by, no filter was asked for, the bucket is the
  coarsest grain the metric declares and the range is the anchor's own; and it is taken as it is.\<close>
theorem anchor_plan_exact:
  "anchor_plan_of p pinned metric = Inr r \<longleftrightarrow> r = p
     \<and> (\<exists>pm x a. ne_iter (qp_measures p) = [pm] \<and> pm_metric pm = metric
        \<and> bt_get (defs_metrics pinned) metric = Some x \<and> met_anchor x = Some a
        \<and> qp_keys p = [] \<and> (\<forall>f \<in> set (qp_filters p). pf_origin f = OriginDefinition)
        \<and> pb_grain (qp_bucket p) \<in> set (met_grains x) \<and> (\<forall>g \<in> set (met_grains x). g \<le> pb_grain (qp_bucket p))
        \<and> qp_range p = anchor_range a)"
proof -
  obtain h t where m: "qp_measures p = NonEmpty h t" by (cases "qp_measures p")
  have one: "ne_len (NonEmpty h t) = Suc 0 \<longleftrightarrow> t = []"
    by (cases t) (simp_all add: ne_len_def sat_add_usize_def usize_max_def)
  have origin: "f \<noteq> OriginRequested \<longleftrightarrow> f = OriginDefinition" for f by (cases f) simp_all
  show ?thesis
    unfolding anchor_plan_of_def m
    by (auto simp: one ne_iter_def bind_res_eq_Inr ok_or_eq_Inr Let_def list_ex_iff coarsest_grain_eq origin
        split: if_splits)
qed

definition sample_plan :: "name \<Rightarrow> query_plan" where
  "sample_plan metric = query_plan_new ''s'' metric (tables_only \<lparr>qt_qualifier = None, qt_table = ''t''\<rparr>)
     \<lparr>pb_label = label_bucket, pb_grain = Day, pb_column = \<lparr>pcol_table = ''t'', pcol_column = ''d''\<rparr>\<rparr> []
     (PlanSimple (PlanCountIf \<lparr>pcol_table = ''t'', pcol_column = ''n''\<rparr>)) (label_measure metric) bindings_none
     \<lparr>range_start = Date 2024 1 1, range_end = Date 2024 1 2\<rparr>"

theorem anchor_plan_exact_witness:
  "anchor_plan_of (sample_plan ''m'')
     \<lparr>defs_models = [], defs_relationships = [], defs_metrics = [(''m'', (sample_metric ''x'')
        \<lparr>met_anchor := Some \<lparr>anchor_range = qp_range (sample_plan ''m''), anchor_value = []\<rparr>\<rparr>)]\<rparr> ''m''
     = Inr (sample_plan ''m'')"
  using anchor_plan_exact [of "sample_plan ''m''" "\<lparr>defs_models = [], defs_relationships = [],
      defs_metrics = [(''m'', (sample_metric ''x'')
        \<lparr>met_anchor := Some \<lparr>anchor_range = qp_range (sample_plan ''m''), anchor_value = []\<rparr>\<rparr>)]\<rparr>" "''m''" "sample_plan ''m''"]
  by (simp add: sample_metric_def) (simp add: sample_plan_def query_plan_new_def with_measures_def bindings_none_def
      Let_def ne_one_def ne_iter_def)

text \<open>Plans are stacked exactly when none carries a top, all have the first one's source, keys,
  bucket and range, and no two project a measure under one label; the parameters of the whole are
  then those of the arms in order, and when each arm's own labels are distinct so are all the columns.\<close>
theorem stacked_plan_exact:
  "(stacked_plan_new first second rest = Inr s \<longleftrightarrow>
      (\<forall>a \<in> set (first # second # rest). qp_top a = None \<and> same_frame first a)
      \<and> sorted_wrt (\<lambda>a b. set (measure_labels a) \<inter> set (measure_labels b) = {}) (first # second # rest)
      \<and> s = \<lparr>sp_arms = NonEmpty first (second # rest),
             sp_params = qp_params first @ qp_params second @ concat (map qp_params rest), sp_top = None\<rparr>)
   \<and> (stacked_plan_new first second rest = Inr s
      \<and> (\<forall>a \<in> set (first # second # rest). distinct (result_labels a))
      \<longrightarrow> distinct (stacked_result_labels s))"
proof -
  let ?every = "first # second # rest"
  have exact: "stacked_plan_new first second rest = Inr s \<longleftrightarrow>
      (\<forall>a \<in> set ?every. qp_top a = None \<and> same_frame first a)
      \<and> sorted_wrt (\<lambda>a b. set (measure_labels a) \<inter> set (measure_labels b) = {}) ?every
      \<and> s = \<lparr>sp_arms = NonEmpty first (second # rest),
             sp_params = qp_params first @ qp_params second @ concat (map qp_params rest), sp_top = None\<rparr>"
    unfolding stacked_plan_new_def Let_def bind_res_eq_Inr check_stacked_ok by (auto simp del: sorted_wrt.simps)
  have labels: "result_labels p = key_labels p @ label_str (pb_label (qp_bucket p)) # measure_labels p" for p
    by (simp add: result_labels_def key_labels_def measure_labels_def)
  have apart: "distinct (concat (map measure_labels ps))"
    if "sorted_wrt (\<lambda>a b. set (measure_labels a) \<inter> set (measure_labels b) = {}) ps"
      and "\<forall>a \<in> set ps. distinct (measure_labels a)" for ps
    using that by (induction ps) auto
  have "distinct (stacked_result_labels s)"
    if "stacked_plan_new first second rest = Inr s" and d: "\<forall>a \<in> set ?every. distinct (result_labels a)"
  proof -
    from that(1) exact have frame: "\<forall>a \<in> set ?every. same_frame first a"
      and w: "sorted_wrt (\<lambda>a b. set (measure_labels a) \<inter> set (measure_labels b) = {}) ?every"
      and s: "sp_arms s = NonEmpty first (second # rest)" by auto
    from d have "\<forall>a \<in> set ?every. distinct (measure_labels a)"
      and keys: "\<forall>a \<in> set ?every. set (key_labels a) \<inter> set (measure_labels a) = {}
        \<and> label_str (pb_label (qp_bucket a)) \<notin> set (measure_labels a)"
      by (auto simp: labels)
    then have "distinct (concat (map measure_labels ?every))" using apart [OF w] by blast
    moreover from keys frame have "\<forall>a \<in> set ?every. set (key_labels first) \<inter> set (measure_labels a) = {}
        \<and> label_str (pb_label (qp_bucket first)) \<notin> set (measure_labels a)"
      by (auto simp: same_frame_def)
    ultimately show ?thesis using d
      by (auto simp: stacked_result_labels_def s ne_iter_def labels)
  qed
  with exact show ?thesis by blast
qed

theorem stacked_plan_exact_witness:
  "\<exists>s. stacked_plan_new (sample_plan ''m'') (sample_plan ''n'') [] = Inr s \<and> distinct (stacked_result_labels s)"
proof -
  let ?s = "\<lparr>sp_arms = NonEmpty (sample_plan ''m'') [sample_plan ''n''], sp_params = [], sp_top = None\<rparr>"
  have eval: "measure_labels (sample_plan k) = [k]" "result_labels (sample_plan k) = [''period'', k]"
    "qp_params (sample_plan k) = []" "qp_top (sample_plan k) = None" "same_frame (sample_plan k) (sample_plan l)" for k l
    by (simp_all add: sample_plan_def query_plan_new_def with_measures_def measure_labels_def result_labels_def
        same_frame_def key_labels_def label_measure_def label_bucket_def TIME_BUCKET_LABEL_def bindings_none_def
        Let_def ne_one_def ne_iter_def tables_only_def)
  have "stacked_plan_new (sample_plan ''m'') (sample_plan ''n'') [] = Inr ?s"
    using stacked_plan_exact [of "sample_plan ''m''" "sample_plan ''n''" "[]" ?s] by (simp add: eval)
  with stacked_plan_exact [of "sample_plan ''m''" "sample_plan ''n''" "[]" ?s] show ?thesis by (auto simp: eval)
qed

text \<open>C31: a leg over the byte threshold is split into the least number of partitions, at least one,
  that keeps each within the per-stream bound, and is refused exactly when no number of partitions the
  ready workers allow would.\<close>
theorem split_decide_least:
  assumes "0 < per_stream_bound" and "0 < ready_workers"
  shows "case split_decide bytes rows above_bytes per_stream_bound ready_workers of
      SplitWhole \<Rightarrow> bytes \<le> above_bytes
    | SplitInto n \<Rightarrow> above_bytes < bytes \<and> 1 \<le> n \<and> n \<le> ready_workers \<and> rows \<le> n * per_stream_bound
        \<and> (\<forall>k. 1 \<le> k \<and> rows \<le> k * per_stream_bound \<longrightarrow> n \<le> k)
    | SplitRefused r b w \<Rightarrow> above_bytes < bytes \<and> r = rows \<and> b = per_stream_bound \<and> w = ready_workers
        \<and> (\<forall>k. k \<le> ready_workers \<longrightarrow> k * per_stream_bound < rows)"
proof -
  let ?n = "max (div_ceil rows per_stream_bound) 1"
  have least: "?n \<le> k \<longleftrightarrow> 1 \<le> k \<and> rows \<le> k * per_stream_bound" for k
    using div_ceil_least [OF assms(1), of rows k] by auto
  have none: "k * per_stream_bound < rows" if "ready_workers < ?n" "k \<le> ready_workers" for k
  proof (cases "k = 0")
    case True
    with that assms(2) have "1 < div_ceil rows per_stream_bound" by linarith
    then have "\<not> div_ceil rows per_stream_bound \<le> 0" by simp
    then show ?thesis using True div_ceil_least [OF assms(1), of rows 0] by simp
  next
    case False
    with that least [of k] show ?thesis by linarith
  qed
  consider "bytes \<le> above_bytes" | "above_bytes < bytes" "ready_workers < ?n" | "above_bytes < bytes" "?n \<le> ready_workers"
    by linarith
  then show ?thesis
  proof cases
    case 2
    then show ?thesis using none [OF 2(2)] by (simp add: split_decide_def Let_def)
  next
    case 3
    have "1 \<le> ?n" "rows \<le> ?n * per_stream_bound" using least [of ?n] by simp_all
    moreover have "\<forall>k. 1 \<le> k \<and> rows \<le> k * per_stream_bound \<longrightarrow> ?n \<le> k" using least by blast
    moreover have "split_decide bytes rows above_bytes per_stream_bound ready_workers = SplitInto ?n"
      using 3 by (simp add: split_decide_def Let_def not_le [symmetric] del: max.bounded_iff)
    ultimately show ?thesis using 3 by (simp del: max.bounded_iff)
  qed (simp add: split_decide_def)
qed

theorem split_decide_least_witness: "split_decide 10 25 5 10 4 = SplitInto 3 \<and> (25::nat) \<le> 3 * 10"
  using split_decide_least [of 10 4 10 25 5] by (simp add: split_decide_def div_ceil_def)

text \<open>Of the addresses a name resolves to, the ones kept are all of one family, one the setting
  admits, in the order they came; without a preference every IPv4 address is kept when there is one and
  every address when there is none; and a family is read back from its own name.\<close>
theorem family_keep_exact:
  "(\<forall>a \<in> set (family_keep f as). a \<in> set as \<and> family_admits f a)
   \<and> (\<forall>a \<in> set (family_keep f as). \<forall>b \<in> set (family_keep f as). is_ipv4 a = is_ipv4 b)
   \<and> (f \<noteq> AddrAuto \<longrightarrow> family_keep f as = filter (family_admits f) as)
   \<and> (f = AddrAuto \<longrightarrow> family_keep f as = (if list_ex is_ipv4 as then filter is_ipv4 as else as))
   \<and> family_from_str (codes (family_name f)) = Inr f"
proof (intro conjI)
  have six: "is_ipv6 a \<longleftrightarrow> \<not> is_ipv4 a" for a by (simp add: is_ipv6_def is_ipv4_def split: ip_addr.split)
  show "\<forall>a \<in> set (family_keep f as). a \<in> set as \<and> family_admits f a"
    by (cases f) (auto simp: family_keep_def six)
  show "\<forall>a \<in> set (family_keep f as). \<forall>b \<in> set (family_keep f as). is_ipv4 a = is_ipv4 b"
    by (auto simp: family_keep_def Let_def)
  show "f \<noteq> AddrAuto \<longrightarrow> family_keep f as = filter (family_admits f) as"
    by (cases f) (auto simp: family_keep_def six intro!: filter_cong)
  show "f = AddrAuto \<longrightarrow> family_keep f as = (if list_ex is_ipv4 as then filter is_ipv4 as else as)"
    by (auto simp: family_keep_def list_ex_iff)
  show "family_from_str (codes (family_name f)) = Inr f"
    by (cases f) (simp_all add: family_from_str_def)
qed

theorem family_keep_exact_witness: "family_keep AddrAuto [V6 1, V4 7] = [V4 7]"
  using family_keep_exact [of AddrAuto "[V6 1, V4 7]"] by (simp add: is_ipv4_def)

end
