(* ===== verification/Legs.thy ===== *)
theory Legs
  imports Shapes Federation
begin

text \<open>
  The legs of a federated plan: \<open>plan/leg.rs\<close>, \<open>plan/federated/lookup.rs\<close>,
  \<open>plan/federated.rs\<close>, the assignment and execution of \<open>plan/federated/combiner.rs\<close>, and
  \<open>plan/drill_across.rs\<close> with its merge. A fact leg computes terms over groups, lookup legs join
  onto it or onto an earlier lookup by internal link labels, and a combiner, an argument here, puts the
  results together. The lemmas say what the constructors accept, that the joins form a tree rooted at
  the fact leg, and that results reach the combiner in the places their legs have.
\<close>

section \<open>Legs\<close>

record metric_digest =
  md_metric :: name
  md_digest :: string

record leg_term =
  lt_term :: plan_term
  lt_label :: result_label

datatype leg_plan =
    LegFact (lp_source: name) (lp_metric: metric_digest) (lp_tables: statement_tables)
      (fl_bucket: plan_bucket) (lp_keys: "plan_key list") (fl_terms: "leg_term list")
      (lp_bindings: plan_bindings) (fl_range: time_range)
  | LegLookup (lp_source: name) (lp_metric: metric_digest) (lp_tables: statement_tables)
      (lp_keys: "plan_key list") (lp_bindings: plan_bindings)

fun lp_terms :: "leg_plan \<Rightarrow> leg_term list" where
  "lp_terms (LegFact _ _ _ _ _ terms _ _) = terms"
| "lp_terms (LegLookup _ _ _ _ _) = []"

definition lp_filters :: "leg_plan \<Rightarrow> plan_filter list" where
  "lp_filters leg = pbs_filters (lp_bindings leg)"

definition lp_params :: "leg_plan \<Rightarrow> param_value list" where
  "lp_params leg = pbs_params (lp_bindings leg)"

definition lp_key_labels :: "leg_plan \<Rightarrow> string list" where
  "lp_key_labels leg = map (\<lambda>k. label_str (pkey_label k)) (lp_keys leg)"

definition lp_result_labels :: "leg_plan \<Rightarrow> string list" where
  "lp_result_labels leg =
     lp_key_labels leg
     @ (case leg of
          LegFact _ _ _ bucket _ terms _ _ \<Rightarrow>
            label_str (pb_label bucket) # map (\<lambda>t. label_str (lt_label t)) terms
        | LegLookup _ _ _ _ _ \<Rightarrow> [])"

datatype executable = ExecQuery query_plan | ExecLeg leg_plan | ExecStacked stacked_plan

fun exec_row_limit :: "executable \<Rightarrow> nat option" where
  "exec_row_limit (ExecQuery p) = Some (unat (row_limit p))"
| "exec_row_limit (ExecStacked p) = Some (unat (stacked_row_limit p))"
| "exec_row_limit (ExecLeg _) = None"

fun exec_source :: "executable \<Rightarrow> name" where
  "exec_source (ExecQuery p) = qp_source p"
| "exec_source (ExecLeg leg) = lp_source leg"
| "exec_source (ExecStacked p) = stacked_source p"

fun exec_params :: "executable \<Rightarrow> param_value list" where
  "exec_params (ExecQuery p) = qp_params p"
| "exec_params (ExecLeg leg) = lp_params leg"
| "exec_params (ExecStacked p) = sp_params p"

fun exec_result_labels :: "executable \<Rightarrow> string list" where
  "exec_result_labels (ExecQuery p) = result_labels p"
| "exec_result_labels (ExecLeg leg) = lp_result_labels leg"
| "exec_result_labels (ExecStacked p) = stacked_result_labels p"

section \<open>Lookup legs\<close>

datatype leg_at = AtFact | AtLookup nat

record lookup_leg =
  ll_leg :: leg_plan
  ll_onto :: leg_at
  ll_include_unmatched :: bool

definition onto_fact :: "leg_plan \<Rightarrow> bool \<Rightarrow> lookup_leg" where
  "onto_fact leg unmatched = \<lparr>ll_leg = leg, ll_onto = AtFact, ll_include_unmatched = unmatched\<rparr>"

definition onto_lookup :: "leg_plan \<Rightarrow> nat \<Rightarrow> bool \<Rightarrow> lookup_leg" where
  "onto_lookup leg earlier unmatched =
     \<lparr>ll_leg = leg, ll_onto = AtLookup earlier, ll_include_unmatched = unmatched\<rparr>"

datatype lookup_legs_error = LookupLegCount nat | NotOntoAnEarlierLeg nat

definition onto_not_earlier :: "nat \<times> lookup_leg \<Rightarrow> bool" where
  "onto_not_earlier = (\<lambda>(pos, leg). case ll_onto leg of AtFact \<Rightarrow> False | AtLookup onto \<Rightarrow> onto \<ge> pos)"

definition lookup_legs_parse :: "lookup_leg list \<Rightarrow> lookup_legs_error + lookup_leg list" where
  "lookup_legs_parse legs =
     (if legs = [] \<or> length legs > MAX_LOOKUP_LEGS then Inl (LookupLegCount (length legs))
      else (case List.find onto_not_earlier (enumerated legs) of
         Some (pos, _) \<Rightarrow> Inl (NotOntoAnEarlierLeg pos)
       | None \<Rightarrow> Inr legs))"

definition lookup_legs_one :: "leg_plan \<Rightarrow> bool \<Rightarrow> lookup_leg list" where
  "lookup_legs_one leg unmatched = [onto_fact leg unmatched]"

section \<open>Federated plans\<close>

definition fed_labels :: "federation \<Rightarrow> internal_label list" where
  "fed_labels f = map Leaf [0..<length (fed_carried f)]"

record answer_key =
  ak_side :: leg_at
  ak_label :: result_label

record federated_plan =
  fp_metric :: name
  fp_measure_label :: result_label
  fp_bucket :: plan_bucket
  fp_fact :: leg_plan
  fp_second_fact :: "leg_plan option"
  fp_lookups :: "lookup_leg list"
  fp_federation :: federation
  fp_keys :: "answer_key list"
  fp_top :: "top option"
  fp_link_comparison :: "link_kind option"

datatype federated_plan_error =
    FedNotFact name
  | FedNotLookup name
  | FedSameSource name
  | FedKeyNotOnLeg leg_at string
  | FedBucketMismatch
  | FedTermsDoNotMatch
  | FactsShareNoKey
  | FactKeyNotShared string
  | LinkPartNotOnLookup leg_at string
  | FedLookups lookup_legs_error

definition link_text :: "nat \<Rightarrow> nat \<Rightarrow> string" where
  "link_text leg part = internal_text (Link leg part)"

definition leg_has_key :: "leg_plan \<Rightarrow> string \<Rightarrow> bool" where
  "leg_has_key leg l \<longleftrightarrow> l \<in> set (lp_key_labels leg)"

definition link_parts :: "leg_plan \<Rightarrow> nat \<Rightarrow> nat" where
  "link_parts leg position =
     length (takeWhile (\<lambda>part. leg_has_key leg (link_text position part)) [0..<length (lp_keys leg)])"

definition lookup_links :: "lookup_leg list \<Rightarrow> nat \<Rightarrow> string list" where
  "lookup_links lookups leg =
     (if leg < length lookups
      then map (link_text leg) [0..<link_parts (ll_leg (lookups ! leg)) leg] else [])"

definition fact_links :: "lookup_leg list \<Rightarrow> string list" where
  "fact_links lookups =
     concat (map (\<lambda>(position, _). lookup_links lookups position)
       (filter (\<lambda>(_, l). ll_onto l = AtFact) (enumerated lookups)))"

definition leg_standing_at :: "leg_plan \<Rightarrow> lookup_leg list \<Rightarrow> leg_at \<Rightarrow> leg_plan option" where
  "leg_standing_at base lookups side =
     (case side of
        AtFact \<Rightarrow> Some base
      | AtLookup position \<Rightarrow> if position < length lookups then Some (ll_leg (lookups ! position)) else None)"

definition check_link_side :: "nat \<Rightarrow> nat \<Rightarrow> leg_at \<times> leg_plan \<Rightarrow> federated_plan_error + unit" where
  "check_link_side position parts = (\<lambda>(side, on).
     case List.find (\<lambda>l. \<not> leg_has_key on l) (map (link_text position) [0..<parts]) of
       Some l \<Rightarrow> Inl (FedKeyNotOnLeg side l)
     | None \<Rightarrow>
         (case List.find (\<lambda>l. is_link_of position (codes l) \<and> l \<notin> set (map (link_text position) [0..<parts]))
             (lp_key_labels on) of
            Some l \<Rightarrow> Inl (LinkPartNotOnLookup side l)
          | None \<Rightarrow> Inr ()))"

definition check_lookup :: "leg_plan \<Rightarrow> lookup_leg list \<Rightarrow> nat \<times> lookup_leg \<Rightarrow> federated_plan_error + unit" where
  "check_lookup base lookups = (\<lambda>(position, lookup).
     let leg = ll_leg lookup in
     bind_res (ensure (\<not> is_LegFact leg) (FedNotLookup (lp_source leg))) (\<lambda>_.
     bind_res (ok_or (FedNotLookup (lp_source leg)) (leg_standing_at base lookups (ll_onto lookup))) (\<lambda>onto.
     bind_res (ensure (lp_source onto \<noteq> lp_source leg) (FedSameSource (lp_source leg))) (\<lambda>_.
       each_ok (check_link_side position (max (link_parts leg position) 1))
         [(AtLookup position, leg), (ll_onto lookup, onto)]))))"

definition check_second_fact ::
  "leg_plan \<Rightarrow> string list \<Rightarrow> leg_plan option \<Rightarrow> federated_plan_error + unit" where
  "check_second_fact base links second_fact =
     (case second_fact of
        None \<Rightarrow> Inr ()
      | Some second \<Rightarrow>
          bind_res (ensure (is_LegFact second) (FedNotFact (lp_source second))) (\<lambda>_.
          bind_res (ensure (\<exists>l \<in> set (lp_key_labels base). l \<in> set (lp_key_labels second)) FactsShareNoKey) (\<lambda>_.
          case List.find (\<lambda>l. \<not> leg_has_key second l) links of
            Some l \<Rightarrow> Inl (FedKeyNotOnLeg AtFact l)
          | None \<Rightarrow>
              (case List.find (\<lambda>l. l \<notin> set links) (lp_key_labels base @ lp_key_labels second) of
                 Some extra \<Rightarrow> Inl (FactKeyNotShared extra)
               | None \<Rightarrow> Inr ()))))"

definition check_answer_key :: "leg_plan \<Rightarrow> lookup_leg list \<Rightarrow> answer_key \<Rightarrow> federated_plan_error + unit" where
  "check_answer_key base lookups key =
     (case leg_standing_at base lookups (ak_side key) of
        None \<Rightarrow> Inl (FedKeyNotOnLeg (ak_side key) (label_str (ak_label key)))
      | Some leg \<Rightarrow> ensure (leg_has_key leg (label_str (ak_label key)))
          (FedKeyNotOnLeg (ak_side key) (label_str (ak_label key))))"

definition term_labels :: "leg_term list \<Rightarrow> string list" where
  "term_labels terms = map (\<lambda>t. label_str (lt_label t)) terms"

definition first_leaves :: "federation \<Rightarrow> (carried \<times> internal_label) list" where
  "first_leaves f = filter (\<lambda>(leaf, _). carried_model leaf = None) (zip (fed_carried f) (fed_labels f))"

definition second_leaves :: "federation \<Rightarrow> (carried \<times> internal_label) list" where
  "second_leaves f = filter (\<lambda>(leaf, _). carried_model leaf \<noteq> None) (zip (fed_carried f) (fed_labels f))"

definition first_expected :: "federation \<Rightarrow> string list" where
  "first_expected f = map (\<lambda>(_, l). internal_text l) (filter (\<lambda>(leaf, _). \<not> is_pulled_up leaf) (first_leaves f))"

definition second_expected :: "federation \<Rightarrow> string list" where
  "second_expected f = map (\<lambda>(_, l). internal_text l) (second_leaves f)"

definition check_terms ::
  "leg_plan \<Rightarrow> leg_plan option \<Rightarrow> plan_bucket \<Rightarrow> federation \<Rightarrow> federated_plan_error + unit" where
  "check_terms base second_fact bucket f =
     (if (second_fact = None \<and> second_leaves f \<noteq> []) \<or> (\<exists>(leaf, _) \<in> set (second_leaves f). is_pulled_up leaf)
      then Inl FedTermsDoNotMatch
      else
        bind_res (each_ok (\<lambda>(_, l). ensure (leg_has_key base (internal_text l)) (FedKeyNotOnLeg AtFact (internal_text l)))
          (filter (\<lambda>(leaf, _). is_pulled_up leaf) (first_leaves f))) (\<lambda>_.
        bind_res (ensure (term_labels (lp_terms base) = first_expected f) FedTermsDoNotMatch) (\<lambda>_.
        case second_fact of
          None \<Rightarrow> Inr ()
        | Some second \<Rightarrow>
            (case second of
               LegLookup _ _ _ _ _ \<Rightarrow> Inl (FedNotFact (lp_source second))
             | LegFact _ _ _ second_bucket _ second_terms _ _ \<Rightarrow>
                 bind_res (ensure (on_the_axis_of second_bucket bucket) FedBucketMismatch) (\<lambda>_.
                   ensure (term_labels second_terms = second_expected f) FedTermsDoNotMatch)))))"

definition federated_plan_new ::
  "name \<Rightarrow> result_label \<Rightarrow> plan_bucket \<Rightarrow> leg_plan \<Rightarrow> leg_plan option \<Rightarrow> lookup_leg list \<Rightarrow> federation
     \<Rightarrow> answer_key list \<Rightarrow> federated_plan_error + federated_plan" where
  "federated_plan_new metric measure_label bucket base second_fact lookups f keys =
     bind_res (ensure (is_LegFact base) (FedNotFact (lp_source base))) (\<lambda>_.
     bind_res (each_ok (check_lookup base lookups) (enumerated lookups)) (\<lambda>_.
     bind_res (check_second_fact base (fact_links lookups) second_fact) (\<lambda>_.
     bind_res (each_ok (check_answer_key base lookups) keys) (\<lambda>_.
     bind_res (ensure (fl_bucket base = bucket) FedBucketMismatch) (\<lambda>_.
     bind_res (check_terms base second_fact bucket f) (\<lambda>_.
       Inr \<lparr>fp_metric = metric, fp_measure_label = measure_label, fp_bucket = bucket, fp_fact = base,
         fp_second_fact = second_fact, fp_lookups = lookups, fp_federation = f, fp_keys = keys,
         fp_top = None, fp_link_comparison = None\<rparr>))))))"

definition fed_with_top :: "top \<Rightarrow> federated_plan \<Rightarrow> federated_plan" where
  "fed_with_top t p = p\<lparr>fp_top := Some t\<rparr>"

definition with_link_comparison :: "link_kind option \<Rightarrow> federated_plan \<Rightarrow> federated_plan" where
  "with_link_comparison k p = p\<lparr>fp_link_comparison := k\<rparr>"

definition fed_legs :: "federated_plan \<Rightarrow> leg_plan list" where
  "fed_legs p = fp_fact p # (case fp_second_fact p of None \<Rightarrow> [] | Some s \<Rightarrow> [s]) @ map ll_leg (fp_lookups p)"

definition fed_sources :: "federated_plan \<Rightarrow> name list" where
  "fed_sources p = map lp_source (fed_legs p)"

section \<open>Running the legs\<close>

text \<open>
  Batches of rows are a type argument, and so is a granted read. The runner of a leg and the combiner
  are arguments: the code has them behind traits. A runner is a function of the leg, so the threads the
  lookup legs run on cannot be told from running them in order.
\<close>

datatype leg_side = SideFact | SideLookup

record 'b leg_result =
  lr_side :: leg_side
  lr_batches :: 'b

definition side_of :: "leg_plan \<Rightarrow> leg_side" where
  "side_of leg = (case leg of LegFact _ _ _ _ _ _ _ _ \<Rightarrow> SideFact | LegLookup _ _ _ _ _ \<Rightarrow> SideLookup)"

definition leg_result_of :: "leg_plan \<Rightarrow> 'b \<Rightarrow> 'b leg_result" where
  "leg_result_of leg batches = \<lparr>lr_side = side_of leg, lr_batches = batches\<rparr>"

datatype ('b, 'g) lookup_read = ReadRows "'b list" | ReadGranted 'g

definition read_is_empty :: "('b, 'g) lookup_read \<Rightarrow> bool" where
  "read_is_empty r = (case r of ReadRows parts \<Rightarrow> parts = [] | ReadGranted _ \<Rightarrow> False)"

datatype ('b, 'g) looked = LookedRows "'b list" | LookedGranted 'g

definition looked_read :: "('b, 'g) looked \<Rightarrow> ('b, 'g) lookup_read" where
  "looked_read l = (case l of LookedRows parts \<Rightarrow> ReadRows parts | LookedGranted g \<Rightarrow> ReadGranted g)"

record ('b, 'g) legs =
  lg_fact :: 'b
  lg_second :: "'b option"
  lg_lookups :: "(lookup_leg \<times> ('b, 'g) lookup_read) list"

datatype legs_miswired = MiswiredCount nat nat | MiswiredSide leg_side leg_side | MiswiredNoPartition

datatype link_cast = CastUndeclared | CastDeclared

definition link_cast_of :: "federated_plan \<Rightarrow> nat \<Rightarrow> link_cast" where
  "link_cast_of p position =
     (if position = 0 \<and> fp_link_comparison p \<noteq> None then CastDeclared else CastUndeclared)"

definition legs_assign :: "federated_plan \<Rightarrow> 'b leg_result list \<Rightarrow> legs_miswired + ('b, 'g) legs" where
  "legs_assign p results =
     (let run = fed_legs p in
      if length run \<noteq> length results then Inl (MiswiredCount (length run) (length results))
      else (case List.find (\<lambda>(leg, r). side_of leg \<noteq> lr_side r) (zip run results) of
         Some (leg, r) \<Rightarrow> Inl (MiswiredSide (side_of leg) (lr_side r))
       | None \<Rightarrow>
           (let k = length results - length (fp_lookups p) in
            case take k results of
              [] \<Rightarrow> Inl (MiswiredCount (length run) (length results))
            | base # second \<Rightarrow>
                Inr \<lparr>lg_fact = lr_batches base,
                  lg_second = (case second of [] \<Rightarrow> None | s # _ \<Rightarrow> Some (lr_batches s)),
                  lg_lookups = zip (fp_lookups p) (map (\<lambda>r. ReadRows [lr_batches r]) (drop k results))\<rparr>)))"

datatype ('l, 'c) execute_error = LegFailed 'l | Miswired legs_miswired | CombineFailed 'c

definition fed_execute ::
  "(leg_plan \<Rightarrow> 'l + 'b) \<Rightarrow> (leg_plan \<Rightarrow> link_cast \<Rightarrow> 'l + ('b, 'g) looked)
     \<Rightarrow> (federated_plan \<Rightarrow> ('b, 'g) legs \<Rightarrow> nat \<Rightarrow> 'c + 'b) \<Rightarrow> federated_plan \<Rightarrow> nat
     \<Rightarrow> ('l, 'c) execute_error + 'b" where
  "fed_execute run lookup combine p working_set_bytes =
     (let looked_up = map (\<lambda>(position, l). lookup (ll_leg l) (link_cast_of p position)) (enumerated (fp_lookups p)) in
      bind_res (map_err LegFailed (run (fp_fact p))) (\<lambda>base.
      bind_res (map_err LegFailed (traverse (\<lambda>l. l) looked_up)) (\<lambda>looked_up.
      let lookups = zip (fp_lookups p) (map looked_read looked_up) in
      if list_ex (\<lambda>(_, r). read_is_empty r) lookups then Inl (Miswired MiswiredNoPartition)
      else
        bind_res
          (case fp_second_fact p of
             None \<Rightarrow> Inr None
           | Some leg \<Rightarrow> map_err LegFailed (map_res Some (run leg))) (\<lambda>second.
          map_err CombineFailed
            (combine p \<lparr>lg_fact = base, lg_second = second, lg_lookups = lookups\<rparr> working_set_bytes)))))"

section \<open>Drilling across\<close>

record local_arm =
  la_metric :: name
  la_measure_label :: result_label
  la_bucket :: plan_bucket
  la_fact :: leg_plan
  la_federation :: federation
  la_keys :: "result_label list"

datatype arm = ArmJoined federated_plan | ArmLocal local_arm

datatype drill_across_error =
    DrillNotFact name
  | DrillKeyNotOnLeg name string
  | DrillTermsDoNotMatch name
  | DrillArmCarriesTop name
  | DrillDuplicateMetric name
  | DrillKeysDiffer name
  | DrillBucketDiffers name
  | DrillRangeDiffers name
  | DrillTooManyLegs nat nat

definition local_arm_new :: "leg_plan \<Rightarrow> federation \<Rightarrow> result_label list \<Rightarrow> drill_across_error + local_arm" where
  "local_arm_new base f keys =
     (case base of
        LegLookup source _ _ _ _ \<Rightarrow> Inl (DrillNotFact source)
      | LegFact _ digest _ bucket _ terms _ _ \<Rightarrow>
          (let metric = md_metric digest;
               leaves = zip (fed_carried f) (fed_labels f);
               pulled_up = map (\<lambda>(_, l). internal_text l) (filter (\<lambda>(leaf, _). is_pulled_up leaf) leaves);
               terms_expected = map (\<lambda>(_, l). internal_text l) (filter (\<lambda>(leaf, _). \<not> is_pulled_up leaf) leaves) in
           if list_ex (\<lambda>leaf. carried_model leaf \<noteq> None) (fed_carried f) then Inl (DrillTermsDoNotMatch metric)
           else if term_labels terms \<noteq> terms_expected then Inl (DrillTermsDoNotMatch metric)
           else (case List.find (\<lambda>l. \<not> leg_has_key base l) (pulled_up @ map label_str keys) of
              Some l \<Rightarrow> Inl (DrillKeyNotOnLeg metric l)
            | None \<Rightarrow> Inr \<lparr>la_metric = metric, la_measure_label = label_measure metric, la_bucket = bucket,
                la_fact = base, la_federation = f, la_keys = keys\<rparr>)))"

fun arm_metric :: "arm \<Rightarrow> name" where
  "arm_metric (ArmJoined p) = fp_metric p"
| "arm_metric (ArmLocal a) = la_metric a"

fun arm_fact :: "arm \<Rightarrow> leg_plan" where
  "arm_fact (ArmJoined p) = fp_fact p"
| "arm_fact (ArmLocal a) = la_fact a"

fun arm_measure_label :: "arm \<Rightarrow> string" where
  "arm_measure_label (ArmJoined p) = label_str (fp_measure_label p)"
| "arm_measure_label (ArmLocal a) = label_str (la_measure_label a)"

fun arm_keys :: "arm \<Rightarrow> string list" where
  "arm_keys (ArmJoined p) = map (\<lambda>k. label_str (ak_label k)) (fp_keys p)"
| "arm_keys (ArmLocal a) = map label_str (la_keys a)"

fun arm_bucket :: "arm \<Rightarrow> plan_bucket" where
  "arm_bucket (ArmJoined p) = fp_bucket p"
| "arm_bucket (ArmLocal a) = la_bucket a"

fun arm_plan_legs :: "arm \<Rightarrow> leg_plan list" where
  "arm_plan_legs (ArmJoined p) = fed_legs p"
| "arm_plan_legs (ArmLocal a) = [la_fact a]"

fun arm_top :: "arm \<Rightarrow> top option" where
  "arm_top (ArmJoined p) = fp_top p"
| "arm_top (ArmLocal _) = None"

definition arm_ranges :: "arm \<Rightarrow> time_range list" where
  "arm_ranges a = map fl_range (filter is_LegFact (arm_plan_legs a))"

record drill_across_plan =
  dp_arms :: "arm nonempty"
  dp_top :: "top option"

definition check_arm ::
  "string list \<Rightarrow> plan_bucket \<Rightarrow> time_range option \<Rightarrow> arm list \<Rightarrow> arm \<Rightarrow> drill_across_error + unit" where
  "check_arm keys bucket rng earlier a =
     (let metric = arm_metric a in
      if arm_top a \<noteq> None then Inl (DrillArmCarriesTop metric)
      else if list_ex (\<lambda>e. arm_metric e = metric) earlier then Inl (DrillDuplicateMetric metric)
      else if arm_keys a \<noteq> keys then Inl (DrillKeysDiffer metric)
      else if (label_str (pb_label (arm_bucket a)), pb_grain (arm_bucket a)) \<noteq> (label_str (pb_label bucket), pb_grain bucket)
        then Inl (DrillBucketDiffers metric)
      else if list_ex (\<lambda>r. Some r \<noteq> rng) (arm_ranges a) then Inl (DrillRangeDiffers metric)
      else Inr ())"

fun check_arms ::
  "string list \<Rightarrow> plan_bucket \<Rightarrow> time_range option \<Rightarrow> arm list \<Rightarrow> arm list \<Rightarrow> drill_across_error + unit" where
  "check_arms keys bucket rng earlier [] = Inr ()"
| "check_arms keys bucket rng earlier (a # rest) =
     bind_res (check_arm keys bucket rng earlier a) (\<lambda>_. check_arms keys bucket rng (earlier @ [a]) rest)"

definition drill_across_new :: "arm \<Rightarrow> arm \<Rightarrow> arm list \<Rightarrow> drill_across_error + drill_across_plan" where
  "drill_across_new first second rest =
     (let every = first # second # rest;
          legs = sum_list (map (\<lambda>a. length (arm_plan_legs a)) every) in
      if legs > MAX_LEGS then Inl (DrillTooManyLegs legs MAX_LEGS)
      else
        bind_res (check_arms (arm_keys first) (arm_bucket first)
            (case arm_ranges first of [] \<Rightarrow> None | r # _ \<Rightarrow> Some r) [] every) (\<lambda>_.
          Inr \<lparr>dp_arms = NonEmpty first (second # rest), dp_top = None\<rparr>))"

definition drill_with_top :: "top \<Rightarrow> drill_across_plan \<Rightarrow> drill_across_plan" where
  "drill_with_top t p = p\<lparr>dp_top := Some t\<rparr>"

definition drill_legs :: "drill_across_plan \<Rightarrow> leg_plan list" where
  "drill_legs p = concat (map arm_plan_legs (ne_iter (dp_arms p)))"

definition drill_sources :: "drill_across_plan \<Rightarrow> name list" where
  "drill_sources p = map lp_source (drill_legs p)"

datatype ('b, 'g) arm_legs = JoinedLegs "('b, 'g) legs" | LocalLegs name 'b

definition assign_arm :: "arm \<Rightarrow> 'b leg_result list \<Rightarrow> legs_miswired + ('b, 'g) arm_legs" where
  "assign_arm a results =
     (case a of
        ArmJoined joined \<Rightarrow> map_res JoinedLegs (legs_assign joined results)
      | ArmLocal _ \<Rightarrow>
          (case results of
             [r] \<Rightarrow> Inr (LocalLegs (arm_metric a) (lr_batches r))
           | _ \<Rightarrow> Inl (MiswiredCount 1 (length results))))"

definition execute_across ::
  "(leg_plan \<Rightarrow> 'l + 'b) \<Rightarrow> (drill_across_plan \<Rightarrow> ('b, 'g) arm_legs list \<Rightarrow> nat \<Rightarrow> 'c + 'b)
     \<Rightarrow> drill_across_plan \<Rightarrow> nat \<Rightarrow> ('l, 'c) execute_error + 'b" where
  "execute_across run merge p working_set_bytes =
     bind_res (traverse (\<lambda>a. traverse (\<lambda>leg. map_err LegFailed (map_res (leg_result_of leg) (run leg)))
         (arm_plan_legs a)) (ne_iter (dp_arms p))) (\<lambda>held.
     bind_res (map_err Miswired (traverse (\<lambda>(a, results). assign_arm a results) (zip (ne_iter (dp_arms p)) held))) (\<lambda>arms.
       map_err CombineFailed (merge p arms working_set_bytes)))"

section \<open>Lookup legs form a tree\<close>

definition onto_earlier :: "lookup_leg list \<Rightarrow> bool" where
  "onto_earlier legs \<longleftrightarrow> (\<forall>i < length legs. \<forall>j. ll_onto (legs ! i) = AtLookup j \<longrightarrow> j < i)"

lemma lookup_legs_parse_ok:
  "lookup_legs_parse legs = Inr ls \<longleftrightarrow>
     ls = legs \<and> legs \<noteq> [] \<and> length legs \<le> 8 \<and> onto_earlier legs"
proof -
  have "List.find onto_not_earlier (enumerated legs) = None \<longleftrightarrow> onto_earlier legs"
    unfolding find_None_all ball_enumerated onto_not_earlier_def onto_earlier_def
    by (simp split: leg_at.split) (metis not_le leg_at.distinct(1) leg_at.inject leg_at.exhaust)
  then show ?thesis
    by (auto simp: lookup_legs_parse_def MAX_LOOKUP_LEGS_def split: option.splits)
qed

text \<open>Following the joins from a leg, at most so many steps, to the fact leg.\<close>

fun joins_to_fact :: "lookup_leg list \<Rightarrow> nat \<Rightarrow> leg_at \<Rightarrow> bool" where
  "joins_to_fact legs steps AtFact = True"
| "joins_to_fact legs 0 (AtLookup i) = False"
| "joins_to_fact legs (Suc steps) (AtLookup i) =
     (i < length legs \<and> joins_to_fact legs steps (ll_onto (legs ! i)))"

lemma joins_to_fact_mono: "joins_to_fact legs m side \<Longrightarrow> m \<le> n \<Longrightarrow> joins_to_fact legs n side"
proof (induction legs m side arbitrary: n rule: joins_to_fact.induct)
  case (3 legs steps i)
  then obtain k where "n = Suc k" "steps \<le> k" by (cases n) auto
  with 3 show ?case by simp
qed auto

lemma onto_earlier_joins:
  assumes "onto_earlier legs" and "i < length legs"
  shows "joins_to_fact legs (Suc i) (AtLookup i)"
  using assms(2)
proof (induction i rule: less_induct)
  case (less i)
  show ?case
  proof (cases "ll_onto (legs ! i)")
    case (AtLookup j)
    with less.prems assms(1) have "j < i" by (simp add: onto_earlier_def)
    with less have "joins_to_fact legs (Suc j) (AtLookup j)" by simp
    with \<open>j < i\<close> have "joins_to_fact legs i (AtLookup j)" by (elim joins_to_fact_mono) simp
    with AtLookup less.prems show ?thesis by simp
  qed (use less.prems in simp)
qed

section \<open>What a federated plan has\<close>

definition link_side_ok :: "nat \<Rightarrow> nat \<Rightarrow> leg_plan \<Rightarrow> bool" where
  "link_side_ok position parts on \<longleftrightarrow>
     (\<forall>part < parts. link_text position part \<in> set (lp_key_labels on))
     \<and> (\<forall>l \<in> set (lp_key_labels on). is_link_of position (codes l) \<longrightarrow> (\<exists>part < parts. l = link_text position part))"

lemma check_link_side_ok: "check_link_side position parts (side, on) = Inr () \<longleftrightarrow> link_side_ok position parts on"
proof -
  have "check_link_side position parts (side, on) = Inr () \<longleftrightarrow>
      List.find (\<lambda>l. \<not> leg_has_key on l) (map (link_text position) [0..<parts]) = None
      \<and> List.find (\<lambda>l. is_link_of position (codes l) \<and> l \<notin> set (map (link_text position) [0..<parts]))
          (lp_key_labels on) = None"
    by (simp add: check_link_side_def split: option.split)
  then show ?thesis
    unfolding find_None_all link_side_ok_def leg_has_key_def by (simp add: image_iff Bex_def Ball_def) blast
qed

definition lookup_ok :: "leg_plan \<Rightarrow> lookup_leg list \<Rightarrow> nat \<Rightarrow> lookup_leg \<Rightarrow> bool" where
  "lookup_ok base lookups position lookup \<longleftrightarrow>
     \<not> is_LegFact (ll_leg lookup)
     \<and> (\<exists>onto. leg_standing_at base lookups (ll_onto lookup) = Some onto
          \<and> lp_source onto \<noteq> lp_source (ll_leg lookup)
          \<and> (\<forall>on \<in> {ll_leg lookup, onto}.
               link_side_ok position (max (link_parts (ll_leg lookup) position) 1) on))"

lemma check_lookup_ok: "check_lookup base lookups (position, lookup) = Inr () \<longleftrightarrow> lookup_ok base lookups position lookup"
  by (auto simp: check_lookup_def lookup_ok_def Let_def bind_res_eq_Inr ensure_eq_Inr ok_or_eq_Inr check_link_side_ok)

definition second_fact_ok :: "leg_plan \<Rightarrow> string list \<Rightarrow> leg_plan \<Rightarrow> bool" where
  "second_fact_ok base links second \<longleftrightarrow> is_LegFact second
     \<and> set (lp_key_labels base) \<inter> set (lp_key_labels second) \<noteq> {}
     \<and> set (lp_key_labels base) \<subseteq> set links \<and> set (lp_key_labels second) = set links"

lemma check_second_fact_ok:
  "check_second_fact base links s = Inr () \<longleftrightarrow> (\<forall>second. s = Some second \<longrightarrow> second_fact_ok base links second)"
  by (cases s)
    (auto simp: check_second_fact_def second_fact_ok_def bind_res_eq_Inr ensure_eq_Inr find_None_all
      leg_has_key_def split: option.splits dest!: find_Some_mem)

definition answer_key_ok :: "leg_plan \<Rightarrow> lookup_leg list \<Rightarrow> answer_key \<Rightarrow> bool" where
  "answer_key_ok base lookups key \<longleftrightarrow> (\<exists>leg. leg_standing_at base lookups (ak_side key) = Some leg
     \<and> label_str (ak_label key) \<in> set (lp_key_labels leg))"

lemma check_answer_key_ok: "check_answer_key base lookups key = Inr () \<longleftrightarrow> answer_key_ok base lookups key"
  by (auto simp: check_answer_key_def answer_key_ok_def ensure_eq_Inr leg_has_key_def split: option.splits)

definition terms_ok :: "leg_plan \<Rightarrow> leg_plan option \<Rightarrow> plan_bucket \<Rightarrow> federation \<Rightarrow> bool" where
  "terms_ok base second_fact bucket f \<longleftrightarrow>
     (second_fact = None \<longrightarrow> second_leaves f = [])
     \<and> (\<forall>(leaf, l) \<in> set (second_leaves f). \<not> is_pulled_up leaf)
     \<and> (\<forall>(leaf, l) \<in> set (first_leaves f). is_pulled_up leaf \<longrightarrow> internal_text l \<in> set (lp_key_labels base))
     \<and> term_labels (lp_terms base) = first_expected f
     \<and> (\<forall>second. second_fact = Some second \<longrightarrow> is_LegFact second \<and> on_the_axis_of (fl_bucket second) bucket
          \<and> term_labels (lp_terms second) = second_expected f)"

lemma check_leg_terms_ok: "check_terms base s bucket f = Inr () \<longleftrightarrow> terms_ok base s bucket f"
proof (cases s)
  case None
  then show ?thesis
    by (auto simp: check_terms_def terms_ok_def bind_res_eq_Inr ensure_eq_Inr each_ok_eq_Inr leg_has_key_def split: if_splits)
next
  case (Some second)
  then show ?thesis
    by (cases second)
      (auto simp: check_terms_def terms_ok_def bind_res_eq_Inr ensure_eq_Inr each_ok_eq_Inr leg_has_key_def split: if_splits)
qed

definition federated_ok :: "federated_plan \<Rightarrow> bool" where
  "federated_ok p \<longleftrightarrow>
     is_LegFact (fp_fact p) \<and> fl_bucket (fp_fact p) = fp_bucket p
     \<and> (\<forall>i < length (fp_lookups p). lookup_ok (fp_fact p) (fp_lookups p) i (fp_lookups p ! i))
     \<and> (\<forall>second. fp_second_fact p = Some second \<longrightarrow> second_fact_ok (fp_fact p) (fact_links (fp_lookups p)) second)
     \<and> (\<forall>k \<in> set (fp_keys p). answer_key_ok (fp_fact p) (fp_lookups p) k)
     \<and> terms_ok (fp_fact p) (fp_second_fact p) (fp_bucket p) (fp_federation p)"

lemma federated_plan_new_ok:
  "federated_plan_new metric measure_label bucket base second_fact lookups f keys = Inr p \<longleftrightarrow>
     p = \<lparr>fp_metric = metric, fp_measure_label = measure_label, fp_bucket = bucket, fp_fact = base,
          fp_second_fact = second_fact, fp_lookups = lookups, fp_federation = f, fp_keys = keys,
          fp_top = None, fp_link_comparison = None\<rparr> \<and> federated_ok p"
proof -
  have "each_ok (check_lookup base lookups) (enumerated lookups) = Inr ()
      \<longleftrightarrow> (\<forall>i < length lookups. lookup_ok base lookups i (lookups ! i))"
    unfolding each_ok_eq_Inr ball_enumerated check_lookup_ok ..
  then show ?thesis
    by (auto simp: federated_plan_new_def federated_ok_def bind_res_eq_Inr ensure_eq_Inr check_second_fact_ok
        each_ok_eq_Inr [of "check_answer_key base lookups"] check_answer_key_ok check_leg_terms_ok)
qed

section \<open>Results reach the places of their legs\<close>

definition legs_of :: "(leg_plan \<Rightarrow> 'b) \<Rightarrow> federated_plan \<Rightarrow> ('b, 'g) legs" where
  "legs_of f p = \<lparr>lg_fact = f (fp_fact p), lg_second = map_option f (fp_second_fact p),
     lg_lookups = map (\<lambda>l. (l, ReadRows [f (ll_leg l)])) (fp_lookups p)\<rparr>"

lemma legs_assign_in_place:
  "legs_assign p (map (\<lambda>leg. leg_result_of leg (f leg)) (fed_legs p)) = Inr (legs_of f p)"
proof -
  have sides: "List.find (\<lambda>(leg, r). side_of leg \<noteq> lr_side r)
      (zip xs (map (\<lambda>leg. leg_result_of leg (f leg)) xs)) = None" for xs
    by (auto simp: find_None_all leg_result_of_def zip_map2 zip_same_conv_map)
  have pairs: "zip ls (map (\<lambda>r. ReadRows [lr_batches r]) (map (\<lambda>leg. leg_result_of leg (f leg)) (map ll_leg ls)))
      = map (\<lambda>l. (l, ReadRows [f (ll_leg l)])) ls" for ls
    by (induction ls) (simp_all add: leg_result_of_def)
  show ?thesis
  proof (cases "fp_second_fact p")
    case None
    then have "fed_legs p = fp_fact p # map ll_leg (fp_lookups p)" by (simp add: fed_legs_def)
    with None sides [of "fed_legs p"] pairs [of "fp_lookups p"] show ?thesis
      by (simp add: legs_assign_def Let_def legs_of_def leg_result_of_def)
  next
    case (Some s)
    then have "fed_legs p = fp_fact p # s # map ll_leg (fp_lookups p)" by (simp add: fed_legs_def)
    with Some sides [of "fed_legs p"] pairs [of "fp_lookups p"] show ?thesis
      by (simp add: legs_assign_def Let_def legs_of_def leg_result_of_def)
  qed
qed

definition arm_legs_of :: "(leg_plan \<Rightarrow> 'b) \<Rightarrow> arm \<Rightarrow> ('b, 'g) arm_legs" where
  "arm_legs_of f a =
     (case a of ArmJoined p \<Rightarrow> JoinedLegs (legs_of f p) | ArmLocal l \<Rightarrow> LocalLegs (la_metric l) (f (la_fact l)))"

lemma assign_arm_in_place:
  "assign_arm a (map (\<lambda>leg. leg_result_of leg (f leg)) (arm_plan_legs a)) = Inr (arm_legs_of f a)"
proof (cases a)
  case (ArmLocal l)
  then show ?thesis by (simp add: assign_arm_def arm_legs_of_def leg_result_of_def)
qed (simp add: assign_arm_def legs_assign_in_place arm_legs_of_def)

section \<open>What drills across\<close>

lemma drill_across_new_ok:
  "drill_across_new first second rest = Inr p \<longleftrightarrow>
     p = \<lparr>dp_arms = NonEmpty first (second # rest), dp_top = None\<rparr>
     \<and> length (drill_legs p) \<le> 16 \<and> distinct (map arm_metric (first # second # rest))
     \<and> (\<forall>a \<in> set (first # second # rest). arm_top a = None \<and> arm_keys a = arm_keys first
          \<and> pb_label (arm_bucket a) = pb_label (arm_bucket first)
          \<and> pb_grain (arm_bucket a) = pb_grain (arm_bucket first)
          \<and> (\<forall>r \<in> set (arm_ranges a). arm_ranges first \<noteq> [] \<and> r = hd (arm_ranges first)))"
proof -
  let ?every = "first # second # rest"
  let ?rng = "case arm_ranges first of [] \<Rightarrow> None | r # _ \<Rightarrow> Some r"
  let ?ok = "\<lambda>a. arm_top a = None \<and> arm_keys a = arm_keys first \<and> pb_label (arm_bucket a) = pb_label (arm_bucket first)
      \<and> pb_grain (arm_bucket a) = pb_grain (arm_bucket first) \<and> (\<forall>r \<in> set (arm_ranges a). Some r = ?rng)"
  have one: "check_arm (arm_keys first) (arm_bucket first) ?rng earlier a = Inr () \<longleftrightarrow>
      (\<forall>e \<in> set earlier. arm_metric e \<noteq> arm_metric a) \<and> ?ok a" for earlier a
    by (auto simp: check_arm_def Let_def list_ex_iff result_label.expand)
  have all: "check_arms (arm_keys first) (arm_bucket first) ?rng earlier as = Inr u \<longleftrightarrow>
      distinct (map arm_metric as) \<and> (\<forall>e \<in> set earlier. \<forall>a \<in> set as. arm_metric e \<noteq> arm_metric a) \<and> (\<forall>a \<in> set as. ?ok a)" for earlier as u
    by (induction as arbitrary: earlier) (auto simp: bind_res_eq_Inr one)
  have legs: "length (drill_legs \<lparr>dp_arms = NonEmpty first (second # rest), dp_top = None\<rparr>)
      = sum_list (map (\<lambda>a. length (arm_plan_legs a)) ?every)"
    by (simp add: drill_legs_def ne_iter_def length_concat comp_def)
  have rng: "Some r = ?rng \<longleftrightarrow> arm_ranges first \<noteq> [] \<and> r = hd (arm_ranges first)" for r
    by (cases "arm_ranges first") auto
  have "drill_across_new first second rest = Inr p \<longleftrightarrow>
      sum_list (map (\<lambda>a. length (arm_plan_legs a)) ?every) \<le> 16
      \<and> check_arms (arm_keys first) (arm_bucket first) ?rng [] ?every = Inr ()
      \<and> p = \<lparr>dp_arms = NonEmpty first (second # rest), dp_top = None\<rparr>"
    by (auto simp: drill_across_new_def Let_def bind_res_eq_Inr MAX_LEGS_def simp del: check_arms.simps)
  also have "\<dots> \<longleftrightarrow> p = \<lparr>dp_arms = NonEmpty first (second # rest), dp_top = None\<rparr>
     \<and> length (drill_legs p) \<le> 16 \<and> distinct (map arm_metric ?every) \<and> (\<forall>a \<in> set ?every. ?ok a)"
    unfolding all using legs by auto
  finally show ?thesis unfolding rng .
qed

section \<open>Properties\<close>

text \<open>C21: lookup legs are accepted exactly when there are one to eight of them and each joins onto
  the fact leg or an earlier lookup, and then following the joins from any of them ends at the fact
  leg, after no more steps than its position plus one.\<close>
theorem lookup_legs_reach_fact:
  "(lookup_legs_parse legs = Inr ls \<longleftrightarrow> ls = legs \<and> 1 \<le> length legs \<and> length legs \<le> 8
      \<and> (\<forall>i < length legs. ll_onto (legs ! i) = AtFact \<or> (\<exists>j < i. ll_onto (legs ! i) = AtLookup j)))
   \<and> (lookup_legs_parse legs = Inr ls \<longrightarrow> (\<forall>i < length ls. joins_to_fact ls (Suc i) (AtLookup i)))"
proof -
  have "onto_earlier legs \<longleftrightarrow> (\<forall>i < length legs. ll_onto (legs ! i) = AtFact \<or> (\<exists>j < i. ll_onto (legs ! i) = AtLookup j))"
    unfolding onto_earlier_def by (metis leg_at.distinct(1) leg_at.exhaust leg_at.inject)
  moreover have "legs \<noteq> [] \<longleftrightarrow> 1 \<le> length legs" by (cases legs) auto
  ultimately show ?thesis using onto_earlier_joins by (auto simp: lookup_legs_parse_ok)
qed

definition sample_lookup :: "name \<Rightarrow> nat \<Rightarrow> plan_key list \<Rightarrow> leg_plan" where
  "sample_lookup source position keys = LegLookup source \<lparr>md_metric = ''m'', md_digest = []\<rparr>
     (tables_only \<lparr>qt_qualifier = None, qt_table = ''t''\<rparr>)
     (plan_key_new (label_internal (Link position 0)) \<lparr>pcol_table = ''t'', pcol_column = ''k''\<rparr> # keys) bindings_none"

definition sample_lookups :: "lookup_leg list" where
  "sample_lookups =
     [onto_fact (sample_lookup ''r'' 0 [plan_key_new (label_internal (Link 1 0)) \<lparr>pcol_table = ''t'', pcol_column = ''j''\<rparr>]) True,
      onto_lookup (sample_lookup ''q'' 1 []) 0 False]"

theorem lookup_legs_reach_fact_witness:
  "lookup_legs_parse sample_lookups = Inr sample_lookups \<and> joins_to_fact sample_lookups 2 (AtLookup 1)"
proof -
  have "\<forall>i < length sample_lookups. ll_onto (sample_lookups ! i) = AtFact \<or> (\<exists>j < i. ll_onto (sample_lookups ! i) = AtLookup j)"
    by (auto simp: sample_lookups_def onto_fact_def onto_lookup_def less_Suc_eq nth_Cons')
  with lookup_legs_reach_fact [of sample_lookups sample_lookups] show ?thesis
    by (auto simp: sample_lookups_def numeral_2_eq_2)
qed

text \<open>C16: a federated plan is accepted exactly when its fact leg is one and has the plan's bucket;
  each lookup reads another source than the leg it joins onto, and both project the same run of link
  labels for the join and no other; a second fact groups by exactly the links and shares one; each key
  of the answer is on the leg it names; and the terms of the facts are the leaves that are pushed, in
  order, the others being keys.\<close>
theorem federated_plan_exact:
  "federated_plan_new metric measure_label bucket base second_fact lookups f keys = Inr p \<longleftrightarrow>
     p = \<lparr>fp_metric = metric, fp_measure_label = measure_label, fp_bucket = bucket, fp_fact = base,
          fp_second_fact = second_fact, fp_lookups = lookups, fp_federation = f, fp_keys = keys,
          fp_top = None, fp_link_comparison = None\<rparr>
     \<and> is_LegFact base \<and> fl_bucket base = bucket
     \<and> (\<forall>i < length lookups. lookup_ok base lookups i (lookups ! i))
     \<and> (\<forall>second. second_fact = Some second \<longrightarrow> second_fact_ok base (fact_links lookups) second)
     \<and> (\<forall>k \<in> set keys. answer_key_ok base lookups k) \<and> terms_ok base second_fact bucket f"
  by (auto simp: federated_plan_new_ok federated_ok_def)

definition sample_fact :: leg_plan where
  "sample_fact = LegFact ''s'' \<lparr>md_metric = ''m'', md_digest = []\<rparr>
     (tables_only \<lparr>qt_qualifier = None, qt_table = ''t''\<rparr>) (qp_bucket (sample_plan ''m''))
     [plan_key_new (label_internal (Link 0 0)) \<lparr>pcol_table = ''t'', pcol_column = ''k''\<rparr>]
     [\<lparr>lt_term = PlanCountIf \<lparr>pcol_table = ''t'', pcol_column = ''n''\<rparr>, lt_label = label_internal (Leaf 0)\<rparr>]
     bindings_none (qp_range (sample_plan ''m''))"

definition sample_federation :: federation where
  "sample_federation = \<lparr>fed_above = Total (CarriedCountIf ''n'' None)\<rparr>"

theorem federated_plan_exact_witness:
  "is_ok (federated_plan_new ''m'' (label_measure ''m'') (qp_bucket (sample_plan ''m'')) sample_fact None
     [onto_fact (sample_lookup ''r'' 0 []) True] sample_federation [])"
proof -
  let ?ls = "[onto_fact (sample_lookup ''r'' 0 []) True]"
  have keys: "lp_key_labels sample_fact = [link_text 0 0]" "lp_key_labels (sample_lookup ''r'' 0 []) = [link_text 0 0]"
    "length (lp_keys (sample_lookup ''r'' 0 [])) = 1"
    by (simp_all add: lp_key_labels_def sample_fact_def sample_lookup_def plan_key_new_def label_internal_def link_text_def)
  have parts: "link_parts (sample_lookup ''r'' 0 []) 0 = 1"
    by (simp add: link_parts_def leg_has_key_def keys)
  have "link_side_ok 0 1 leg" if "lp_key_labels leg = [link_text 0 0]" for leg
    using that by (simp add: link_side_ok_def)
  then have "lookup_ok sample_fact ?ls 0 (?ls ! 0)"
    by (simp add: lookup_ok_def leg_standing_at_def onto_fact_def parts keys)
      (simp add: sample_fact_def sample_lookup_def)
  moreover have "terms_ok sample_fact None (qp_bucket (sample_plan ''m'')) sample_federation"
    by (simp add: terms_ok_def first_leaves_def second_leaves_def first_expected_def fed_labels_def fed_carried_def
        sample_federation_def sample_fact_def term_labels_def label_internal_def)
  ultimately show ?thesis
    using federated_plan_exact [of "''m''" "label_measure ''m''" "qp_bucket (sample_plan ''m'')" sample_fact None ?ls
        sample_federation "[]"]
    by (auto simp: is_ok_iff sample_fact_def)
qed

text \<open>C17: running a drill-across plan whose legs all answer hands every result to the merge in the
  place of its leg: each joined arm its fact, its second fact and its lookups in order, each local arm
  its one leg. It never reports legs miswired, and when a leg fails, the first to fail in the order
  of the legs is the error.\<close>
theorem execute_across_in_place:
  fixes run :: "leg_plan \<Rightarrow> 'l + 'b"
    and merge :: "drill_across_plan \<Rightarrow> ('b, 'g) arm_legs list \<Rightarrow> nat \<Rightarrow> 'c + 'b"
  shows "((\<forall>leg \<in> set (drill_legs p). run leg = Inr (f leg)) \<longrightarrow>
      execute_across run merge p bytes
        = map_err CombineFailed (merge p (map (arm_legs_of f) (ne_iter (dp_arms p))) bytes))
   \<and> (drill_legs p = pre @ leg # post \<and> (\<forall>l \<in> set pre. is_ok (run l)) \<and> run leg = Inl e \<longrightarrow>
      execute_across run merge p bytes = Inl (LegFailed e))"
proof (intro conjI impI)
  assume ok: "\<forall>leg \<in> set (drill_legs p). run leg = Inr (f leg)"
  let ?arms = "ne_iter (dp_arms p)"
  have arm: "traverse (\<lambda>leg. map_err LegFailed (map_res (leg_result_of leg) (run leg))) (arm_plan_legs a)
      = Inr (map (\<lambda>leg. leg_result_of leg (f leg)) (arm_plan_legs a))" if "a \<in> set ?arms" for a
    by (rule traverse_all_ok) (use ok that in \<open>auto simp: drill_legs_def\<close>)
  have held: "traverse (\<lambda>a. traverse (\<lambda>leg. map_err LegFailed (map_res (leg_result_of leg) (run leg))) (arm_plan_legs a)) ?arms
      = Inr (map (\<lambda>a. map (\<lambda>leg. leg_result_of leg (f leg)) (arm_plan_legs a)) ?arms)"
    by (rule traverse_all_ok) (use arm in blast)
  have assigned: "traverse (\<lambda>(a, results). assign_arm a results)
      (zip xs (map (\<lambda>a. map (\<lambda>leg. leg_result_of leg (f leg)) (arm_plan_legs a)) xs)) = Inr (map (arm_legs_of f) xs)" for xs
    by (induction xs) (simp_all add: assign_arm_in_place)
  show "execute_across run merge p bytes
        = map_err CombineFailed (merge p (map (arm_legs_of f) ?arms) bytes)"
    by (simp add: execute_across_def held assigned)
next
  assume a: "drill_legs p = pre @ leg # post \<and> (\<forall>l \<in> set pre. is_ok (run l)) \<and> run leg = Inl e"
  let ?g = "\<lambda>leg. map_err LegFailed (map_res (leg_result_of leg) (run leg)) :: ('l, 'c) execute_error + 'b leg_result"
  have "\<forall>l \<in> set pre. is_ok (?g l)" using a by (auto simp: is_ok_iff dest!: bspec)
  then have "traverse ?g (pre @ leg # post) = Inl (LegFailed e)"
    using a by (intro traverse_first_error) simp_all
  then have "traverse ?g (drill_legs p) = Inl (LegFailed e)" using a by simp
  then have "map_res concat (traverse (\<lambda>a. traverse ?g (arm_plan_legs a)) (ne_iter (dp_arms p))) = Inl (LegFailed e)"
    unfolding traverse_concat drill_legs_def .
  then have "traverse (\<lambda>a. traverse ?g (arm_plan_legs a)) (ne_iter (dp_arms p)) = Inl (LegFailed e)"
    unfolding map_res_eq_Inl .
  then show "execute_across run merge p bytes = Inl (LegFailed e)" by (simp add: execute_across_def)
qed

definition sample_arm :: "name \<Rightarrow> arm" where
  "sample_arm metric = ArmLocal \<lparr>la_metric = metric, la_measure_label = label_measure metric,
     la_bucket = qp_bucket (sample_plan metric), la_fact = sample_lookup metric 0 [],
     la_federation = \<lparr>fed_above = Total (CarriedCountIf ''n'' None)\<rparr>, la_keys = []\<rparr>"

theorem execute_across_in_place_witness:
  "execute_across (\<lambda>leg. Inr (lp_source leg)) (\<lambda>_ arms _. Inr (if arms = [LocalLegs ''m'' ''m'', LocalLegs ''n'' ''n''] then ''ok'' else []))
      \<lparr>dp_arms = NonEmpty (sample_arm ''m'') [sample_arm ''n''], dp_top = None\<rparr> 0
     = (Inr ''ok'' :: (unit, unit) execute_error + string)
   \<and> execute_across (\<lambda>leg. if lp_source leg = ''n'' then Inl ''no'' else Inr ()) (\<lambda>_ _ _. Inr ())
      \<lparr>dp_arms = NonEmpty (sample_arm ''m'') [sample_arm ''n''], dp_top = None\<rparr> 0
     = (Inl (LegFailed ''no'') :: (string, unit) execute_error + unit)"
proof -
  let ?p = "\<lparr>dp_arms = NonEmpty (sample_arm ''m'') [sample_arm ''n''], dp_top = None\<rparr>"
  have legs: "drill_legs ?p = [sample_lookup ''m'' 0 [], sample_lookup ''n'' 0 []]"
    by (simp add: drill_legs_def ne_iter_def sample_arm_def)
  have src: "lp_source (sample_lookup n k ks) = n" for n k ks by (simp add: sample_lookup_def)
  have "execute_across (\<lambda>leg. Inr (lp_source leg)) (\<lambda>_ arms _. Inr (if arms = [LocalLegs ''m'' ''m'', LocalLegs ''n'' ''n''] then ''ok'' else []))
      ?p 0 = (Inr ''ok'' :: (unit, unit) execute_error + string)"
    using execute_across_in_place [of ?p "\<lambda>leg. Inr (lp_source leg)" lp_source
        "\<lambda>_ arms _. Inr (if arms = [LocalLegs ''m'' ''m'', LocalLegs ''n'' ''n''] then ''ok'' else [])" 0]
    by (simp add: legs src arm_legs_of_def ne_iter_def) (simp add: sample_arm_def src)
  moreover have "execute_across (\<lambda>leg. if lp_source leg = ''n'' then Inl ''no'' else Inr ()) (\<lambda>_ _ _. Inr ()) ?p 0
     = (Inl (LegFailed ''no'') :: (string, unit) execute_error + unit)"
    using execute_across_in_place [of ?p "\<lambda>leg. if lp_source leg = ''n'' then Inl ''no'' else Inr ()" "\<lambda>_. ()"
        "\<lambda>_ _ _. Inr ()" 0 "[sample_lookup ''m'' 0 []]" "sample_lookup ''n'' 0 []" "[]"]
    by (auto simp: legs src is_ok_iff)
  ultimately show ?thesis by blast
qed

text \<open>C22: drilling across is accepted exactly when the arms run at most sixteen legs, none carries a
  top, each measures another metric, and all group by the first one's keys, bucket on its label and
  grain, and read its range.\<close>
theorem drill_across_exact:
  "drill_across_new first second rest = Inr p \<longleftrightarrow>
     p = \<lparr>dp_arms = NonEmpty first (second # rest), dp_top = None\<rparr>
     \<and> length (drill_legs p) \<le> 16 \<and> distinct (map arm_metric (first # second # rest))
     \<and> (\<forall>a \<in> set (first # second # rest). arm_top a = None \<and> arm_keys a = arm_keys first
          \<and> pb_label (arm_bucket a) = pb_label (arm_bucket first)
          \<and> pb_grain (arm_bucket a) = pb_grain (arm_bucket first)
          \<and> (\<forall>r \<in> set (arm_ranges a). arm_ranges first \<noteq> [] \<and> r = hd (arm_ranges first)))"
  by (rule drill_across_new_ok)

theorem drill_across_exact_witness: "is_ok (drill_across_new (sample_arm ''m'') (sample_arm ''n'') [])"
  using drill_across_exact [of "sample_arm ''m''" "sample_arm ''n''" "[]"]
  by (simp add: is_ok_iff drill_legs_def ne_iter_def sample_arm_def arm_ranges_def sample_lookup_def sample_plan_def
      query_plan_new_def with_measures_def Let_def)

end
