(* ===== verification/Resolve.thy ===== *)
theory Resolve
  imports Query
begin

text \<open>
  \<open>sutura-domain/src/pinned/view.rs\<close> and \<open>sutura-semantic/src/resolve.rs\<close>: what a
  caller can see of the pinned definitions, and how a question is resolved against it: each name found
  and permitted, each dimension's chain turned into joins, or the first refusal in the order the code
  checks. A \<open>Bundle\<close> error is a catalog that does not hold together; the lemmas show that an
  assembled catalog never yields one, and which questions resolve.
\<close>

section \<open>The scoped view\<close>

datatype view_scope = Everything | Granted "name list"

record scoped_view =
  sv_pinned :: definitions
  sv_scope :: view_scope

definition visible :: "scoped_view \<Rightarrow> metric \<Rightarrow> bool" where
  "visible v m = (case sv_scope v of Everything \<Rightarrow> True | Granted g \<Rightarrow> visible_to (met_audience m) g)"

definition visible_model :: "scoped_view \<Rightarrow> model \<Rightarrow> bool" where
  "visible_model v m =
     (case sv_scope v of
        Everything \<Rightarrow> True
      | Granted g \<Rightarrow> (case model_audience m of None \<Rightarrow> False | Some a \<Rightarrow> visible_to a g))"

definition view_metric :: "scoped_view \<Rightarrow> name \<Rightarrow> metric option" where
  "view_metric v n =
     (case bt_get (defs_metrics (sv_pinned v)) n of
        None \<Rightarrow> None
      | Some m \<Rightarrow> if visible v m then Some m else None)"

definition view_metrics :: "scoped_view \<Rightarrow> metric list" where
  "view_metrics v = filter (visible v) (bt_values (defs_metrics (sv_pinned v)))"

definition view_model :: "scoped_view \<Rightarrow> name \<Rightarrow> model option" where
  "view_model v n =
     (case bt_get (defs_models (sv_pinned v)) n of
        None \<Rightarrow> None
      | Some m \<Rightarrow> if visible_model v m then Some m else None)"

definition view_models :: "scoped_view \<Rightarrow> model list" where
  "view_models v = filter (visible_model v) (bt_values (defs_models (sv_pinned v)))"

section \<open>Resolutions\<close>

record resolved_join =
  rj_relationship :: relationship
  rj_model :: model

record resolved_dimension =
  rd_dimension :: dimension
  rd_join :: "resolved_join list option"

datatype resolved_filter_value =
    ResolvedEq ustr
  | ResolvedIn "ustr nonempty"
  | ResolvedNotIn "ustr nonempty"

record resolved_filter =
  rf_dimension :: resolved_dimension
  rf_value :: resolved_filter_value

record cross_model =
  cm_second :: model
  cm_calendar :: model
  cm_own_to_calendar :: relationship
  cm_second_calendar :: model
  cm_second_to_calendar :: relationship
  cm_second_relationships :: "relationship list"

record resolution =
  res_metric :: metric
  res_metrics :: "metric list"
  res_model :: model
  res_grain :: grain
  res_range :: time_range
  res_keys :: "resolved_dimension list"
  res_filters :: "resolved_filter list"
  res_cross :: "cross_model option"
  res_top :: "top option"

record resolved =
  resolved_whole :: resolution
  resolved_per_metric :: "resolution list"

datatype bundle_inconsistent =
    NoSuchModel name name
  | RelationshipAbsent name
  | JoinTargetMissing name
  | SharedCalendarNotJoined name name

datatype resolve_error = Refused refusal_reason | Bundle bundle_inconsistent

section \<open>Resolving\<close>

definition resolve_hop :: "definitions \<Rightarrow> name \<Rightarrow> name \<Rightarrow> bundle_inconsistent + resolved_join" where
  "resolve_hop d dim n =
     bind_res (ok_or (RelationshipAbsent dim) (bt_get (defs_relationships d) n)) (\<lambda>r.
     bind_res (ok_or (JoinTargetMissing (rel_target r)) (bt_get (defs_models d) (rel_target r))) (\<lambda>m.
       Inr \<lparr>rj_relationship = r, rj_model = m\<rparr>))"

definition resolve_dimension :: "definitions \<Rightarrow> metric \<Rightarrow> name \<Rightarrow> resolve_error + resolved_dimension" where
  "resolve_dimension d metric n =
     bind_res (ok_or (Refused (DimensionNotPermitted (met_name metric) n)) (met_dimension metric n)) (\<lambda>dim.
     case dim_via dim of
       None \<Rightarrow> Inr \<lparr>rd_dimension = dim, rd_join = None\<rparr>
     | Some chain \<Rightarrow>
         bind_res (map_err Bundle (traverse (resolve_hop d n) chain)) (\<lambda>hops.
           Inr \<lparr>rd_dimension = dim, rd_join = Some hops\<rparr>))"

definition landed :: "metric \<Rightarrow> resolved_dimension \<Rightarrow> name \<times> name" where
  "landed metric reached =
     ((case rd_join reached of
         None \<Rightarrow> met_model metric
       | Some hops \<Rightarrow> if hops = [] then met_model metric else model_name (rj_model (last hops))),
      dim_column (rd_dimension reached))"

definition conformed_pairs :: "resolution \<Rightarrow> resolution \<Rightarrow> (resolved_dimension \<times> resolved_dimension) list" where
  "conformed_pairs first other =
     zip (res_keys first) (res_keys other)
     @ zip (map rf_dimension (res_filters first)) (map rf_dimension (res_filters other))"

definition conformed :: "resolution list \<Rightarrow> refusal_reason + unit" where
  "conformed each =
     (case each of
        [] \<Rightarrow> Inr ()
      | first # others \<Rightarrow>
          each_ok (\<lambda>other. each_ok (\<lambda>(wanted, got).
              ensure (landed (res_metric first) wanted = landed (res_metric other) got)
                (DimensionNotConformed (dim_name (rd_dimension wanted)) (met_name (res_metric first))
                   (met_name (res_metric other))))
            (conformed_pairs first other)) others)"

definition calendar_of :: "definitions \<Rightarrow> metric \<Rightarrow> name list \<Rightarrow> name \<Rightarrow> bundle_inconsistent + model" where
  "calendar_of d metric calendars from =
     bind_res (ok_or (NoSuchModel (met_name metric) from) (bt_get (defs_models d) from)) (\<lambda>m.
       ok_or (SharedCalendarNotJoined (met_name metric) from)
         (List.find (\<lambda>c. model_source c = model_source m)
           (List.map_filter (bt_get (defs_models d)) calendars)))"

definition out_of :: "definitions \<Rightarrow> name \<Rightarrow> relationship list" where
  "out_of d from = filter (\<lambda>r. rel_origin r = from) (bt_values (defs_relationships d))"

definition to_calendar :: "definitions \<Rightarrow> metric \<Rightarrow> name \<Rightarrow> model \<Rightarrow> bundle_inconsistent + relationship" where
  "to_calendar d metric from calendar =
     ok_or (SharedCalendarNotJoined (met_name metric) from)
       (List.find (\<lambda>r. rel_target r = model_name calendar) (out_of d from))"

definition second_model :: "metric \<Rightarrow> name option" where
  "second_model metric =
     (case met_measure metric of
        None \<Rightarrow> None
      | Some q \<Rightarrow> List.find (\<lambda>n. n \<noteq> met_model metric) (List.map_filter id (measure_models q)))"

definition resolve_cross_model :: "metric \<Rightarrow> definitions \<Rightarrow> bundle_inconsistent + cross_model option" where
  "resolve_cross_model metric d =
     (case (second_model metric, met_shared_calendars metric) of
        (Some named, Some calendars) \<Rightarrow>
          bind_res (calendar_of d metric calendars (met_model metric)) (\<lambda>calendar.
          bind_res (calendar_of d metric calendars named) (\<lambda>second_calendar.
          bind_res (ok_or (NoSuchModel (met_name metric) named) (bt_get (defs_models d) named)) (\<lambda>second.
          bind_res (to_calendar d metric (met_model metric) calendar) (\<lambda>own.
          bind_res (to_calendar d metric named second_calendar) (\<lambda>second_to.
            Inr (Some \<lparr>cm_second = second, cm_calendar = calendar, cm_own_to_calendar = own,
              cm_second_calendar = second_calendar, cm_second_to_calendar = second_to,
              cm_second_relationships = out_of d named\<rparr>))))))
      | _ \<Rightarrow> Inr None)"

definition resolution_of ::
  "query \<Rightarrow> scoped_view \<Rightarrow> metric \<Rightarrow> metric list \<Rightarrow> resolved_filter_value list \<Rightarrow> resolve_error + resolution" where
  "resolution_of q v metric metrics values =
     (let d = sv_pinned v in
      bind_res (ok_or (Bundle (NoSuchModel (met_name metric) (met_model metric)))
          (bt_get (defs_models d) (met_model metric))) (\<lambda>m.
      bind_res (traverse (resolve_dimension d metric) (q_dimensions q)) (\<lambda>keys.
      bind_res (traverse (\<lambda>(f, value). map_res (\<lambda>dim. \<lparr>rf_dimension = dim, rf_value = value\<rparr>)
          (resolve_dimension d metric (qf_dimension f))) (zip (q_filters q) values)) (\<lambda>filters.
      bind_res (map_err Bundle (resolve_cross_model metric d)) (\<lambda>cross.
        Inr \<lparr>res_metric = metric, res_metrics = metrics, res_model = m, res_grain = q_grain q,
          res_range = q_range q, res_keys = keys, res_filters = filters, res_cross = cross,
          res_top = q_top q\<rparr>)))))"

fun check_metrics_distinct :: "name list \<Rightarrow> name list \<Rightarrow> refusal_reason + unit" where
  "check_metrics_distinct seen [] = Inr ()"
| "check_metrics_distinct seen (n # ns) =
     (if n \<in> set seen then Inl (DuplicateMetricName n) else check_metrics_distinct (n # seen) ns)"

fun check_dimensions :: "metric list \<Rightarrow> name list \<Rightarrow> name list \<Rightarrow> refusal_reason + unit" where
  "check_dimensions metrics seen [] = Inr ()"
| "check_dimensions metrics seen (n # ns) =
     (if n \<in> set seen then Inl (RefusedDuplicateDimension n)
      else bind_res (each_ok (\<lambda>m. ensure (met_dimension m n \<noteq> None) (DimensionNotPermitted (met_name m) n)) metrics)
        (\<lambda>_. check_dimensions metrics (n # seen) ns))"

definition check_filter_on :: "query_filter \<Rightarrow> metric \<Rightarrow> refusal_reason + unit" where
  "check_filter_on f m =
     (case met_dimension m (qf_dimension f) of
        None \<Rightarrow> Inl (DimensionNotPermitted (met_name m) (qf_dimension f))
      | Some declared \<Rightarrow>
          if \<not> is_filterable declared then Inl (DimensionNotFilterable (met_name m) (qf_dimension f))
          else each_ok (\<lambda>v. ensure (permits declared v) (DimensionValueNotAllowed (met_name m) (qf_dimension f)))
            (qf_values f))"

fun resolved_value :: "query_filter \<Rightarrow> resolved_filter_value" where
  "resolved_value (FilterEq _ v) = ResolvedEq v"
| "resolved_value (FilterIn _ vs) = ResolvedIn (ne_map (\<lambda>v. v) vs)"
| "resolved_value (FilterNotIn _ vs) = ResolvedNotIn (ne_map (\<lambda>v. v) vs)"

fun check_filters :: "metric list \<Rightarrow> name list \<Rightarrow> query_filter list \<Rightarrow> refusal_reason + resolved_filter_value list" where
  "check_filters metrics seen [] = Inr []"
| "check_filters metrics seen (f # fs) =
     (if qf_dimension f \<in> set seen then Inl (RefusedDuplicateDimension (qf_dimension f))
      else bind_res (each_ok (check_filter_on f) metrics) (\<lambda>_.
        map_res (\<lambda>vs. resolved_value f # vs) (check_filters metrics (qf_dimension f # seen) fs)))"

definition check_top :: "row_ceiling \<Rightarrow> top option \<Rightarrow> refusal_reason + unit" where
  "check_top ceiling t =
     (case t of
        None \<Rightarrow> Inr ()
      | Some t \<Rightarrow>
          ensure (\<not> exceeds_the_row_cap (top_n t) ceiling) (ResultTooLarge (BoundRows (row_ceiling_get ceiling))))"

definition resolve_checks ::
  "query \<Rightarrow> scoped_view \<Rightarrow> row_ceiling \<Rightarrow> refusal_reason + metric list \<times> resolved_filter_value list" where
  "resolve_checks q v ceiling =
     bind_res (traverse (\<lambda>n. ok_or (MetricUnknown n) (view_metric v n)) (ne_iter (q_metrics q))) (\<lambda>metrics.
     bind_res (ensure (ne_len (q_metrics q) \<le> MAX_METRICS) (TooManyMetrics (ne_len (q_metrics q)) MAX_METRICS)) (\<lambda>_.
     bind_res (check_metrics_distinct [] (ne_iter (q_metrics q))) (\<lambda>_.
     bind_res (each_ok (\<lambda>m. ensure (supports_grain m (q_grain q)) (GrainNotSupported (met_name m) (q_grain q))) metrics) (\<lambda>_.
     bind_res (ensure (range_days (q_range q) \<le> MAX_RANGE_DAYS) (TimeRangeTooLong (range_days (q_range q)) MAX_RANGE_DAYS)) (\<lambda>_.
     bind_res (ensure (length (q_dimensions q) \<le> MAX_DIMENSIONS) (TooManyDimensions (length (q_dimensions q)) MAX_DIMENSIONS)) (\<lambda>_.
     bind_res (check_top ceiling (q_top q)) (\<lambda>_.
     bind_res (check_dimensions metrics [] (q_dimensions q)) (\<lambda>_.
     bind_res (ensure (length (q_filters q) \<le> MAX_FILTERS) (TooManyFilters (length (q_filters q)) MAX_FILTERS)) (\<lambda>_.
     map_res (\<lambda>values. (metrics, values)) (check_filters metrics [] (q_filters q)))))))))))"

definition resolve :: "query \<Rightarrow> scoped_view \<Rightarrow> row_ceiling \<Rightarrow> resolve_error + resolved" where
  "resolve q v ceiling =
     bind_res (map_err Refused (resolve_checks q v ceiling)) (\<lambda>(metrics, values).
     bind_res
       (if length metrics > 1 then
          bind_res (traverse (\<lambda>m. resolution_of q v m [m] values) metrics) (\<lambda>each.
            bind_res (map_err Refused (conformed each)) (\<lambda>_. Inr each))
        else Inr []) (\<lambda>per_metric.
     bind_res (resolution_of q v (hd metrics) metrics values) (\<lambda>whole.
       Inr \<lparr>resolved_whole = whole, resolved_per_metric = per_metric\<rparr>)))"

section \<open>What the checks establish\<close>

lemma check_metrics_distinct_ok:
  "check_metrics_distinct seen ns = Inr () \<longleftrightarrow> distinct ns \<and> set ns \<inter> set seen = {}"
  by (induction seen ns rule: check_metrics_distinct.induct) auto

lemma check_dimensions_ok:
  "check_dimensions metrics seen ns = Inr () \<longleftrightarrow> distinct ns \<and> set ns \<inter> set seen = {}
     \<and> (\<forall>n \<in> set ns. \<forall>m \<in> set metrics. met_dimension m n \<noteq> None)"
  by (induction metrics seen ns rule: check_dimensions.induct) (auto simp: res_simps)

definition filter_permitted :: "metric \<Rightarrow> query_filter \<Rightarrow> bool" where
  "filter_permitted m f \<longleftrightarrow> (\<exists>d. met_dimension m (qf_dimension f) = Some d \<and> is_filterable d
     \<and> (\<forall>v \<in> set (qf_values f). permits d v))"

lemma check_filter_on_ok: "check_filter_on f m = Inr () \<longleftrightarrow> filter_permitted m f"
  by (auto simp: check_filter_on_def filter_permitted_def res_simps split: option.splits)

lemma check_filters_ok:
  "check_filters metrics seen fs = Inr vs \<longleftrightarrow> vs = map resolved_value fs \<and> distinct (map qf_dimension fs)
     \<and> set (map qf_dimension fs) \<inter> set seen = {} \<and> (\<forall>f \<in> set fs. \<forall>m \<in> set metrics. filter_permitted m f)"
  by (induction metrics seen fs arbitrary: vs rule: check_filters.induct)
    (auto simp: res_simps check_filter_on_ok)

lemma check_top_ok: "check_top c t = Inr () \<longleftrightarrow> (\<forall>x. t = Some x \<longrightarrow> top_n x \<le> row_ceiling_get c)"
  by (cases t) (auto simp: check_top_def exceeds_the_row_cap_def res_simps)

lemma traverse_ok_or:
  "traverse (\<lambda>n. ok_or (e n) (g n)) ns = Inr ms \<longleftrightarrow> map g ns = map Some ms"
  by (induction ns arbitrary: ms) (auto simp: res_simps Cons_eq_map_conv)

text \<open>What a question has to satisfy before anything is resolved.\<close>

definition permitted :: "query \<Rightarrow> scoped_view \<Rightarrow> row_ceiling \<Rightarrow> metric list \<Rightarrow> bool" where
  "permitted q v ceiling ms \<longleftrightarrow>
     map (view_metric v) (ne_iter (q_metrics q)) = map Some ms
     \<and> length ms \<le> 8 \<and> distinct (ne_iter (q_metrics q))
     \<and> (\<forall>m \<in> set ms. supports_grain m (q_grain q)) \<and> range_days (q_range q) \<le> 3653
     \<and> length (q_dimensions q) \<le> 4 \<and> distinct (q_dimensions q)
     \<and> (\<forall>n \<in> set (q_dimensions q). \<forall>m \<in> set ms. met_dimension m n \<noteq> None)
     \<and> length (q_filters q) \<le> 16 \<and> distinct (map qf_dimension (q_filters q))
     \<and> (\<forall>f \<in> set (q_filters q). \<forall>m \<in> set ms. filter_permitted m f)
     \<and> (\<forall>x. q_top q = Some x \<longrightarrow> top_n x \<le> row_ceiling_get ceiling)"

lemma ne_len_le: "k < usize_max \<Longrightarrow> ne_len n \<le> k \<longleftrightarrow> length (ne_iter n) \<le> k"
  by (auto simp: ne_len_def ne_iter_def sat_add_usize_def)

lemma resolve_checks_ok:
  "resolve_checks q v ceiling = Inr (ms, vs) \<longleftrightarrow>
     permitted q v ceiling ms \<and> vs = map resolved_value (q_filters q)"
proof -
  have len: "ne_len (q_metrics q) \<le> MAX_METRICS \<longleftrightarrow> length (ne_iter (q_metrics q)) \<le> 8"
    by (simp add: ne_len_le MAX_METRICS_def usize_max_def)
  have eq: "length (ne_iter (q_metrics q)) = length xs"
    if "map (view_metric v) (ne_iter (q_metrics q)) = map Some xs" for xs
    using map_eq_imp_length_eq [OF that] .
  show ?thesis
    unfolding resolve_checks_def permitted_def bind_res_eq_Inr map_res_eq_Inr ensure_eq_Inr each_ok_eq_Inr
      traverse_ok_or len MAX_RANGE_DAYS_def MAX_DIMENSIONS_def MAX_FILTERS_def
      check_filters_ok
    using eq by (auto simp: check_metrics_distinct_ok check_dimensions_ok check_top_ok)
qed

section \<open>No inconsistency behind an assembled catalog\<close>

lemma resolve_chain:
  assumes "chain_end (defs_models d) (defs_relationships d) m ns = Some e"
  shows "\<exists>hs. traverse (resolve_hop d n) ns = Inr hs \<and> map (\<lambda>h. Some (rj_relationship h)) hs
      = map (bt_get (defs_relationships d)) ns \<and> (if hs = [] then m else rj_model (last hs)) = e"
  using assms
proof (induction ns arbitrary: m)
  case (Cons a ns)
  then obtain r t where r: "bt_get (defs_relationships d) a = Some r"
    and t: "bt_get (defs_models d) (rel_target r) = Some t"
    and step: "chain_end (defs_models d) (defs_relationships d) t ns = Some e"
    by (auto split: option.splits if_splits)
  from Cons.IH [OF step] obtain hs where "traverse (resolve_hop d n) ns = Inr hs"
    "map (\<lambda>h. Some (rj_relationship h)) hs = map (bt_get (defs_relationships d)) ns"
    and e: "(if hs = [] then t else rj_model (last hs)) = e" by blast
  moreover have "resolve_hop d n a = Inr \<lparr>rj_relationship = r, rj_model = t\<rparr>"
    using r t by (simp add: resolve_hop_def)
  moreover have "rj_model (last (\<lparr>rj_relationship = r, rj_model = t\<rparr> # hs)) = e"
    using e by (cases "hs = []") simp_all
  ultimately show ?case using r
    by (intro exI [of _ "\<lparr>rj_relationship = r, rj_model = t\<rparr> # hs"]) simp
qed simp

lemma definitions_okD:
  assumes "definitions_ok d"
  shows "bt_get (defs_models d) k = Some m \<Longrightarrow> model_name m = k"
    and "bt_get (defs_relationships d) k = Some r \<Longrightarrow> rel_name r = k \<and> relationship_ok (defs_models d) r"
    and "bt_get (defs_metrics d) k = Some x \<Longrightarrow>
      met_name x = k \<and> metric_ok (defs_models d) (defs_relationships d) x"
proof -
  note ok = assms [unfolded definitions_ok_def]
  show "bt_get (defs_models d) k = Some m \<Longrightarrow> model_name m = k"
    using ok map_of_SomeD [of "defs_models d" k m] by blast
  show "bt_get (defs_relationships d) k = Some r \<Longrightarrow> rel_name r = k \<and> relationship_ok (defs_models d) r"
    using ok map_of_SomeD [of "defs_relationships d" k r] by blast
  show "bt_get (defs_metrics d) k = Some x \<Longrightarrow>
      met_name x = k \<and> metric_ok (defs_models d) (defs_relationships d) x"
    using ok map_of_SomeD [of "defs_metrics d" k x] by blast
qed

lemma view_metric_ok:
  assumes "definitions_ok (sv_pinned v)" and "view_metric v n = Some x"
  shows "met_name x = n \<and> visible v x
     \<and> metric_ok (defs_models (sv_pinned v)) (defs_relationships (sv_pinned v)) x"
  using assms definitions_okD(3) [OF assms(1)]
  by (auto simp: view_metric_def split: option.splits if_splits)

text \<open>Where a dimension of a metric lands: the model its chain ends at, and its column.\<close>

definition landing :: "definitions \<Rightarrow> metric \<Rightarrow> name \<Rightarrow> (name \<times> name) option" where
  "landing d x n =
     (case (met_dimension x n, bt_get (defs_models d) (met_model x)) of
        (Some b, Some m) \<Rightarrow> map_option (\<lambda>e. (model_name e, dim_column b))
          (chain_end (defs_models d) (defs_relationships d) m (dim_hops b))
      | _ \<Rightarrow> None)"

lemma resolve_dimension_ok:
  assumes d: "definitions_ok d" and x: "metric_ok (defs_models d) (defs_relationships d) x"
    and b: "met_dimension x n = Some b"
  shows "\<exists>rd. resolve_dimension d x n = Inr rd \<and> rd_dimension rd = b \<and> landing d x n = Some (landed x rd)"
proof -
  from x obtain m where m: "bt_get (defs_models d) (met_model x) = Some m"
    and dims: "\<forall>b \<in> set (bt_values (met_dimensions x)).
        dimension_ok (defs_models d) (defs_relationships d) x m b"
    by (auto simp: metric_ok_def)
  from b have "b \<in> set (bt_values (met_dimensions x))"
    unfolding met_dimension_def by (rule get_in_values)
  with dims obtain e where e: "chain_end (defs_models d) (defs_relationships d) m (dim_hops b) = Some e"
    by (auto simp: dimension_ok_def)
  have name: "model_name m = met_model x" using definitions_okD(1) [OF d m] .
  show ?thesis
  proof (cases "dim_via b")
    case None
    with e have "e = m" by (simp add: dim_hops_def)
    with None b m e name show ?thesis by (simp add: resolve_dimension_def landing_def landed_def)
  next
    case (Some hops)
    with e have "chain_end (defs_models d) (defs_relationships d) m hops = Some e" by (simp add: dim_hops_def)
    from resolve_chain [OF this, of n] obtain hs where "traverse (resolve_hop d n) hops = Inr hs"
      and "(if hs = [] then m else rj_model (last hs)) = e" by blast
    with Some b m e name show ?thesis
      by (auto simp: resolve_dimension_def landing_def landed_def)
  qed
qed

lemma resolve_cross_model_ok:
  assumes d: "definitions_ok d" and x: "metric_ok (defs_models d) (defs_relationships d) x"
  shows "is_ok (resolve_cross_model x d)"
proof (cases "second_model x = None \<or> met_shared_calendars x = None")
  case True
  then show ?thesis by (auto simp: resolve_cross_model_def split: option.splits)
next
  case False
  then obtain named cs where n: "second_model x = Some named" and cs: "met_shared_calendars x = Some cs" by auto
  from x obtain m where m: "bt_get (defs_models d) (met_model x) = Some m"
    and meas: "\<forall>q. met_measure x = Some q \<longrightarrow> measure_ok (defs_models d) x m q"
    and cal: "check_calendars (defs_models d) (defs_relationships d) x cs = Inr ()"
    using cs by (auto simp: metric_ok_def)
  from n obtain q where q: "met_measure x = Some q" and qn: "Some named \<in> set (measure_models q)"
    by (auto simp: second_model_def set_map_filter dest!: find_Some_mem split: option.splits)
  have facts: "met_model x \<in> set (fact_models x)" "named \<in> set (fact_models x)"
    using q qn by (auto simp: fact_models_def)
  from qn obtain t where t: "t \<in> set (measure_terms q)" "term_model t = Some named"
    by (auto simp: measure_models_def)
  from meas q have "measure_ok (defs_models d) x m q" by blast
  with t obtain sm where sm: "bt_get (defs_models d) named = Some sm"
    unfolding measure_ok_def term_model_of_def by fastforce
  have calendar: "\<exists>c r. calendar_of d x cs f = Inr c \<and> to_calendar d x f c = Inr r"
    if f: "f \<in> set (fact_models x)" "bt_get (defs_models d) f = Some fm" for f fm
  proof -
    from check_calendars_sound [OF cal f] obtain c where
      c: "{c'. \<exists>n \<in> set cs. bt_get (defs_models d) n = Some c' \<and> model_source c' = model_source fm} = {c}"
      and r: "\<exists>r \<in> set (bt_values (defs_relationships d)). rel_origin r = model_name fm \<and> rel_target r = model_name c"
      by blast
    note set = set_map_filter [of "bt_get (defs_models d)" cs]
    with c have "c \<in> set (List.map_filter (bt_get (defs_models d)) cs)" "model_source c = model_source fm" by auto
    from find_Some_exists [OF this(1), of "\<lambda>c. model_source c = model_source fm", OF this(2)]
    obtain y where y: "List.find (\<lambda>c. model_source c = model_source fm) (List.map_filter (bt_get (defs_models d)) cs) = Some y"
      "y \<in> set (List.map_filter (bt_get (defs_models d)) cs)" "model_source y = model_source fm" by blast
    then have "y = c" using c set by auto
    with y f have 1: "calendar_of d x cs f = Inr c" by (simp add: calendar_of_def)
    have "model_name fm = f" using definitions_okD(1) [OF d f(2)] .
    with r obtain r where "r \<in> set (out_of d f)" "rel_target r = model_name c" by (auto simp: out_of_def)
    from find_Some_exists [OF this(1), of "\<lambda>r. rel_target r = model_name c", OF this(2)]
    have "\<exists>r. to_calendar d x f c = Inr r" by (auto simp: to_calendar_def)
    with 1 show ?thesis by blast
  qed
  from calendar [OF facts(1) m] calendar [OF facts(2) sm] n cs sm show ?thesis
    by (auto simp: resolve_cross_model_def)
qed

text \<open>What the resolution of a metric is: every name of the question, in its order, with the
  place it lands.\<close>

definition names_of :: "query \<Rightarrow> name list" where
  "names_of q = q_dimensions q @ map qf_dimension (q_filters q)"

definition reached :: "resolution \<Rightarrow> resolved_dimension list" where
  "reached r = res_keys r @ map rf_dimension (res_filters r)"

definition resolution_ok :: "query \<Rightarrow> definitions \<Rightarrow> metric \<Rightarrow> metric list \<Rightarrow> resolution \<Rightarrow> bool" where
  "resolution_ok q d x ms r \<longleftrightarrow>
     res_metric r = x \<and> res_metrics r = ms \<and> bt_get (defs_models d) (met_model x) = Some (res_model r)
     \<and> res_grain r = q_grain q \<and> res_range r = q_range q \<and> res_top r = q_top q
     \<and> length (res_keys r) = length (q_dimensions q)
     \<and> map (\<lambda>k. Some (rd_dimension k)) (reached r) = map (met_dimension x) (names_of q)
     \<and> map (\<lambda>k. Some (landed x k)) (reached r) = map (landing d x) (names_of q)
     \<and> map rf_value (res_filters r) = map resolved_value (q_filters q)
     \<and> resolve_cross_model x d = Inr (res_cross r)"

lemma list_all2_map_eq:
  "list_all2 P xs ys \<Longrightarrow> (\<And>a b. P a b \<Longrightarrow> f a = g b) \<Longrightarrow> map f xs = map g ys"
  by (induction xs ys rule: list_all2_induct) auto

lemma resolution_of_ok:
  assumes d: "definitions_ok (sv_pinned v)"
    and x: "metric_ok (defs_models (sv_pinned v)) (defs_relationships (sv_pinned v)) x"
    and names: "\<forall>n \<in> set (names_of q). met_dimension x n \<noteq> None"
  shows "\<exists>r. resolution_of q v x ms (map resolved_value (q_filters q)) = Inr r
    \<and> resolution_ok q (sv_pinned v) x ms r"
proof -
  let ?d = "sv_pinned v"
  let ?P = "\<lambda>n rd. met_dimension x n = Some (rd_dimension rd) \<and> landing ?d x n = Some (landed x rd)"
  from x obtain m where m: "bt_get (defs_models ?d) (met_model x) = Some m" by (auto simp: metric_ok_def)
  have one: "\<exists>rd. resolve_dimension ?d x n = Inr rd \<and> ?P n rd" if "n \<in> set (names_of q)" for n
    using resolve_dimension_ok [OF d x, of n] names that by fastforce
  have "\<exists>ks. traverse (resolve_dimension ?d x) (q_dimensions q) = Inr ks \<and> list_all2 ?P (q_dimensions q) ks"
    by (rule traverse_exists) (use one in \<open>auto simp: names_of_def\<close>)
  then obtain ks where ks: "traverse (resolve_dimension ?d x) (q_dimensions q) = Inr ks"
    and kp: "list_all2 ?P (q_dimensions q) ks" by blast
  let ?fs = "zip (q_filters q) (map resolved_value (q_filters q))"
  let ?Q = "\<lambda>fv rf. ?P (qf_dimension (fst fv)) (rf_dimension rf) \<and> snd fv = rf_value rf"
  have "\<exists>fs. traverse (\<lambda>(f, value). map_res (\<lambda>dim. \<lparr>rf_dimension = dim, rf_value = value\<rparr>)
          (resolve_dimension ?d x (qf_dimension f))) ?fs = Inr fs \<and> list_all2 ?Q ?fs fs"
  proof (rule traverse_exists)
    fix fv assume "fv \<in> set ?fs"
    then obtain f w where fv: "fv = (f, w)" "f \<in> set (q_filters q)"
      by (metis prod.collapse set_zip_leftD)
    then obtain rd where "resolve_dimension ?d x (qf_dimension f) = Inr rd" "?P (qf_dimension f) rd"
      using one [of "qf_dimension f"] by (auto simp: names_of_def)
    with fv show "\<exists>y. (case fv of (f, value) \<Rightarrow> map_res (\<lambda>dim. \<lparr>rf_dimension = dim, rf_value = value\<rparr>)
          (resolve_dimension ?d x (qf_dimension f))) = Inr y \<and> ?Q fv y" by simp
  qed
  then obtain fs where fs: "traverse (\<lambda>(f, value). map_res (\<lambda>dim. \<lparr>rf_dimension = dim, rf_value = value\<rparr>)
          (resolve_dimension ?d x (qf_dimension f))) ?fs = Inr fs" and fp: "list_all2 ?Q ?fs fs" by blast
  obtain cross where cross: "resolve_cross_model x ?d = Inr cross"
    using resolve_cross_model_ok [OF d x] by (auto simp: is_ok_iff)
  let ?r = "\<lparr>res_metric = x, res_metrics = ms, res_model = m, res_grain = q_grain q, res_range = q_range q,
    res_keys = ks, res_filters = fs, res_cross = cross, res_top = q_top q\<rparr>"
  have kmaps: "map (met_dimension x) (q_dimensions q) = map (\<lambda>k. Some (rd_dimension k)) ks"
    "map (landing ?d x) (q_dimensions q) = map (\<lambda>k. Some (landed x k)) ks"
    by (rule list_all2_map_eq [OF kp], simp only:)+
  have fmaps: "map (\<lambda>fv. met_dimension x (qf_dimension (fst fv))) ?fs = map (\<lambda>k. Some (rd_dimension (rf_dimension k))) fs"
    "map (\<lambda>fv. landing ?d x (qf_dimension (fst fv))) ?fs = map (\<lambda>k. Some (landed x (rf_dimension k))) fs"
    "map snd ?fs = map rf_value fs"
    by (rule list_all2_map_eq [OF fp], simp only:)+
  have fst: "map (\<lambda>fv. g (fst fv)) ?fs = map g (q_filters q)" for g :: "query_filter \<Rightarrow> 'z"
    by (rule nth_equalityI) simp_all
  have "resolution_of q v x ms (map resolved_value (q_filters q)) = Inr ?r"
    using m ks fs cross by (simp add: resolution_of_def)
  moreover have "resolution_ok q ?d x ms ?r"
    using kmaps fmaps m cross list_all2_lengthD [OF kp]
    by (simp add: resolution_ok_def reached_def names_of_def comp_def
        fst [of "\<lambda>f. met_dimension x (qf_dimension f)"] fst [of "\<lambda>f. landing ?d x (qf_dimension f)"])
  ultimately show ?thesis by blast
qed

lemma resolution_lengths:
  "resolution_ok q d x ms r \<Longrightarrow> length (res_keys r) = length (q_dimensions q)
     \<and> length (res_filters r) = length (q_filters q)"
  by (auto simp: resolution_ok_def dest: map_eq_imp_length_eq)

lemma zip_agree:
  "length xs = length ys \<Longrightarrow>
     (\<forall>(a, b) \<in> set (zip xs ys). f a = g b) \<longleftrightarrow> map (\<lambda>k. Some (f k)) xs = map (\<lambda>k. Some (g k)) ys"
  by (induction xs ys rule: list_induct2) auto

lemma conformed_pairs_eq:
  assumes "resolution_ok q d x ms r" and "resolution_ok q d y ns s"
  shows "(\<forall>(a, b) \<in> set (conformed_pairs r s). landed x a = landed y b)
    \<longleftrightarrow> (\<forall>n \<in> set (names_of q). landing d x n = landing d y n)"
proof -
  have len: "length (res_keys r) = length (res_keys s)" "length (res_filters r) = length (res_filters s)"
    using resolution_lengths [OF assms(1)] resolution_lengths [OF assms(2)] by simp_all
  then have "conformed_pairs r s = zip (reached r) (reached s)"
    by (simp add: conformed_pairs_def reached_def)
  moreover have "length (reached r) = length (reached s)" using len by (simp add: reached_def)
  ultimately have "(\<forall>(a, b) \<in> set (conformed_pairs r s). landed x a = landed y b)
      \<longleftrightarrow> map (\<lambda>k. Some (landed x k)) (reached r) = map (\<lambda>k. Some (landed y k)) (reached s)"
    by (simp only: zip_agree)
  also have "\<dots> \<longleftrightarrow> (\<forall>n \<in> set (names_of q). landing d x n = landing d y n)"
    using assms by (simp add: resolution_ok_def)
  finally show ?thesis .
qed

lemma conformed_ok:
  assumes "list_all2 (\<lambda>x r. resolution_ok q d x [x] r) ms each" and "ms \<noteq> []"
  shows "conformed each = Inr () \<longleftrightarrow>
    (\<forall>x \<in> set ms. \<forall>n \<in> set (names_of q). landing d (hd ms) n = landing d x n)"
proof -
  from assms obtain x xs r rs where split: "ms = x # xs" "each = r # rs"
    and r: "resolution_ok q d x [x] r" and rs: "list_all2 (\<lambda>x r. resolution_ok q d x [x] r) xs rs"
    by (cases ms; cases each) auto
  have "conformed each = Inr () \<longleftrightarrow>
      (\<forall>s \<in> set rs. \<forall>(a, b) \<in> set (conformed_pairs r s). landed (res_metric r) a = landed (res_metric s) b)"
    by (simp add: conformed_def split res_simps case_prod_unfold)
  also have "\<dots> \<longleftrightarrow> (\<forall>s \<in> set rs. \<forall>n \<in> set (names_of q). landing d x n = landing d (res_metric s) n)"
  proof (rule ball_cong [OF refl])
    fix s assume "s \<in> set rs"
    with rs obtain y where y: "resolution_ok q d y [y] s"
      by (auto simp: list_all2_conv_all_nth in_set_conv_nth)
    from conformed_pairs_eq [OF r y] show "(\<forall>(a, b) \<in> set (conformed_pairs r s).
        landed (res_metric r) a = landed (res_metric s) b)
        = (\<forall>n \<in> set (names_of q). landing d x n = landing d (res_metric s) n)"
      using r y by (simp add: resolution_ok_def)
  qed
  also have "\<dots> \<longleftrightarrow> (\<forall>y \<in> set xs. \<forall>n \<in> set (names_of q). landing d x n = landing d y n)"
  proof -
    have xs: "xs = map res_metric rs"
      using rs by (induction xs rs rule: list_all2_induct) (auto simp: resolution_ok_def)
    show ?thesis unfolding xs by simp
  qed
  finally show ?thesis using split by auto
qed

lemma resolve_total:
  assumes d: "definitions_ok (sv_pinned v)"
  shows "case resolve q v c of
      Inr r \<Rightarrow> (\<exists>ms. permitted q v c ms \<and> ms \<noteq> []
          \<and> resolution_ok q (sv_pinned v) (hd ms) ms (resolved_whole r)
          \<and> (if length ms > 1 then list_all2 (\<lambda>x s. resolution_ok q (sv_pinned v) x [x] s) ms (resolved_per_metric r)
             else resolved_per_metric r = [])
          \<and> (\<forall>x \<in> set ms. \<forall>n \<in> set (names_of q). landing (sv_pinned v) (hd ms) n = landing (sv_pinned v) x n))
    | Inl e \<Rightarrow> (\<exists>reason. e = Refused reason)
        \<and> \<not> (\<exists>ms. permitted q v c ms
             \<and> (\<forall>x \<in> set ms. \<forall>n \<in> set (names_of q). landing (sv_pinned v) (hd ms) n = landing (sv_pinned v) x n))"
proof (cases "resolve_checks q v c")
  case (Inl e)
  moreover have "\<not> permitted q v c ms" for ms using resolve_checks_ok [of q v c ms] Inl by auto
  ultimately show ?thesis by (auto simp: resolve_def)
next
  case (Inr p)
  obtain ms vs where p: "p = (ms, vs)" by (cases p)
  from Inr p have perm: "permitted q v c ms" and vs: "vs = map resolved_value (q_filters q)"
    using resolve_checks_ok [of q v c ms vs] by auto
  have maps: "map (view_metric v) (ne_iter (q_metrics q)) = map Some ms"
    using perm by (simp add: permitted_def)
  have unique: "ms' = ms" if "permitted q v c ms'" for ms'
    using that maps by (simp add: permitted_def inj_map_eq_map)
  have ne: "ms \<noteq> []" using maps by (metis map_is_Nil_conv ne_iter_simps(3))
  have ok: "metric_ok (defs_models (sv_pinned v)) (defs_relationships (sv_pinned v)) x" if "x \<in> set ms" for x
  proof -
    from that maps obtain n where "view_metric v n = Some x"
      by (metis (no_types, lifting) ex_map_conv image_eqI list.set_map imageE)
    then show ?thesis using view_metric_ok [OF d] by blast
  qed
  have names: "\<forall>n \<in> set (names_of q). met_dimension x n \<noteq> None" if "x \<in> set ms" for x
  proof
    fix n assume "n \<in> set (names_of q)"
    then consider "n \<in> set (q_dimensions q)" | f where "f \<in> set (q_filters q)" "n = qf_dimension f"
      by (auto simp: names_of_def)
    then show "met_dimension x n \<noteq> None"
    proof cases
      case 1
      then show ?thesis using perm that unfolding permitted_def by blast
    next
      case 2
      then have "filter_permitted x f" using perm that unfolding permitted_def by blast
      with 2 show ?thesis by (auto simp: filter_permitted_def)
    qed
  qed
  have res: "\<exists>r. resolution_of q v x ns vs = Inr r \<and> resolution_ok q (sv_pinned v) x ns r" if "x \<in> set ms" for x ns
    unfolding vs by (rule resolution_of_ok [OF d ok [OF that] names [OF that]])
  obtain w where w: "resolution_of q v (hd ms) ms vs = Inr w" "resolution_ok q (sv_pinned v) (hd ms) ms w"
    using res [of "hd ms" ms] ne by auto
  have "\<exists>each. traverse (\<lambda>x. resolution_of q v x [x] vs) ms = Inr each
      \<and> list_all2 (\<lambda>x r. resolution_ok q (sv_pinned v) x [x] r) ms each"
    by (rule traverse_exists) (use res in blast)
  then obtain each where each: "traverse (\<lambda>x. resolution_of q v x [x] vs) ms = Inr each"
    "list_all2 (\<lambda>x r. resolution_ok q (sv_pinned v) x [x] r) ms each" by blast
  show ?thesis
  proof (cases "length ms > 1")
    case False
    then have "ms = [hd ms]" using ne by (cases ms) auto
    then have agree: "\<forall>x \<in> set ms. \<forall>n \<in> set (names_of q). landing (sv_pinned v) (hd ms) n = landing (sv_pinned v) x n"
      by (metis empty_iff list.set(1) set_ConsD)
    with Inr p w False perm ne show ?thesis by (auto simp: resolve_def)
  next
    case True
    show ?thesis
    proof (cases "conformed each")
      case (Inl e)
      then have "\<not> (\<forall>x \<in> set ms. \<forall>n \<in> set (names_of q). landing (sv_pinned v) (hd ms) n = landing (sv_pinned v) x n)"
        using conformed_ok [OF each(2) ne] by auto
      with Inl Inr p True each unique show ?thesis by (auto simp: resolve_def)
    next
      case conf: (Inr u)
      then have "\<forall>x \<in> set ms. \<forall>n \<in> set (names_of q). landing (sv_pinned v) (hd ms) n = landing (sv_pinned v) x n"
        using conformed_ok [OF each(2) ne] by simp
      with conf Inr p True each w perm ne show ?thesis by (auto simp: resolve_def)
    qed
  qed
qed

section \<open>A small question\<close>

definition sample_question :: query where
  "sample_question = \<lparr>q_metrics = ne_one ''m'', q_grain = Day,
     q_range = \<lparr>range_start = Date 2024 1 1, range_end = Date 2024 1 2\<rparr>,
     q_dimensions = [''x''], q_filters = [FilterEq ''x'' [120]], q_top = None\<rparr>"

definition sample_view :: scoped_view where
  "sample_view = \<lparr>sv_pinned = sample_definitions ''x'', sv_scope = Everything\<rparr>"

lemma sample_assembled:
  "assemble (\<lambda>_. False) sample_models sample_relationships [sample_metric ''x'']
     = Inr (sv_pinned sample_view)"
  unfolding sample_view_def scoped_view.simps
  by (rule sample_assembles) (simp_all add: label_eval TIME_BUCKET_LABEL_def)

lemma sample_view_metric: "view_metric sample_view n = (if n = ''m'' then Some (sample_metric ''x'') else None)"
  by (simp add: view_metric_def sample_view_def visible_def sample_definitions_def)

lemma sample_range_days: "range_days (q_range sample_question) = 1"
  unfolding sample_question_def query.simps by code_simp

lemma sample_permitted:
  "c = RowCeiling 120 \<Longrightarrow> permitted sample_question sample_view c [sample_metric ''x'']"
  unfolding permitted_def sample_range_days
  by (simp add: sample_question_def sample_view_metric supports_grain_def filter_permitted_def
      met_dimension_def is_filterable_def permits_def sample_metric_def ne_one_def)

section \<open>Properties\<close>

definition agree_on :: "definitions \<Rightarrow> name list \<Rightarrow> metric list \<Rightarrow> bool" where
  "agree_on d ns ms \<longleftrightarrow> (\<forall>x \<in> set ms. \<forall>n \<in> set ns. landing d (hd ms) n = landing d x n)"

text \<open>C6: over an assembled catalog a question is resolved exactly when every metric it names is
  one the caller can see, the caps, grains, dimensions and filter values are permitted by every one of
  them, and every name lands on the same column for all the metrics; otherwise it is refused with a
  reason, and never because the catalog does not hold together.\<close>
theorem resolve_exact:
  assumes "assemble escaped models relationships metrics = Inr (sv_pinned v)"
  shows "(is_ok (resolve q v ceiling) \<longleftrightarrow>
       (\<exists>ms. permitted q v ceiling ms \<and> agree_on (sv_pinned v) (names_of q) ms))
     \<and> (\<forall>e. resolve q v ceiling = Inl e \<longrightarrow> (\<exists>reason. e = Refused reason))"
  using resolve_total [OF assemble_definitions_ok [OF assms], of q ceiling]
  by (auto simp: agree_on_def is_ok_iff split: sum.splits)

theorem resolve_exact_witness:
  "is_ok (resolve sample_question sample_view (RowCeiling 120))"
  using resolve_exact [OF sample_assembled, of sample_question "RowCeiling 120"]
    sample_permitted [OF refl] by (auto simp: agree_on_def)

text \<open>C7: what a resolution is. It is of the metrics the question names, all visible to the
  caller, over the model of the first; every dimension and filter of the question is there, in order,
  under its own declaration, joined along its declared chain to the model it lands on, which is the
  same for each metric; and with several metrics each one has a resolution of its own.\<close>
theorem resolve_sound:
  assumes "assemble escaped models relationships metrics = Inr (sv_pinned v)"
    and "resolve q v ceiling = Inr r"
  shows "\<exists>ms. map (view_metric v) (ne_iter (q_metrics q)) = map Some ms \<and> ms \<noteq> []
     \<and> (\<forall>x \<in> set ms. visible v x) \<and> length ms \<le> 8
     \<and> resolution_ok q (sv_pinned v) (hd ms) ms (resolved_whole r)
     \<and> (if length ms > 1 then list_all2 (\<lambda>x. resolution_ok q (sv_pinned v) x [x]) ms (resolved_per_metric r)
        else resolved_per_metric r = [])
     \<and> agree_on (sv_pinned v) (names_of q) ms"
proof -
  from resolve_total [OF assemble_definitions_ok [OF assms(1)], of q ceiling] assms(2)
  obtain ms where ms: "permitted q v ceiling ms" "ms \<noteq> []"
    "resolution_ok q (sv_pinned v) (hd ms) ms (resolved_whole r)"
    "if length ms > 1 then list_all2 (\<lambda>x s. resolution_ok q (sv_pinned v) x [x] s) ms (resolved_per_metric r)
       else resolved_per_metric r = []"
    "\<forall>x \<in> set ms. \<forall>n \<in> set (names_of q). landing (sv_pinned v) (hd ms) n = landing (sv_pinned v) x n"
    by auto
  have seen: "visible v x" if "Some x \<in> set (map (view_metric v) ns)" for x ns
    using that by (auto simp: view_metric_def split: option.splits if_splits)
  have "visible v x" if "x \<in> set ms" for x
    using ms(1) that by (intro seen [of _ "ne_iter (q_metrics q)"]) (simp add: permitted_def)
  with ms show ?thesis by (intro exI [of _ ms]) (simp add: agree_on_def permitted_def)
qed

theorem resolve_sound_witness:
  "\<exists>r. resolve sample_question sample_view (RowCeiling 120) = Inr r
     \<and> length (res_keys (resolved_whole r)) = 1"
proof -
  have "is_ok (resolve sample_question sample_view (RowCeiling 120))"
    using resolve_total [OF assemble_definitions_ok [OF sample_assembled], of sample_question "RowCeiling 120"]
      sample_permitted [OF refl] by (auto simp: is_ok_iff split: sum.splits)
  then obtain r where r: "resolve sample_question sample_view (RowCeiling 120) = Inr r"
    by (auto simp: is_ok_iff)
  from resolve_sound [OF sample_assembled r] obtain ms where
    "resolution_ok sample_question (sv_pinned sample_view) (hd ms) ms (resolved_whole r)" by blast
  with r resolution_lengths show ?thesis by (fastforce simp: sample_question_def)
qed



end
