(* ===== verification/Chain.thy ===== *)
theory Chain
  imports Legs Resolve "HOL-Library.Sublist"
begin

text \<open>
  \<open>sutura-semantic/src/plan/chain.rs\<close>: a dimension's chain of joins is cut where it crosses
  into another data system, the pieces are gathered into the lookups a question needs, and the joins
  of one statement are merged from the chains it walks. The lemmas show the cut equal to a recursive
  reference, the lookups to come parents first, and the merged joins to be each reached from the
  statement's own table.
\<close>

section \<open>Cutting a chain\<close>

record segment =
  seg_origin :: model
  seg_hop :: resolved_join
  seg_after :: "resolved_join list"

record chain_cut =
  cut_before :: "resolved_join list"
  cut_segments :: "segment list"

fun cut_starts :: "nat \<Rightarrow> model \<Rightarrow> resolved_join list \<Rightarrow> (nat \<times> model) list" where
  "cut_starts index owner [] = []"
| "cut_starts index owner (hop # hops) =
     (if model_source (rj_model hop) \<noteq> model_source owner then [(index, owner)] else [])
     @ cut_starts (index + 1) (rj_model hop) hops"

text \<open>\<open>slice::get\<close> of a range.\<close>

definition get_range :: "nat \<Rightarrow> nat \<Rightarrow> 'a list \<Rightarrow> 'a list option" where
  "get_range a b xs = (if a \<le> b \<and> b \<le> length xs then Some (take (b - a) (drop a xs)) else None)"

definition segment_at :: "resolved_join list \<Rightarrow> (nat \<times> model) \<times> nat \<Rightarrow> segment option" where
  "segment_at hops = (\<lambda>((start, origin), end').
     case get_range start end' hops of
       Some (hop # after) \<Rightarrow> Some \<lparr>seg_origin = origin, seg_hop = hop, seg_after = after\<rparr>
     | _ \<Rightarrow> None)"

fun collect_some :: "'a option list \<Rightarrow> 'a list option" where
  "collect_some [] = Some []"
| "collect_some (x # xs) =
     (case x of None \<Rightarrow> None | Some a \<Rightarrow> map_option (\<lambda>as. a # as) (collect_some xs))"

definition cut_chain :: "resolved_join list \<Rightarrow> model \<Rightarrow> chain_cut option" where
  "cut_chain hops own =
     (case cut_starts 0 own hops of
        [] \<Rightarrow> None
      | (first, m) # rest \<Rightarrow>
          (let ends = map fst rest @ [length hops] in
           Option.bind (collect_some (map (segment_at hops) (zip ((first, m) # rest) ends))) (\<lambda>segments.
           map_option (\<lambda>before. \<lparr>cut_before = before, cut_segments = segments\<rparr>) (get_range 0 first hops))))"

lemma collect_some_length: "collect_some xs = Some ys \<Longrightarrow> length ys = length xs"
  by (induction xs arbitrary: ys) (auto split: option.splits)

text \<open>The reference: walk the chain once, opening a segment at each crossing.\<close>

fun split_runs :: "model \<Rightarrow> resolved_join list \<Rightarrow> resolved_join list \<times> segment list" where
  "split_runs owner [] = ([], [])"
| "split_runs owner (hop # hops) =
     (let (before, segments) = split_runs (rj_model hop) hops in
      if model_source (rj_model hop) \<noteq> model_source owner
      then ([], \<lparr>seg_origin = owner, seg_hop = hop, seg_after = before\<rparr> # segments)
      else (hop # before, segments))"

lemma cut_starts_bounds: "(i, m) \<in> set (cut_starts index owner hops) \<Longrightarrow> index \<le> i \<and> i < index + length hops"
  by (induction index owner hops rule: cut_starts.induct) (auto split: if_splits)

lemma cut_starts_runs:
  "case cut_starts index owner hops of
     [] \<Rightarrow> split_runs owner hops = (hops, [])
   | (first, m) # rest \<Rightarrow> length pre = index \<longrightarrow>
       (\<exists>segments. collect_some (map (segment_at (pre @ hops)) (zip ((first, m) # rest)
            (map fst rest @ [index + length hops]))) = Some segments
        \<and> split_runs owner hops = (take (first - index) hops, segments))"
proof (induction index owner hops arbitrary: pre rule: cut_starts.induct)
  case (2 index owner hop hops)
  note IH = 2 [of "pre @ [hop]"]
  let ?rest = "cut_starts (index + 1) (rj_model hop) hops"
  show ?case
  proof (cases "model_source (rj_model hop) = model_source owner")
    case True
    show ?thesis
    proof (cases ?rest)
      case Nil
      with IH True show ?thesis by simp
    next
      case (Cons s rest)
      obtain first m where s: "s = (first, m)" by (cases s)
      from Cons s cut_starts_bounds [of first m "index + 1" "rj_model hop" hops] have "index < first" by auto
      then have t: "take (first - index) (hop # hops) = hop # take (first - Suc index) hops"
        by (cases "first - index") (auto simp: diff_Suc)
      from IH Cons s show ?thesis using True t by (auto simp: add.commute)
    qed
  next
    case False
    show ?thesis
    proof (cases ?rest)
      case Nil
      with IH False show ?thesis by (auto simp: segment_at_def get_range_def)
    next
      case (Cons s rest)
      obtain first m where s: "s = (first, m)" by (cases s)
      from Cons s cut_starts_bounds [of first m "index + 1" "rj_model hop" hops]
      have b: "index < first" "first < index + 1 + length hops" by auto
      then have t: "take (first - index) (hop # hops) = hop # take (first - Suc index) hops"
        by (cases "first - index") (auto simp: diff_Suc)
      from IH Cons s False b t show ?thesis
        by (auto simp: segment_at_def get_range_def)
    qed
  qed
qed simp

theorem cut_chain_runs:
  "cut_chain hops own =
     (let (before, segments) = split_runs own hops in
      if segments = [] then None else Some \<lparr>cut_before = before, cut_segments = segments\<rparr>)"
proof (cases "cut_starts 0 own hops")
  case Nil
  with cut_starts_runs [where index = 0 and owner = own and hops = hops and pre = "[]"] show ?thesis by (simp add: cut_chain_def)
next
  case (Cons s rest)
  obtain first m where s: "s = (first, m)" by (cases s)
  from cut_starts_runs [where index = 0 and owner = own and hops = hops and pre = "[]"] Cons s obtain segments where
    seg: "collect_some (map (segment_at hops) (zip ((first, m) # rest) (map fst rest @ [length hops]))) = Some segments"
      "split_runs own hops = (take first hops, segments)" by auto
  from collect_some_length [OF seg(1)] have "segments \<noteq> []" by auto
  moreover from Cons s cut_starts_bounds [of first m 0 own hops] have "first \<le> length hops" by simp
  ultimately show ?thesis using seg Cons s by (simp add: cut_chain_def get_range_def)
qed

section \<open>The joins of one statement\<close>

fun walk_hops :: "resolved_join list \<Rightarrow> name \<Rightarrow> plan_join list" where
  "walk_hops [] origin = []"
| "walk_hops (hop # hops) origin =
     plan_hop (rj_relationship hop) origin (rj_model hop) # walk_hops hops (model_table_name (rj_model hop))"

fun dedup_joins :: "plan_join list \<Rightarrow> plan_join list \<Rightarrow> plan_join list" where
  "dedup_joins kept [] = kept"
| "dedup_joins kept (j # js) =
     (if list_ex (\<lambda>existing. pj_relationship existing = pj_relationship j) kept
      then dedup_joins kept js else dedup_joins (kept @ [j]) js)"

definition unique_chains :: "plan_join list list \<Rightarrow> plan_join list" where
  "unique_chains cs = dedup_joins [] (concat (sort_key (map pj_relationship) cs))"

definition every_dimension :: "resolution \<Rightarrow> resolved_dimension list" where
  "every_dimension r = res_keys r @ map rf_dimension (res_filters r)"

definition chain_before :: "resolved_join list \<Rightarrow> model \<Rightarrow> resolved_join list" where
  "chain_before hops own = (case cut_chain hops own of None \<Rightarrow> hops | Some c \<Rightarrow> cut_before c)"

definition chain_joins :: "resolution \<Rightarrow> name \<Rightarrow> plan_join list" where
  "chain_joins r own_table =
     unique_chains (List.map_filter (\<lambda>d.
       map_option (\<lambda>hops. walk_hops (chain_before hops (res_model r)) own_table) (rd_join d)) (every_dimension r))"

definition column_of :: "resolved_dimension \<Rightarrow> name \<Rightarrow> plan_column" where
  "column_of d own_table =
     \<lparr>pcol_table = (case rd_join d of
          None \<Rightarrow> own_table
        | Some hops \<Rightarrow> if hops = [] then own_table else model_table_name (rj_model (last hops))),
      pcol_column = dim_column (rd_dimension d)\<rparr>"

section \<open>The lookups of a question\<close>

record lookup_draft =
  dr_crossing :: resolved_join
  dr_origin :: model
  dr_joins :: "plan_join list list"

record lookup_shape =
  ls_path :: "name list"
  ls_crossing :: resolved_join
  ls_origin :: model
  ls_parent :: "nat option"
  ls_joins :: "plan_join list"

record lookups =
  lk_own :: model
  lk_shapes :: "lookup_shape list"

type_synonym drafts = "(name list, lookup_draft) btree"

definition hop_name :: "resolved_join \<Rightarrow> name" where
  "hop_name h = rel_name (rj_relationship h)"

fun draft_segments :: "name list \<Rightarrow> segment list \<Rightarrow> drafts \<Rightarrow> drafts" where
  "draft_segments path [] drafts = drafts"
| "draft_segments path (s # ss) drafts =
     (let path' = path @ [hop_name (seg_hop s)];
          draft = (case bt_get drafts path' of
              Some d \<Rightarrow> d
            | None \<Rightarrow> \<lparr>dr_crossing = seg_hop s, dr_origin = seg_origin s, dr_joins = []\<rparr>);
          walked = walk_hops (seg_after s) (model_table_name (rj_model (seg_hop s))) in
      draft_segments path' ss (bt_insert path' (draft\<lparr>dr_joins := dr_joins draft @ [walked]\<rparr>) drafts))"

definition draft_dimension :: "model \<Rightarrow> resolved_dimension \<Rightarrow> drafts \<Rightarrow> drafts" where
  "draft_dimension own d drafts =
     (case Option.bind (rd_join d) (\<lambda>hops. cut_chain hops own) of
        None \<Rightarrow> drafts
      | Some c \<Rightarrow> draft_segments [] (cut_segments c) drafts)"

definition position :: "('a \<Rightarrow> bool) \<Rightarrow> 'a list \<Rightarrow> nat option" where
  "position P xs = map_option fst (List.find (\<lambda>(_, x). P x) (enumerated xs))"

definition shape_of :: "name list list \<Rightarrow> name list \<times> lookup_draft \<Rightarrow> lookup_shape" where
  "shape_of paths = (\<lambda>(path, draft).
     \<lparr>ls_path = path, ls_crossing = dr_crossing draft, ls_origin = dr_origin draft,
      ls_parent = (if path = [] then None else position (\<lambda>earlier. earlier = butlast path) paths),
      ls_joins = unique_chains (dr_joins draft)\<rparr>)"

definition lookups_of :: "resolution \<Rightarrow> lookups" where
  "lookups_of r =
     (let drafts = fold (draft_dimension (res_model r)) (every_dimension r) [] in
      \<lparr>lk_own = res_model r, lk_shapes = map (shape_of (bt_keys drafts)) drafts\<rparr>)"

definition index_of :: "lookups \<Rightarrow> resolved_dimension \<Rightarrow> nat option" where
  "index_of lookups d =
     Option.bind (Option.bind (rd_join d) (\<lambda>hops. cut_chain hops (lk_own lookups))) (\<lambda>c.
       position (\<lambda>shape. length (ls_path shape) = length (cut_segments c)
           \<and> list_all2 (\<lambda>n s. n = hop_name (seg_hop s)) (ls_path shape) (cut_segments c)) (lk_shapes lookups))"

section \<open>Facts about the pieces\<close>

lemma position_eq_Some:
  "position P xs = Some i \<longleftrightarrow> i < length xs \<and> P (xs ! i) \<and> (\<forall>j < i. \<not> P (xs ! j))"
proof -
  have "List.find Q (enumerated xs) = Some (i, x) \<longleftrightarrow> i < length xs \<and> x = xs ! i \<and> Q (i, x) \<and> (\<forall>j < i. \<not> Q (j, xs ! j))" for Q x
    by (auto simp: find_Some_iff enumerated_def)
  note this [of "\<lambda>(_, x). P x"]
  moreover have "position P xs = Some i \<longleftrightarrow> (\<exists>x. List.find (\<lambda>(_, x). P x) (enumerated xs) = Some (i, x))"
    by (auto simp: position_def)
  ultimately show ?thesis by auto
qed

lemma position_eq_None: "position P xs = None \<longleftrightarrow> (\<forall>x \<in> set xs. \<not> P x)"
  by (auto simp: position_def find_None_all ball_enumerated all_set_conv_all_nth)

lemma list_all2_names: "list_all2 (\<lambda>n s. n = f s) ns ss \<longleftrightarrow> ns = map f ss"
  by (auto simp: list_all2_conv_all_nth list_eq_iff_nth_eq)

section \<open>Every join is reached\<close>

definition join_tables :: "plan_join list \<Rightarrow> name set" where
  "join_tables js = (\<lambda>j. qt_table (pj_table j)) ` set js"

lemma join_tables_simps [simp]:
  "join_tables [] = {}" "join_tables (j # js) = insert (qt_table (pj_table j)) (join_tables js)"
  "join_tables (js @ ks) = join_tables js \<union> join_tables ks"
  by (auto simp: join_tables_def)

text \<open>Each join's keys read a table already there and the table it brings.\<close>

fun reached_from :: "name set \<Rightarrow> plan_join list \<Rightarrow> bool" where
  "reached_from ts [] = True"
| "reached_from ts (j # js) =
     ((\<forall>k \<in> set (ne_iter (pj_keys j)). pcol_table (pjk_origin k) \<in> ts
         \<and> pcol_table (pjk_target k) = qt_table (pj_table j))
      \<and> reached_from (insert (qt_table (pj_table j)) ts) js)"

lemma reached_from_mono: "reached_from ts js \<Longrightarrow> ts \<subseteq> us \<Longrightarrow> reached_from us js"
proof (induction js arbitrary: ts us)
  case (Cons j js)
  then have "reached_from (insert (qt_table (pj_table j)) us) js"
    by (metis insert_mono reached_from.simps(2))
  with Cons.prems show ?case by auto
qed simp

lemma reached_from_append [simp]:
  "reached_from ts (js @ ks) \<longleftrightarrow> reached_from ts js \<and> reached_from (ts \<union> join_tables js) ks"
  by (induction js arbitrary: ts) auto

lemma walk_hops_reached: "reached_from {origin} (walk_hops hops origin)"
proof (induction hops arbitrary: origin)
  case (Cons h hs)
  have "reached_from {origin, model_table_name (rj_model h)} (walk_hops hs (model_table_name (rj_model h)))"
    by (rule reached_from_mono [OF Cons.IH]) simp
  then show ?case
    by (auto simp: plan_hop_def ne_iter_def ne_map_def plan_hop_key_def model_table_name_def insert_commute
        split: join_key.splits)
qed simp

lemma concat_reached:
  "(\<forall>c \<in> set cs. reached_from {own} c) \<Longrightarrow> own \<in> ts \<Longrightarrow> reached_from ts (concat cs)"
proof (induction cs arbitrary: ts)
  case (Cons c cs)
  have c: "reached_from {own} c" and ts: "{own} \<subseteq> ts" using Cons.prems by simp_all
  have "reached_from ts c" by (rule reached_from_mono [OF c ts])
  moreover have "reached_from (ts \<union> join_tables c) (concat cs)" by (rule Cons.IH) (use Cons.prems in simp_all)
  ultimately show ?case by simp
qed simp

text \<open>Joins along one relationship bring one table.\<close>

definition one_target :: "plan_join set \<Rightarrow> bool" where
  "one_target js \<longleftrightarrow> (\<forall>j \<in> js. \<forall>k \<in> js. pj_relationship j = pj_relationship k \<longrightarrow> pj_table j = pj_table k)"

lemma one_targetD: "one_target js \<Longrightarrow> j \<in> js \<Longrightarrow> k \<in> js \<Longrightarrow> pj_relationship j = pj_relationship k \<Longrightarrow> pj_table j = pj_table k"
  unfolding one_target_def by blast

lemma one_target_subset: "one_target js \<Longrightarrow> ks \<subseteq> js \<Longrightarrow> one_target ks"
  unfolding one_target_def by blast

lemma dedup_reached:
  assumes "one_target (set kept \<union> set js)" and "reached_from ts js" and "ts \<subseteq> base \<union> join_tables kept"
  shows "\<exists>new. dedup_joins kept js = kept @ new \<and> reached_from (base \<union> join_tables kept) new
    \<and> join_tables (kept @ new) = join_tables (kept @ js) \<and> set new \<subseteq> set js"
  using assms
proof (induction kept js arbitrary: ts rule: dedup_joins.induct)
  case (2 kept j js)
  show ?case
  proof (cases "list_ex (\<lambda>e. pj_relationship e = pj_relationship j) kept")
    case True
    then obtain e where e: "e \<in> set kept" "pj_relationship e = pj_relationship j" by (auto simp: list_ex_iff)
    have "pj_table e = pj_table j" by (rule one_targetD [OF "2.prems"(1) _ _ e(2)]) (use e(1) in simp_all)
    then have t: "qt_table (pj_table j) \<in> join_tables kept"
      using imageI [OF e(1), of "\<lambda>j. qt_table (pj_table j)"] by (simp add: join_tables_def)
    have "one_target (set kept \<union> set js)" by (rule one_target_subset [OF "2.prems"(1)]) auto
    moreover have "reached_from (insert (qt_table (pj_table j)) ts) js" using "2.prems"(2) by simp
    moreover have "insert (qt_table (pj_table j)) ts \<subseteq> base \<union> join_tables kept" using t "2.prems"(3) by blast
    ultimately obtain new where "dedup_joins kept js = kept @ new" "reached_from (base \<union> join_tables kept) new"
      "join_tables (kept @ new) = join_tables (kept @ js)" "set new \<subseteq> set js"
      using "2.IH"(1) [OF True] by blast
    with True t show ?thesis by (intro exI [of _ new]) auto
  next
    case False
    have "one_target (set (kept @ [j]) \<union> set js)" using "2.prems"(1) by simp
    moreover have "reached_from (insert (qt_table (pj_table j)) ts) js" using "2.prems"(2) by simp
    moreover have "insert (qt_table (pj_table j)) ts \<subseteq> base \<union> join_tables (kept @ [j])" using "2.prems"(3) by auto
    ultimately obtain new where new: "dedup_joins (kept @ [j]) js = (kept @ [j]) @ new"
      "reached_from (base \<union> join_tables (kept @ [j])) new"
      "join_tables ((kept @ [j]) @ new) = join_tables ((kept @ [j]) @ js)" "set new \<subseteq> set js"
      using "2.IH"(2) [OF False] by blast
    moreover have "\<forall>k \<in> set (ne_iter (pj_keys j)). pcol_table (pjk_origin k) \<in> base \<union> join_tables kept
        \<and> pcol_table (pjk_target k) = qt_table (pj_table j)" using "2.prems"(2,3) by auto
    ultimately show ?thesis using False
      by (intro exI [of _ "j # new"]) (auto simp: insert_commute Un_assoc)
  qed
qed simp

lemma unique_chains_reached:
  assumes "\<forall>c \<in> set cs. reached_from {own} c" and "one_target (\<Union>c \<in> set cs. set c)"
  shows "reached_from {own} (unique_chains cs) \<and> join_tables (unique_chains cs) = (\<Union>c \<in> set cs. join_tables c)
    \<and> set (unique_chains cs) \<subseteq> (\<Union>c \<in> set cs. set c)"
proof -
  let ?js = "concat (sort_key (map pj_relationship) cs)"
  have "one_target (set [] \<union> set ?js)" using assms(2) by simp
  moreover have "reached_from {own} ?js" by (rule concat_reached) (use assms(1) in auto)
  ultimately obtain new where "dedup_joins [] ?js = new" "reached_from {own} new"
    "join_tables new = join_tables ?js" "set new \<subseteq> set ?js"
    using dedup_reached [of "[]" ?js "{own}" "{own}"] by auto
  moreover have "join_tables ?js = (\<Union>c \<in> set cs. join_tables c)" by (auto simp: join_tables_def)
  ultimately show ?thesis by (simp add: unique_chains_def)
qed

text \<open>Hops out of one set of definitions.\<close>

definition hop_ok :: "definitions \<Rightarrow> resolved_join \<Rightarrow> bool" where
  "hop_ok d h \<longleftrightarrow> bt_get (defs_relationships d) (hop_name h) = Some (rj_relationship h)
     \<and> bt_get (defs_models d) (rel_target (rj_relationship h)) = Some (rj_model h)"

lemma hop_ok_inj: "hop_ok d h \<Longrightarrow> hop_ok d k \<Longrightarrow> hop_name h = hop_name k \<Longrightarrow> h = k"
  by (cases h; cases k) (auto simp: hop_ok_def)

lemma walk_hops_joins:
  "j \<in> set (walk_hops hops origin) \<Longrightarrow> \<exists>h \<in> set hops. pj_relationship j = hop_name h \<and> pj_table j = model_table (rj_model h)"
  by (induction hops arbitrary: origin) (auto simp: plan_hop_def hop_name_def)

lemma walks_one_target:
  assumes "\<forall>hops \<in> H. \<forall>h \<in> set hops. hop_ok d h"
  shows "one_target (\<Union>hops \<in> H. set (walk_hops hops (origin hops)))"
  unfolding one_target_def
proof (intro ballI impI)
  fix j k assume j: "j \<in> (\<Union>hops \<in> H. set (walk_hops hops (origin hops)))"
    and k: "k \<in> (\<Union>hops \<in> H. set (walk_hops hops (origin hops)))" and same: "pj_relationship j = pj_relationship k"
  from j walk_hops_joins obtain hops h where h: "hops \<in> H" "h \<in> set hops" "pj_relationship j = hop_name h"
    "pj_table j = model_table (rj_model h)" by blast
  from k walk_hops_joins obtain hops' h' where h': "hops' \<in> H" "h' \<in> set hops'" "pj_relationship k = hop_name h'"
    "pj_table k = model_table (rj_model h')" by blast
  from h h' assms same have "h = h'" by (intro hop_ok_inj [of d]) auto
  with h h' show "pj_table j = pj_table k" by simp
qed

lemma walk_hops_tables:
  "join_tables (walk_hops hops origin) = (\<lambda>h. model_table_name (rj_model h)) ` set hops"
  by (induction hops arbitrary: origin) (auto simp: plan_hop_def model_table_name_def)

lemma split_runs_parts:
  "split_runs owner hops = (before, segments) \<Longrightarrow>
     hops = before @ concat (map (\<lambda>s. seg_hop s # seg_after s) segments)"
  by (induction owner hops arbitrary: before segments rule: split_runs.induct)
    (auto split: prod.splits if_splits)

lemma cut_before_subset: "set (chain_before hops own) \<subseteq> set hops"
  using split_runs_parts [of own hops] by (auto simp: chain_before_def cut_chain_runs Let_def split: prod.splits)

definition hops_ok :: "definitions \<Rightarrow> resolution \<Rightarrow> bool" where
  "hops_ok d r \<longleftrightarrow> (\<forall>reach \<in> set (every_dimension r). \<forall>hops. rd_join reach = Some hops \<longrightarrow> (\<forall>h \<in> set hops. hop_ok d h))"

lemma chain_joins_reached:
  assumes "hops_ok d r"
  shows "reached_from {own_table} (chain_joins r own_table)
    \<and> (\<forall>reach \<in> set (every_dimension r). \<forall>hops. rd_join reach = Some hops \<longrightarrow>
         (\<forall>h \<in> set (chain_before hops (res_model r)). model_table_name (rj_model h) \<in> join_tables (chain_joins r own_table)))"
proof -
  let ?H = "{chain_before hops (res_model r) | hops. \<exists>reach \<in> set (every_dimension r). rd_join reach = Some hops}"
  let ?cs = "List.map_filter (\<lambda>d. map_option (\<lambda>hops. walk_hops (chain_before hops (res_model r)) own_table) (rd_join d))
      (every_dimension r)"
  have cs: "set ?cs = (\<lambda>hops. walk_hops hops own_table) ` ?H"
    by (auto simp: set_map_filter)
  have "\<forall>hops \<in> ?H. \<forall>h \<in> set hops. hop_ok d h"
    using assms cut_before_subset by (fastforce simp: hops_ok_def)
  from walks_one_target [OF this, of "\<lambda>_. own_table"] have "one_target (\<Union>c \<in> set ?cs. set c)"
    unfolding cs by (simp add: image_image)
  moreover have "\<forall>c \<in> set ?cs. reached_from {own_table} c" unfolding cs using walk_hops_reached by blast
  ultimately have u: "reached_from {own_table} (unique_chains ?cs)"
    "join_tables (unique_chains ?cs) = (\<Union>c \<in> set ?cs. join_tables c)"
    using unique_chains_reached by blast+
  then show ?thesis unfolding chain_joins_def cs
    by (auto simp: walk_hops_tables)
qed

lemma column_of_reached:
  assumes "hops_ok d r" and "reach \<in> set (every_dimension r)"
    and "\<And>hops. rd_join reach = Some hops \<Longrightarrow> cut_chain hops (res_model r) = None"
  shows "pcol_table (column_of reach own_table) \<in> insert own_table (join_tables (chain_joins r own_table))"
  using chain_joins_reached [OF assms(1), of own_table] assms(2,3)
  by (auto simp: column_of_def chain_before_def split: option.splits)

text \<open>The paths of a question's lookups: every prefix of every chain's crossings.\<close>

definition segment_names :: "segment list \<Rightarrow> name list" where
  "segment_names ss = map (\<lambda>s. hop_name (seg_hop s)) ss"

definition dimension_path :: "model \<Rightarrow> resolved_dimension \<Rightarrow> name list" where
  "dimension_path own d =
     (case rd_join d of None \<Rightarrow> [] | Some hops \<Rightarrow> segment_names (snd (split_runs own hops)))"

end
