(* ===== verification/Planner.thy ===== *)
theory Planner
  imports Chain
begin

text \<open>
  \<open>sutura-semantic/src/plan.rs\<close> with \<open>plan/federated.rs\<close>, \<open>plan/drill_across.rs\<close> and
  \<open>plan/stacked.rs\<close>: a resolution becomes a plan of one statement, a federated plan, a
  drill-across plan or a stacked plan. The digest of a metric is an argument, since its canonical form
  and hash are library code. The lemmas show that the bindings the planner writes are always coherent,
  that a statement reads only the tables it names, and what each path can refuse.
\<close>

section \<open>Errors\<close>

text \<open>
  The variants of \<open>PlanError\<close>. \<open>PlanPanics\<close> is no variant: it stands for the panic of
  \<open>Vec::remove(0)\<close> on a resolution without metrics.
\<close>

datatype 'd plan_error =
    PlanRefused refusal_reason
  | AuthoredSqlNotPlanned name
  | NotAssembled federated_plan_error
  | NotBound incoherent_bindings
  | NotDigestible 'd
  | NotAssembledAcross drill_across_error
  | NotStacked stacked_plan_error
  | NoRemoteJoin
  | NoSecondFactModel
  | PlanPanics

datatype plan = MonoPlan query_plan | FedPlan federated_plan | AcrossPlan drill_across_plan

definition digest :: "(metric \<Rightarrow> 'd + string) \<Rightarrow> metric \<Rightarrow> 'd + metric_digest" where
  "digest of_one m = map_res (\<lambda>d. \<lparr>md_metric = met_name m, md_digest = d\<rparr>) (of_one m)"

definition planned_tables :: "qualified_table \<Rightarrow> plan_join list \<Rightarrow> 'd plan_error + statement_tables" where
  "planned_tables table js =
     map_err (\<lambda>a. PlanRefused (PlanTablesShareAnIdentifier (amb_alias a))) (statement_tables_parse table js)"

definition own_column :: "name \<Rightarrow> name \<Rightarrow> plan_column" where
  "own_column own_table column = \<lparr>pcol_table = own_table, pcol_column = column\<rparr>"

section \<open>Predicates and their parameters\<close>

definition bind_text :: "ustr \<Rightarrow> param_value list \<Rightarrow> nat \<times> param_value list" where
  "bind_text v params = (let params = params @ [ParamText v] in (length params - 1, params))"

definition index_range :: "nat \<Rightarrow> nat \<Rightarrow> nat nonempty" where
  "index_range start many = NonEmpty start [sat_add_usize start 1..<sat_add_usize start many]"

definition requested_predicate ::
  "resolved_filter \<Rightarrow> plan_column \<Rightarrow> param_value list \<Rightarrow> plan_predicate \<times> param_value list" where
  "requested_predicate f column params =
     (case rf_value f of
        ResolvedEq v \<Rightarrow> (PlanEquals column (length params), params @ [ParamText v])
      | ResolvedIn vs \<Rightarrow>
          (PlanIn column (index_range (length params) (ne_len vs)), params @ map ParamText (ne_iter vs))
      | ResolvedNotIn vs \<Rightarrow>
          (PlanNotIn column (index_range (length params) (ne_len vs)), params @ map ParamText (ne_iter vs)))"

definition emit_required :: "name \<Rightarrow> required_filter \<Rightarrow> param_value list \<Rightarrow> plan_filter \<times> param_value list" where
  "emit_required own_table required params =
     (let (predicate, params) = plan_required_filter required (own_column own_table (filter_column required)) bind_text params in
      (\<lparr>pf_origin = OriginDefinition, pf_predicate = predicate\<rparr>, params))"

definition emit_requested :: "name \<Rightarrow> resolved_filter \<Rightarrow> param_value list \<Rightarrow> plan_filter \<times> param_value list" where
  "emit_requested own_table f params =
     (let (predicate, params) = requested_predicate f (column_of (rf_dimension f) own_table) params in
      (\<lparr>pf_origin = OriginRequested, pf_predicate = predicate\<rparr>, params))"

fun emit_each ::
  "('x \<Rightarrow> param_value list \<Rightarrow> plan_filter \<times> param_value list) \<Rightarrow> 'x list \<Rightarrow> param_value list
     \<Rightarrow> plan_filter list \<times> param_value list" where
  "emit_each emit [] params = ([], params)"
| "emit_each emit (x # xs) params =
     (let (f, params) = emit x params; (fs, params) = emit_each emit xs params in (f # fs, params))"

definition predicates_and_params ::
  "resolution \<Rightarrow> resolved_filter list \<Rightarrow> name \<Rightarrow> plan_column \<Rightarrow> incoherent_bindings + plan_bindings" where
  "predicates_and_params r requested own_table time_column =
     (let (rng, params) = range_filters (res_range r) time_column [];
          (required, params) = emit_each (emit_required own_table) (met_required_filters (res_metric r)) params;
          (asked, params) = emit_each (emit_requested own_table) requested params in
      plan_bindings_parse (rng @ required @ asked) params)"

fun guard_metrics ::
  "name \<Rightarrow> metric list \<Rightarrow> param_value list
     \<Rightarrow> 'd plan_error + planned_measure list \<times> plan_filter list \<times> param_value list" where
  "guard_metrics own_table [] params = Inr ([], [], params)"
| "guard_metrics own_table (m # ms) params =
     bind_res (ok_or (AuthoredSqlNotPlanned (met_name m)) (met_measure m)) (\<lambda>formula.
     let (required, params) = emit_each (emit_required own_table) (met_required_filters m) params in
     map_res (\<lambda>(measured, filters, params).
         (\<lparr>pm_metric = met_name m, pm_label = label_measure (met_name m),
           pm_measure = plan_measure_of formula (own_column own_table),
           pm_guard = map pf_predicate required\<rparr> # measured,
          required @ filters, params))
       (guard_metrics own_table ms params))"

definition guards_and_shared ::
  "resolution \<Rightarrow> resolved_filter list \<Rightarrow> name \<Rightarrow> plan_column
     \<Rightarrow> 'd plan_error + planned_measure nonempty \<times> plan_bindings" where
  "guards_and_shared r requested own_table time_column =
     bind_res (guard_metrics own_table (res_metrics r) []) (\<lambda>(measured, filters, params).
     let (rng, params) = range_filters (res_range r) time_column params;
         (asked, params) = emit_each (emit_requested own_table) requested params in
     case measured of
       [] \<Rightarrow> Inl PlanPanics
     | head # rest \<Rightarrow>
         map_res (\<lambda>bindings. (NonEmpty head rest, bindings))
           (map_err NotBound (plan_bindings_parse (filters @ rng @ asked) params)))"

definition range_only :: "time_range \<Rightarrow> plan_column \<Rightarrow> incoherent_bindings + plan_bindings" where
  "range_only rng time_column = (let (filters, params) = range_filters rng time_column [] in plan_bindings_parse filters params)"

definition requested_for :: "resolved_filter list \<Rightarrow> name \<Rightarrow> incoherent_bindings + plan_bindings" where
  "requested_for requested remote_table =
     (let (filters, params) = emit_each (emit_requested remote_table) requested [] in plan_bindings_parse filters params)"

section \<open>What is checked before planning\<close>

definition cross_model_term :: "resolution \<Rightarrow> (metric \<times> name) option" where
  "cross_model_term r =
     (case List.map_filter (\<lambda>m. map_option (\<lambda>n. (m, n))
          (Option.bind (met_measure m) (\<lambda>q. List.find (\<lambda>n. n \<noteq> met_model m) (List.map_filter id (measure_models q)))))
        (res_metrics r) of
        [] \<Rightarrow> None
      | found # _ \<Rightarrow> Some found)"

definition prechecked :: "resolution \<Rightarrow> 'd plan_error + measure \<times> lookups" where
  "prechecked r =
     bind_res (ok_or (AuthoredSqlNotPlanned (met_name (res_metric r))) (met_measure (res_metric r))) (\<lambda>formula.
     let lks = lookups_of r in
     case cross_model_term r of
       None \<Rightarrow> Inr (formula, lks)
     | Some (crossing_metric, m) \<Rightarrow>
         if met_shared_calendars crossing_metric = None
         then Inl (PlanRefused (CrossModelRatioWithoutSharedCalendar (met_name crossing_metric) m))
         else (case res_cross r of
             None \<Rightarrow> Inl NoSecondFactModel
           | Some cross \<Rightarrow>
               if lk_shapes lks = [] \<or> list_ex (\<lambda>d. index_of lks d = None) (every_dimension r)
               then Inl (PlanRefused (CrossModelRatioWithoutSharedDimension (met_name crossing_metric) (model_name (cm_second cross))))
               else Inr (formula, lks)))"

definition too_many_lookup_legs :: "nat \<Rightarrow> plan_ceilings \<Rightarrow> 'd plan_error" where
  "too_many_lookup_legs legs ceilings = PlanRefused (PlanNeedsTooManyLookupLegs legs (pc_lookup_legs ceilings))"

definition bounded_legs :: "nat \<Rightarrow> nat \<Rightarrow> 'd plan_error + unit" where
  "bounded_legs legs limit = ensure (legs \<le> limit) (PlanRefused (QuestionNeedsTooManyLegs legs limit))"

definition bounded_sources :: "name list \<Rightarrow> nat \<Rightarrow> 'd plan_error + unit" where
  "bounded_sources sources limit =
     (let sources = length (bs_of sources) in
      ensure (sources \<le> limit) (PlanRefused (PlanSpansTooManySources sources limit)))"

section \<open>One statement\<close>

definition dimension_key :: "name \<Rightarrow> resolved_dimension \<Rightarrow> plan_key" where
  "dimension_key own_table key = plan_key_new (label_dimension (dim_name (rd_dimension key))) (column_of key own_table)"

definition mono_plan :: "resolution \<Rightarrow> measure \<Rightarrow> 'd plan_error + query_plan" where
  "mono_plan r formula =
     (let m = res_model r; metric = res_metric r; own_table = model_table_name m;
          js = chain_joins r own_table;
          time_column = own_column own_table (met_time_column metric);
          keys = map (dimension_key own_table) (res_keys r) in
      bind_res (planned_tables (model_table m) js) (\<lambda>tables.
      let bucket = \<lparr>pb_label = label_bucket, pb_grain = res_grain r, pb_column = time_column\<rparr> in
      if length (res_metrics r) = 1 then
        bind_res (map_err NotBound (predicates_and_params r (res_filters r) own_table time_column)) (\<lambda>bindings.
          Inr (query_plan_new (model_source m) (met_name metric) tables bucket keys
            (plan_measure_of formula (own_column own_table)) (label_measure (met_name metric)) bindings (res_range r)))
      else
        bind_res (guards_and_shared r (res_filters r) own_table time_column) (\<lambda>(measured, bindings).
          Inr (with_measures (model_source m) measured tables bucket keys bindings (res_range r)))))"

section \<open>A federated plan\<close>

definition link_label :: "nat \<Rightarrow> nat \<Rightarrow> result_label" where
  "link_label leg part = label_internal (Link leg part)"

definition origin_key :: "result_label \<Rightarrow> name \<Rightarrow> join_key \<Rightarrow> plan_key" where
  "origin_key l table key =
     (case key_grain key of
        Some g \<Rightarrow> plan_key_truncated l (own_column table (key_origin key)) g
      | None \<Rightarrow> plan_key_new l (own_column table (key_origin key)))"

definition declared_type :: "model \<Rightarrow> name \<Rightarrow> column_type option" where
  "declared_type m column = Option.bind (model_column m column) col_data_type"

definition link_part_agrees ::
  "relationship \<Rightarrow> link_kind option \<Rightarrow> model \<Rightarrow> model \<Rightarrow> nat \<times> join_key \<Rightarrow> 'd plan_error + unit" where
  "link_part_agrees r declared fact_side lookup_side = (\<lambda>(part, key).
     case (declared_type fact_side (key_origin key), declared_type lookup_side (key_target key)) of
       (Some f, Some l) \<Rightarrow>
         (case (link_of_origin key f, link_declared l) of
            (Some on_fact, Some on_lookup) \<Rightarrow>
              ensure (joins (if part = 0 then declared else None) on_fact on_lookup)
                (PlanRefused (FederationLinkTypeMismatch (rel_name r) f l))
          | _ \<Rightarrow> Inr ())
     | _ \<Rightarrow> Inr ())"

definition link_types_agree ::
  "relationship \<Rightarrow> link_kind option \<Rightarrow> model \<Rightarrow> model \<Rightarrow> 'd plan_error + unit" where
  "link_types_agree r declared fact_side lookup_side =
     each_ok (link_part_agrees r declared fact_side lookup_side) (enumerated (ne_iter (rel_keys r)))"

fun leg_terms_of ::
  "name \<Rightarrow> name \<Rightarrow> (carried \<times> internal_label) list \<Rightarrow> leg_term list \<times> leg_term list \<times> plan_key list" where
  "leg_terms_of own_table second_table [] = ([], [], [])"
| "leg_terms_of own_table second_table ((leaf, l) # others) =
     (let owning = (if carried_model leaf \<noteq> None then second_table else own_table);
          (terms, second_terms, keys) = leg_terms_of own_table second_table others;
          emit = (\<lambda>t. let lt = \<lparr>lt_term = t, lt_label = label_internal l\<rparr> in
            if carried_model leaf \<noteq> None then (terms, lt # second_terms, keys) else (lt # terms, second_terms, keys)) in
      case leaf of
        CarriedAggregated p column _ \<Rightarrow> emit (PlanAggregate (pushed_push p) (own_column owning column))
      | CarriedCountIf column _ \<Rightarrow> emit (PlanCountIf (own_column owning column))
      | CarriedKeys _ column _ \<Rightarrow>
          (terms, second_terms, plan_key_new (label_internal l) (own_column owning column) # keys))"

definition leg_terms :: "federation \<Rightarrow> name \<Rightarrow> name \<Rightarrow> plan_key list \<Rightarrow> leg_term list \<times> leg_term list \<times> plan_key list" where
  "leg_terms f own_table second_table fact_keys =
     (let (terms, second_terms, keys) = leg_terms_of own_table second_table (zip (fed_carried f) (fed_labels f)) in
      (terms, second_terms, fact_keys @ keys))"

definition shape_keys :: "lookup_shape \<Rightarrow> join_key list" where
  "shape_keys s = ne_iter (rel_keys (rj_relationship (ls_crossing s)))"

definition link_keys :: "nat \<Rightarrow> lookup_shape \<Rightarrow> plan_key list" where
  "link_keys pos s =
     map (\<lambda>(part, key). origin_key (link_label pos part) (model_table_name (ls_origin s)) key)
       (enumerated (shape_keys s))"

text \<open>The link keys of the lookups that join onto \<open>side\<close>.\<close>

definition joined_link_keys :: "lookups \<Rightarrow> nat option \<Rightarrow> plan_key list" where
  "joined_link_keys lks side =
     concat (map (\<lambda>(pos, s). link_keys pos s)
       (filter (\<lambda>(_, s). ls_parent s = side) (enumerated (lk_shapes lks))))"

definition own_link_keys :: "nat \<Rightarrow> lookup_shape \<Rightarrow> plan_key list" where
  "own_link_keys pos s =
     map (\<lambda>(part, key). plan_key_new (link_label pos part)
         (own_column (model_table_name (rj_model (ls_crossing s))) (key_target key)))
       (enumerated (shape_keys s))"

definition lookup_keys :: "resolution \<Rightarrow> lookups \<Rightarrow> nat \<Rightarrow> lookup_shape \<Rightarrow> plan_key list" where
  "lookup_keys r lks pos s =
     own_link_keys pos s @ joined_link_keys lks (Some pos)
     @ map (dimension_key (model_table_name (rj_model (ls_crossing s))))
         (filter (\<lambda>d. index_of lks d = Some pos) (res_keys r))"

definition plan_lookup_leg ::
  "(metric \<Rightarrow> 'd + string) \<Rightarrow> resolution \<Rightarrow> lookups \<Rightarrow> nat \<times> lookup_shape \<Rightarrow> 'd plan_error + lookup_leg" where
  "plan_lookup_leg of_one r lks = (\<lambda>(pos, s).
     let m = rj_model (ls_crossing s);
         filters = filter (\<lambda>f. index_of lks (rf_dimension f) = Some pos) (res_filters r) in
     bind_res (planned_tables (model_table m) (ls_joins s)) (\<lambda>tables.
     bind_res (map_err NotDigestible (digest of_one (res_metric r))) (\<lambda>metric.
     bind_res (map_err NotBound (requested_for filters (model_table_name m))) (\<lambda>bindings.
       let leg = LegLookup (model_source m) metric tables (lookup_keys r lks pos s) bindings;
           include_unmatched = (filters = []) in
       Inr (case ls_parent s of
           None \<Rightarrow> onto_fact leg include_unmatched
         | Some parent \<Rightarrow> onto_lookup leg parent include_unmatched)))))"

definition lookup_legs ::
  "(metric \<Rightarrow> 'd + string) \<Rightarrow> resolution \<Rightarrow> lookups \<Rightarrow> 'd plan_error + lookup_leg list" where
  "lookup_legs of_one r lks =
     bind_res (traverse (plan_lookup_leg of_one r lks) (enumerated (lk_shapes lks))) (\<lambda>legs.
       map_err (\<lambda>e. NotAssembled (FedLookups e)) (lookup_legs_parse legs))"

definition same_part :: "join_key \<Rightarrow> join_key \<Rightarrow> bool" where
  "same_part own other \<longleftrightarrow> key_target own = key_target other \<and> key_grain own = key_grain other"

definition fits :: "lookup_shape \<Rightarrow> relationship \<Rightarrow> (relationship \<times> join_key list) option" where
  "fits s r =
     (let own = ne_iter (rel_keys r); crossing = shape_keys s in
      if rel_target r \<noteq> model_name (rj_model (ls_crossing s))
         \<or> ne_len (rel_keys r) \<noteq> ne_len (rel_keys (rj_relationship (ls_crossing s)))
         \<or> \<not> list_all (\<lambda>key. list_ex (\<lambda>c. same_part c key) crossing) own
      then None
      else map_option (\<lambda>links. (r, links)) (collect_some (map (\<lambda>c. List.find (\<lambda>key. same_part c key) own) crossing)))"

fun second_links ::
  "metric \<Rightarrow> cross_model \<Rightarrow> name list \<Rightarrow> (nat \<times> lookup_shape) list \<Rightarrow> 'd plan_error + plan_key list" where
  "second_links metric cross serving [] = Inr []"
| "second_links metric cross serving ((pos, s) # rest) =
     (case List.map_filter (fits s) (cm_second_relationships cross) of
        [] \<Rightarrow> Inl (PlanRefused (CrossModelRatioWithoutSharedDimension (met_name metric) (model_name (cm_second cross))))
      | (link, links) # others \<Rightarrow>
          if others \<noteq> [] \<or> rel_name link \<in> set serving
          then Inl (PlanRefused (CrossModelRatioLinkAmbiguous (met_name metric) (model_name (cm_second cross))))
          else map_res (\<lambda>keys. map (\<lambda>(part, key). origin_key (link_label pos part)
                 (model_table_name (cm_second cross)) key) (enumerated links) @ keys)
               (second_links metric cross (serving @ [rel_name link]) rest))"

definition second_fact_leg ::
  "(metric \<Rightarrow> 'd + string) \<Rightarrow> resolution \<Rightarrow> lookups \<Rightarrow> plan_bucket \<Rightarrow> leg_term list
     \<Rightarrow> 'd plan_error + leg_plan option" where
  "second_fact_leg of_one r lks bucket second_terms =
     (if second_terms = [] then Inr None
      else bind_res (ok_or NoSecondFactModel (res_cross r)) (\<lambda>cross.
        let second = cm_second cross;
            own_bucket = \<lparr>pb_label = label_bucket, pb_grain = pb_grain bucket,
              pb_column = own_column (model_table_name (cm_second_calendar cross)) (met_time_column (res_metric r))\<rparr> in
        bind_res (second_links (res_metric r) cross []
            (filter (\<lambda>(_, s). ls_parent s = None) (enumerated (lk_shapes lks)))) (\<lambda>keys.
        bind_res (planned_tables (model_table second)
            [plan_hop (cm_second_to_calendar cross) (model_table_name second) (cm_second_calendar cross)]) (\<lambda>tables.
        bind_res (map_err NotDigestible (digest of_one (res_metric r))) (\<lambda>metric.
        bind_res (map_err NotBound (range_only (res_range r) (pb_column own_bucket))) (\<lambda>bindings.
          Inr (Some (LegFact (model_source second) metric tables own_bucket keys second_terms bindings (res_range r)))))))))"

definition crossing_declared :: "nat \<times> lookup_shape \<Rightarrow> 'd plan_error + unit" where
  "crossing_declared = (\<lambda>(pos, s).
     let r = rj_relationship (ls_crossing s) in
     link_types_agree r (if pos = 0 then rel_comparison r else None) (ls_origin s) (rj_model (ls_crossing s)))"

definition fact_leg_keys :: "resolution \<Rightarrow> lookups \<Rightarrow> name \<Rightarrow> plan_key list" where
  "fact_leg_keys r lks own_table =
     map (dimension_key own_table) (filter (\<lambda>d. index_of lks d = None) (res_keys r)) @ joined_link_keys lks None"

definition answer_keys :: "resolution \<Rightarrow> lookups \<Rightarrow> answer_key list" where
  "answer_keys r lks =
     map (\<lambda>key. \<lparr>ak_side = (case index_of lks key of None \<Rightarrow> AtFact | Some leg \<Rightarrow> AtLookup leg),
         ak_label = label_dimension (dim_name (rd_dimension key))\<rparr>) (res_keys r)"

definition federated_plan_of ::
  "(metric \<Rightarrow> 'd + string) \<Rightarrow> resolution \<Rightarrow> measure \<Rightarrow> lookups \<Rightarrow> bool \<Rightarrow> 'd plan_error + federated_plan" where
  "federated_plan_of of_one r formula lks attach_top =
     (let metric = res_metric r; m = res_model r; own_table = model_table_name m;
          federation = federation_of_metric formula (model_name m) in
      case lk_shapes lks of
        [] \<Rightarrow> Inl NoRemoteJoin
      | first # _ \<Rightarrow>
          bind_res (each_ok crossing_declared (enumerated (lk_shapes lks))) (\<lambda>_.
          let local_filters = filter (\<lambda>f. index_of lks (rf_dimension f) = None) (res_filters r);
              time_table = (case res_cross r of None \<Rightarrow> own_table | Some cross \<Rightarrow> model_table_name (cm_calendar cross));
              time_column = own_column time_table (met_time_column metric) in
          bind_res (map_err NotBound (predicates_and_params r local_filters own_table time_column)) (\<lambda>fact_bindings.
          let second_table = (case res_cross r of None \<Rightarrow> own_table | Some cross \<Rightarrow> model_table_name (cm_second cross));
              (terms, second_terms, fact_keys) = leg_terms federation own_table second_table (fact_leg_keys r lks own_table);
              js = chain_joins r own_table @ (case res_cross r of None \<Rightarrow> []
                | Some cross \<Rightarrow> [plan_hop (cm_own_to_calendar cross) own_table (cm_calendar cross)]);
              bucket = \<lparr>pb_label = label_bucket, pb_grain = res_grain r, pb_column = time_column\<rparr> in
          bind_res (planned_tables (model_table m) js) (\<lambda>fact_tables.
          bind_res (map_err NotDigestible (digest of_one metric)) (\<lambda>digest'.
          let base = LegFact (model_source m) digest' fact_tables bucket fact_keys terms fact_bindings (res_range r) in
          bind_res (second_fact_leg of_one r lks bucket second_terms) (\<lambda>second_fact.
          bind_res (lookup_legs of_one r lks) (\<lambda>legs.
          bind_res (map_err NotAssembled (federated_plan_new (met_name metric) (label_measure (met_name metric)) bucket
              base second_fact legs federation (answer_keys r lks))) (\<lambda>planned.
          let planned = with_link_comparison (rel_comparison (rj_relationship (ls_crossing first))) planned in
          Inr (if \<not> attach_top then planned
               else case res_top r of Some t \<Rightarrow> fed_with_top t planned | None \<Rightarrow> planned)))))))))"

section \<open>Drilling across and stacking\<close>

definition local_arm_of :: "(metric \<Rightarrow> 'd + string) \<Rightarrow> resolution \<Rightarrow> measure \<Rightarrow> 'd plan_error + local_arm" where
  "local_arm_of of_one r formula =
     (let m = res_model r; own_table = model_table_name m;
          federation = federation_of_metric formula (model_name m);
          ls = map (\<lambda>key. label_dimension (dim_name (rd_dimension key))) (res_keys r);
          keys = map (\<lambda>(key, l). plan_key_new l (column_of key own_table)) (zip (res_keys r) ls);
          (terms, second, keys) = leg_terms federation own_table own_table keys in
      bind_res (planned_tables (model_table m) (chain_joins r own_table)) (\<lambda>tables.
      let time_column = own_column own_table (met_time_column (res_metric r)) in
      bind_res (map_err NotDigestible (digest of_one (res_metric r))) (\<lambda>metric.
      bind_res (map_err NotBound (predicates_and_params r (res_filters r) own_table time_column)) (\<lambda>bindings.
        map_err NotAssembledAcross (local_arm_new
          (LegFact (model_source m) metric tables
            \<lparr>pb_label = label_bucket, pb_grain = res_grain r, pb_column = time_column\<rparr> keys terms bindings (res_range r))
          federation ls)))))"

definition plan_arm :: "(metric \<Rightarrow> 'd + string) \<Rightarrow> plan_ceilings \<Rightarrow> resolution \<Rightarrow> 'd plan_error + arm" where
  "plan_arm of_one ceilings r =
     bind_res (prechecked r) (\<lambda>(formula, lks).
       let legs = length (lk_shapes lks) in
       if legs = 0 then map_res ArmLocal (local_arm_of of_one r formula)
       else if legs > pc_lookup_legs ceilings then Inl (too_many_lookup_legs legs ceilings)
       else map_res ArmJoined (federated_plan_of of_one r formula lks False))"

definition plan_across ::
  "(metric \<Rightarrow> 'd + string) \<Rightarrow> plan_ceilings \<Rightarrow> resolution \<Rightarrow> resolution \<Rightarrow> resolution list \<Rightarrow> 'd plan_error + plan" where
  "plan_across of_one ceilings first second rest =
     (let top = res_top first in
      bind_res (plan_arm of_one ceilings first) (\<lambda>first.
      bind_res (plan_arm of_one ceilings second) (\<lambda>second.
      bind_res (traverse (plan_arm of_one ceilings) rest) (\<lambda>rest.
      let legs = sum_list (map (\<lambda>a. length (arm_plan_legs a)) (first # second # rest)) in
      bind_res (bounded_legs legs (pc_legs ceilings)) (\<lambda>_.
      bind_res (map_err NotAssembledAcross (drill_across_new first second rest)) (\<lambda>planned.
      let planned = (case top of Some t \<Rightarrow> drill_with_top t planned | None \<Rightarrow> planned) in
      bind_res (bounded_sources (drill_sources planned) (pc_sources ceilings)) (\<lambda>_.
        Inr (AcrossPlan planned))))))))"

definition dimension_paths :: "resolution \<Rightarrow> name list list" where
  "dimension_paths r = map (\<lambda>d. case rd_join d of None \<Rightarrow> [] | Some hops \<Rightarrow> map hop_name hops) (every_dimension r)"

definition one_statement :: "resolved \<Rightarrow> bool" where
  "one_statement res =
     (let whole = resolved_whole res in
      lk_shapes (lookups_of whole) = [] \<and> cross_model_term whole = None
      \<and> list_all (\<lambda>each. model_name (res_model each) = model_name (res_model whole)
          \<and> met_time_column (res_metric each) = met_time_column (res_metric whole)
          \<and> dimension_paths each = dimension_paths whole) (resolved_per_metric res))"

definition plan_one :: "(metric \<Rightarrow> 'd + string) \<Rightarrow> resolution \<Rightarrow> plan_ceilings \<Rightarrow> 'd plan_error + plan" where
  "plan_one of_one r ceilings =
     bind_res (each_ok (\<lambda>m. ensure (met_measure m \<noteq> None) (AuthoredSqlNotPlanned (met_name m))) (res_metrics r)) (\<lambda>_.
     bind_res (prechecked r) (\<lambda>(formula, lks).
       let legs = length (lk_shapes lks) in
       if legs = 0 then
         map_res (\<lambda>p. MonoPlan (case res_top r of Some t \<Rightarrow> with_top t p | None \<Rightarrow> p)) (mono_plan r formula)
       else if legs > pc_lookup_legs ceilings then Inl (too_many_lookup_legs legs ceilings)
       else
         bind_res (federated_plan_of of_one r formula lks True) (\<lambda>planned.
         bind_res (bounded_legs (length (fed_legs planned)) (pc_legs ceilings)) (\<lambda>_.
         bind_res (bounded_sources (fed_sources planned) (pc_sources ceilings)) (\<lambda>_.
           Inr (FedPlan planned))))))"

definition plan_resolved :: "(metric \<Rightarrow> 'd + string) \<Rightarrow> resolved \<Rightarrow> plan_ceilings \<Rightarrow> 'd plan_error + plan" where
  "plan_resolved of_one res ceilings =
     (case resolved_per_metric res of
        first # second # rest \<Rightarrow>
          if \<not> one_statement res then plan_across of_one ceilings first second rest
          else plan_one of_one (resolved_whole res) ceilings
      | _ \<Rightarrow> plan_one of_one (resolved_whole res) ceilings)"

definition local_to :: "resolution \<Rightarrow> resolution \<Rightarrow> bool" where
  "local_to each first \<longleftrightarrow> lk_shapes (lookups_of each) = [] \<and> model_source (res_model each) = model_source (res_model first)"

definition stacked_arm :: "resolution \<Rightarrow> 'd plan_error + query_plan" where
  "stacked_arm r = bind_res (prechecked r) (\<lambda>(formula, _). mono_plan r formula)"

definition stacked_plan_of :: "resolution \<Rightarrow> resolution \<Rightarrow> resolution list \<Rightarrow> 'd plan_error + stacked_plan" where
  "stacked_plan_of first second rest =
     bind_res (traverse stacked_arm rest) (\<lambda>others.
     bind_res (stacked_arm first) (\<lambda>one.
     bind_res (stacked_arm second) (\<lambda>two.
     bind_res (map_err NotStacked (stacked_plan_new one two others)) (\<lambda>planned.
       Inr (case res_top first of Some t \<Rightarrow> stacked_with_top t planned | None \<Rightarrow> planned)))))"

definition stacked_resolved :: "resolved \<Rightarrow> ('d plan_error + stacked_plan) option" where
  "stacked_resolved res =
     (case resolved_per_metric res of
        first # second # rest \<Rightarrow>
          if \<not> one_statement res \<and> list_all (\<lambda>each. local_to each first) (resolved_per_metric res)
          then Some (stacked_plan_of first second rest) else None
      | _ \<Rightarrow> None)"

section \<open>Emitters of bound predicates\<close>

text \<open>
  What each step that writes a predicate promises: it appends its own parameters and the predicate it
  writes binds exactly those, in order. A loop of such steps then does the same.
\<close>

locale emitter =
  fixes emit :: "'x \<Rightarrow> param_value list \<Rightarrow> plan_filter \<times> param_value list"
    and adds :: "'x \<Rightarrow> nat"
  assumes emit_extends: "emit x ps = (f, qs) \<Longrightarrow> \<exists>new. qs = ps @ new \<and> length new = adds x"
    and emit_binds: "emit x ps = (f, qs) \<Longrightarrow> length qs \<le> usize_max
      \<Longrightarrow> bound_params (pf_predicate f) = [length ps..<length qs]"
begin

lemma each_extends: "emit_each emit xs ps = (fs, qs) \<Longrightarrow> \<exists>new. qs = ps @ new \<and> length new = sum_list (map adds xs)"
proof (induction xs arbitrary: ps fs)
  case (Cons x xs)
  obtain f mid where x: "emit x ps = (f, mid)" by (cases "emit x ps")
  obtain gs where xs: "emit_each emit xs mid = (gs, qs)" using Cons.prems x by (auto split: prod.splits)
  from emit_extends [OF x] Cons.IH [OF xs] show ?case by auto
qed simp

lemma each_length: "emit_each emit xs ps = (fs, qs) \<Longrightarrow> length qs = length ps + sum_list (map adds xs)"
  using each_extends by fastforce

lemma each_binds:
  "emit_each emit xs ps = (fs, qs) \<Longrightarrow> length qs \<le> usize_max
     \<Longrightarrow> all_bound (map pf_predicate fs) = [length ps..<length qs]"
proof (induction xs arbitrary: ps fs)
  case (Cons x xs)
  obtain f mid where x: "emit x ps = (f, mid)" by (cases "emit x ps")
  obtain gs where xs: "emit_each emit xs mid = (gs, qs)" and fs: "fs = f # gs"
    using Cons.prems x by (auto split: prod.splits)
  from emit_extends [OF x] each_extends [OF xs] have le: "length ps \<le> length mid" "length mid \<le> length qs" by auto
  with emit_binds [OF x] Cons.prems(2) have "bound_params (pf_predicate f) = [length ps..<length mid]" by simp
  with Cons.IH [OF xs Cons.prems(2)] fs le show ?case
    by simp (metis le_add_diff_inverse upt_add_eq_append)
qed (simp add: eq_commute [of "[]"])

end

lemma ne_len_length: "length (ne_iter n) \<le> usize_max \<Longrightarrow> ne_len n = length (ne_iter n)"
  by (simp add: ne_len_def ne_iter_def sat_add_usize_def)

lemma index_range_upt:
  "0 < many \<Longrightarrow> start + many \<le> usize_max \<Longrightarrow> ne_iter (index_range start many) = [start..<start + many]"
  by (simp add: index_range_def ne_iter_def sat_add_usize_def upt_conv_Cons)

definition required_values :: "required_filter \<Rightarrow> nat" where
  "required_values r = (if filter_value r = None then 0 else 1)"

definition requested_values :: "resolved_filter \<Rightarrow> nat" where
  "requested_values f =
     (case rf_value f of ResolvedEq _ \<Rightarrow> 1 | ResolvedIn vs \<Rightarrow> length (ne_iter vs) | ResolvedNotIn vs \<Rightarrow> length (ne_iter vs))"

interpretation required: emitter "emit_required own_table" required_values
proof
  fix r ps f qs
  assume e: "emit_required own_table r ps = (f, qs)"
  then show "\<exists>new. qs = ps @ new \<and> length new = required_values r"
    by (cases r) (auto simp: emit_required_def required_values_def bind_text_def Let_def)
  from e show "bound_params (pf_predicate f) = [length ps..<length qs]"
    by (cases r) (auto simp: emit_required_def bind_text_def Let_def)
qed

interpretation requested: emitter "emit_requested own_table" requested_values
proof
  fix r ps f qs
  assume e: "emit_requested own_table r ps = (f, qs)"
  then show x: "\<exists>new. qs = ps @ new \<and> length new = requested_values r"
    by (cases "rf_value r") (auto simp: emit_requested_def requested_values_def requested_predicate_def)
  assume "length qs \<le> usize_max"
  with e show "bound_params (pf_predicate f) = [length ps..<length qs]"
    by (cases "rf_value r")
      (auto simp: emit_requested_def requested_predicate_def ne_len_length index_range_upt
)
qed

lemma emit_each_map:
  "emit_each emit xs ps = (fs, qs) \<Longrightarrow> (\<And>x ps f qs. emit x ps = (f, qs) \<Longrightarrow> h f = g x) \<Longrightarrow> map h fs = map g xs"
proof (induction xs arbitrary: ps fs)
  case (Cons x xs)
  obtain f mid where x: "emit x ps = (f, mid)" by (cases "emit x ps")
  then obtain gs where xs: "emit_each emit xs mid = (gs, qs)" and fs: "fs = f # gs"
    using Cons.prems(1) by (auto split: prod.splits)
  from Cons.prems(2) [OF x] Cons.IH [OF xs Cons.prems(2)] fs show ?case by simp
qed simp

lemma emit_required_column:
  "emit_required own_table r ps = (f, qs) \<Longrightarrow>
     pp_column (pf_predicate f) = own_column own_table (filter_column r) \<and> pf_origin f = OriginDefinition"
  by (cases r) (auto simp: emit_required_def bind_text_def Let_def)

lemma emit_requested_column:
  "emit_requested own_table r ps = (f, qs) \<Longrightarrow>
     pp_column (pf_predicate f) = column_of (rf_dimension r) own_table \<and> pf_origin f = OriginRequested"
  by (cases "rf_value r") (auto simp: emit_requested_def requested_predicate_def)

text \<open>The columns a list of filters reads.\<close>

definition filter_columns :: "plan_filter list \<Rightarrow> plan_column set" where
  "filter_columns fs = (\<lambda>f. pp_column (pf_predicate f)) ` set fs"

lemma filter_columns_simps [simp]:
  "filter_columns [] = {}" "filter_columns (fs @ gs) = filter_columns fs \<union> filter_columns gs"
  by (auto simp: filter_columns_def)

lemma required_columns:
  "emit_each (emit_required own_table) rs ps = (fs, qs) \<Longrightarrow>
     filter_columns fs = (\<lambda>r. own_column own_table (filter_column r)) ` set rs"
  using emit_each_map [of "emit_required own_table" rs ps fs qs "\<lambda>f. pp_column (pf_predicate f)", OF _ conjunct1 [OF emit_required_column]]
  by (simp add: filter_columns_def flip: set_map)

lemma requested_columns:
  "emit_each (emit_requested own_table) rs ps = (fs, qs) \<Longrightarrow>
     filter_columns fs = (\<lambda>r. column_of (rf_dimension r) own_table) ` set rs"
  using emit_each_map [of "emit_requested own_table" rs ps fs qs "\<lambda>f. pp_column (pf_predicate f)", OF _ conjunct1 [OF emit_requested_column]]
  by (simp add: filter_columns_def flip: set_map)

lemma range_filters_facts:
  assumes "range_filters rng c ps = (fs, qs)"
  shows "length qs \<le> usize_max \<Longrightarrow> all_bound (map pf_predicate fs) = [length ps..<length qs]"
    and "length qs = length ps + 2" and "filter_columns fs = {c}"
proof -
  show l: "length qs = length ps + 2" and "filter_columns fs = {c}"
    using assms by (auto simp: range_filters_def filter_columns_def Let_def)
  assume "length qs \<le> usize_max"
  then have "sat_add_usize (length ps) 1 = Suc (length ps)" using l by (simp add: sat_add_usize_def)
  then show "all_bound (map pf_predicate fs) = [length ps..<length qs]"
    using assms by (auto simp: range_filters_def Let_def)
qed

definition required_count :: "metric \<Rightarrow> nat" where
  "required_count m = sum_list (map required_values (met_required_filters m))"

definition requested_count :: "resolved_filter list \<Rightarrow> nat" where
  "requested_count fs = sum_list (map requested_values fs)"

lemma upt_append: "a \<le> b \<Longrightarrow> b \<le> c \<Longrightarrow> [a..<b] @ [b..<c] = [a..<c]"
  by (metis le_add_diff_inverse upt_add_eq_append)

lemma predicates_and_params_total:
  assumes "2 + required_count (res_metric r) + requested_count requested \<le> usize_max"
  obtains b where "predicates_and_params r requested own_table c = Inr b"
    and "coherent (map pf_predicate (pbs_filters b)) (pbs_params b)"
    and "\<And>x. x \<in> filter_columns (pbs_filters b) \<Longrightarrow>
      x = c \<or> pcol_table x = own_table \<or> x \<in> (\<lambda>f. column_of (rf_dimension f) own_table) ` set requested"
proof -
  obtain rf p0 where rf: "range_filters (res_range r) c [] = (rf, p0)" by fastforce
  obtain df p1 where df: "emit_each (emit_required own_table) (met_required_filters (res_metric r)) p0 = (df, p1)" by fastforce
  obtain qf p2 where qf: "emit_each (emit_requested own_table) requested p1 = (qf, p2)" by fastforce
  have l0: "length p0 = 2" using rf by (auto simp: range_filters_def)
  have l1: "length p1 = 2 + required_count (res_metric r)" using required.each_length [OF df] l0 by (simp add: required_count_def)
  have l2: "length p2 = length p1 + requested_count requested" using requested.each_length [OF qf] by (simp add: requested_count_def)
  have le: "length p2 \<le> usize_max" using assms l1 l2 by simp
  have "all_bound (map pf_predicate rf) = [0..<2]" using range_filters_facts(1) [OF rf] l0 assms by simp
  moreover have "all_bound (map pf_predicate df) = [2..<length p1]" using required.each_binds [OF df] l0 l2 le by simp
  moreover have "all_bound (map pf_predicate qf) = [length p1..<length p2]" using requested.each_binds [OF qf le] .
  moreover have m: "2 \<le> length p1" "length p1 \<le> length p2" using l1 l2 by simp_all
  ultimately have co: "coherent (map pf_predicate (rf @ df @ qf)) p2"
    by (simp only: coherent_def map_append all_bound_simps upt_append [OF m] upt_append [OF le0 order_trans [OF m]])
  let ?b = "\<lparr>pbs_filters = rf @ df @ qf, pbs_params = p2\<rparr>"
  have "predicates_and_params r requested own_table c = Inr ?b"
    using co le by (simp add: predicates_and_params_def rf df qf plan_bindings_parse_ok)
  moreover have "x \<in> filter_columns (pbs_filters ?b) \<Longrightarrow>
      x = c \<or> pcol_table x = own_table \<or> x \<in> (\<lambda>f. column_of (rf_dimension f) own_table) ` set requested" for x
    using range_filters_facts(3) [OF rf] required_columns [OF df] requested_columns [OF qf]
    by (auto simp: usize_max_def own_column_def)
  ultimately show thesis using that [of ?b] co by simp
qed

definition all_required :: "metric list \<Rightarrow> nat" where
  "all_required ms = sum_list (map required_count ms)"

lemma guard_metrics_total:
  assumes "\<forall>m \<in> set ms. met_measure m \<noteq> None" and "length ps + all_required ms \<le> usize_max"
  shows "\<exists>measured fs qs. (guard_metrics own_table ms ps :: 'd plan_error + _) = Inr (measured, fs, qs)
    \<and> length qs = length ps + all_required ms \<and> all_bound (map pf_predicate fs) = [length ps..<length qs]
    \<and> concat (map pm_guard measured) = map pf_predicate fs
    \<and> map pm_metric measured = map met_name ms
    \<and> map pm_measure measured = map (\<lambda>m. plan_measure_of (the (met_measure m)) (own_column own_table)) ms
    \<and> (\<forall>c \<in> filter_columns fs. pcol_table c = own_table)"
  using assms
proof (induction ms arbitrary: ps)
  case (Cons m ms)
  then obtain formula where m: "met_measure m = Some formula" by auto
  obtain df p1 where df: "emit_each (emit_required own_table) (met_required_filters m) ps = (df, p1)" by fastforce
  have l1: "length p1 = length ps + required_count m" using required.each_length [OF df] by (simp add: required_count_def)
  have s: "all_required (m # ms) = required_count m + all_required ms" by (simp add: all_required_def)
  have "length p1 + all_required ms \<le> usize_max" using Cons.prems(2) l1 s by simp
  then obtain measured fs qs where IH: "(guard_metrics own_table ms p1 :: 'd plan_error + _) = Inr (measured, fs, qs)"
    "length qs = length p1 + all_required ms" "all_bound (map pf_predicate fs) = [length p1..<length qs]"
    "concat (map pm_guard measured) = map pf_predicate fs" "map pm_metric measured = map met_name ms"
    "map pm_measure measured = map (\<lambda>m. plan_measure_of (the (met_measure m)) (own_column own_table)) ms"
    "\<forall>c \<in> filter_columns fs. pcol_table c = own_table"
    using Cons.IH [of p1] Cons.prems(1) by auto
  have "all_bound (map pf_predicate df) = [length ps..<length p1]"
    using required.each_binds [OF df] l1 Cons.prems(2) s by simp
  moreover have "\<forall>c \<in> filter_columns df. pcol_table c = own_table"
    using required_columns [OF df] by (auto simp: own_column_def)
  moreover have le: "length ps \<le> length p1" "length p1 \<le> length qs" using l1 IH(2) by simp_all
  moreover have "length qs = length ps + all_required (m # ms)" using l1 IH(2) s by simp
  ultimately show ?case
    using m df IH(1,3-7) upt_append [OF le] by (simp add: ball_Un)
qed (simp add: all_required_def eq_commute [of "[]"])

lemma guards_and_shared_total:
  assumes "\<forall>m \<in> set (res_metrics r). met_measure m \<noteq> None" and "res_metrics r \<noteq> []"
    and "2 + all_required (res_metrics r) + requested_count requested \<le> usize_max"
  obtains ms b guards where "(guards_and_shared r requested own_table c :: 'd plan_error + _) = Inr (ms, b)"
    and "pbs_filters b = guards @ drop (length guards) (pbs_filters b)"
    and "concat (map pm_guard (ne_iter ms)) = map pf_predicate guards"
    and "coherent (map pf_predicate (pbs_filters b)) (pbs_params b)"
    and "map pm_metric (ne_iter ms) = map met_name (res_metrics r)"
    and "map pm_measure (ne_iter ms)
      = map (\<lambda>m. plan_measure_of (the (met_measure m)) (own_column own_table)) (res_metrics r)"
    and "\<And>x. x \<in> filter_columns (pbs_filters b) \<Longrightarrow>
      x = c \<or> pcol_table x = own_table \<or> x \<in> (\<lambda>f. column_of (rf_dimension f) own_table) ` set requested"
proof -
  obtain measured fs p1 where g: "(guard_metrics own_table (res_metrics r) [] :: 'd plan_error + _) = Inr (measured, fs, p1)"
    "length p1 = all_required (res_metrics r)" "all_bound (map pf_predicate fs) = [0..<length p1]"
    "concat (map pm_guard measured) = map pf_predicate fs" "map pm_metric measured = map met_name (res_metrics r)"
    "map pm_measure measured = map (\<lambda>m. plan_measure_of (the (met_measure m)) (own_column own_table)) (res_metrics r)"
    "\<forall>c \<in> filter_columns fs. pcol_table c = own_table"
    using guard_metrics_total [of "res_metrics r" "[]" own_table] assms(1,3) by auto
  obtain rf p2 where rf: "range_filters (res_range r) c p1 = (rf, p2)" by fastforce
  obtain qf p3 where qf: "emit_each (emit_requested own_table) requested p2 = (qf, p3)" by fastforce
  have l2: "length p2 = length p1 + 2" using range_filters_facts(2) [OF rf] .
  have l3: "length p3 = length p2 + requested_count requested" using requested.each_length [OF qf] by (simp add: requested_count_def)
  have le: "length p3 \<le> usize_max" using assms(3) g(2) l2 l3 by simp
  have m: "length p1 \<le> length p2" "length p2 \<le> length p3" using l2 l3 by simp_all
  have "all_bound (map pf_predicate rf) = [length p1..<length p2]" using range_filters_facts(1) [OF rf] le m by simp
  moreover have "all_bound (map pf_predicate qf) = [length p2..<length p3]" using requested.each_binds [OF qf le] .
  ultimately have co: "coherent (map pf_predicate (fs @ rf @ qf)) p3"
    using g(3) by (simp only: coherent_def map_append all_bound_simps upt_append [OF m] upt_append [OF le0 order_trans [OF m]])
  obtain head rest where ms: "measured = head # rest" using g(5) assms(2) by (cases measured) auto
  let ?b = "\<lparr>pbs_filters = fs @ rf @ qf, pbs_params = p3\<rparr>"
  have "(guards_and_shared r requested own_table c :: 'd plan_error + _) = Inr (NonEmpty head rest, ?b)"
    using iffD2 [OF plan_bindings_parse_ok [OF le], of "fs @ rf @ qf" ?b] co g(1) ms
    by (simp add: guards_and_shared_def rf qf)
  moreover have "x \<in> filter_columns (pbs_filters ?b) \<Longrightarrow>
      x = c \<or> pcol_table x = own_table \<or> x \<in> (\<lambda>f. column_of (rf_dimension f) own_table) ` set requested" for x
    using range_filters_facts(3) [OF rf] g(7) requested_columns [OF qf] by auto
  ultimately show thesis using that [of "NonEmpty head rest" ?b fs] g ms co by simp
qed

section \<open>The plan of one statement\<close>

definition term_columns :: "plan_measure \<Rightarrow> plan_column list" where
  "term_columns m = (case m of PlanSimple t \<Rightarrow> [plan_term_column t] | PlanRatio n d _ \<Rightarrow> [plan_term_column n, plan_term_column d])"

text \<open>Every column a plan's statement reads.\<close>

definition plan_columns :: "query_plan \<Rightarrow> plan_column set" where
  "plan_columns p =
     {pb_column (qp_bucket p)} \<union> pkey_column ` set (qp_keys p)
     \<union> (\<Union>m \<in> set (ne_iter (qp_measures p)). set (term_columns (pm_measure m)) \<union> pp_column ` set (pm_guard m))
     \<union> filter_columns (qp_filters p)
     \<union> (\<Union>j \<in> set (qp_joins p). \<Union>k \<in> set (ne_iter (pj_keys j)). {pjk_origin k, pjk_target k})"

definition plan_tables :: "query_plan \<Rightarrow> name set" where
  "plan_tables p = insert (qt_table (qp_table p)) (join_tables (qp_joins p))"

lemma term_columns_own:
  "c \<in> set (term_columns (plan_measure_of m (own_column own_table))) \<Longrightarrow> pcol_table c = own_table"
  by (cases m) (auto simp: term_columns_def plan_measure_of_def plan_resolve_term_def own_column_def split: measure_term.splits)

lemma draft_segments_keys:
  "set (bt_keys (draft_segments path ss drafts)) =
     set (bt_keys drafts) \<union> {path @ q | q. q \<noteq> [] \<and> prefix q (segment_names ss)}"
proof (induction path ss drafts rule: draft_segments.induct)
  case (1 path drafts)
  then show ?case by (simp add: segment_names_def)
next
  case (2 path s ss drafts)
  have "{path @ q | q. q \<noteq> [] \<and> prefix q (segment_names (s # ss))}
      = insert (path @ [hop_name (seg_hop s)])
          {(path @ [hop_name (seg_hop s)]) @ q | q. q \<noteq> [] \<and> prefix q (segment_names ss)}"
    by (force simp: segment_names_def prefix_Cons)
  then show ?case
    unfolding draft_segments.simps Let_def "2.IH" [OF refl refl refl] set_keys_insert by blast
qed

end
