(* ===== verification/Wire.thy ===== *)
theory Wire
  imports Planner
begin

text \<open>
  A leg on the wire (\<open>sutura-domain/src/plan/remote.rs\<close>): what a node sends of a leg that another
  node runs. The document names relationships, not joined tables, and dimensions or internal labels, not
  result labels, so that the receiver can take nothing but from its own definitions. The serialization is
  an argument.
\<close>

section \<open>Documents\<close>

datatype wire_label = WireInternal internal_label | WireDimension name

datatype invalid_wire_label = InvalidWireLabel ustr

definition wire_label_parse :: "ustr \<Rightarrow> invalid_wire_label + wire_label" where
  "wire_label_parse t =
     (case internal_label_parse t of
        Some l \<Rightarrow> Inr (WireInternal l)
      | None \<Rightarrow> (case parse_identifier t of Inr n \<Rightarrow> Inr (WireDimension n) | Inl _ \<Rightarrow> Inl (InvalidWireLabel t)))"

fun into_label :: "wire_label \<Rightarrow> result_label" where
  "into_label (WireInternal l) = label_internal l"
| "into_label (WireDimension n) = label_dimension n"

fun wire_label_text :: "wire_label \<Rightarrow> string" where
  "wire_label_text (WireInternal l) = internal_text l"
| "wire_label_text (WireDimension n) = n"

record wire_key =
  wk_label :: wire_label
  wk_column :: plan_column

record wire_term =
  wt_label :: wire_label
  wt_term :: plan_term

record wire_bucket =
  wb_grain :: grain
  wb_column :: plan_column

datatype leg_wire =
    WireFact (wire_source: name) (wire_metric: metric_digest) (wire_table: qualified_table) (wire_joins: "name list")
      (wf_bucket: wire_bucket) (wire_keys: "wire_key list") (wf_terms: "wire_term list")
      (wire_filters: "plan_filter list") (wf_range: time_range)
  | WireLookup (wire_source: name) (wire_metric: metric_digest) (wire_table: qualified_table) (wire_joins: "name list")
      (wire_keys: "wire_key list") (wire_filters: "plan_filter list")

datatype 's not_sendable = LabelNotSendable invalid_wire_label | KeyNotSendable string | Unencodable 's

section \<open>Sending\<close>

definition wire_key_of :: "plan_key \<Rightarrow> 's not_sendable + wire_key" where
  "wire_key_of key =
     (case plan_key_value key of
        KeyTruncated _ _ \<Rightarrow> Inl (KeyNotSendable (label_str (pkey_label key)))
      | KeyColumn column \<Rightarrow>
          map_res (\<lambda>l. \<lparr>wk_label = l, wk_column = column\<rparr>)
            (map_err LabelNotSendable (wire_label_parse (codes (label_str (pkey_label key))))))"

definition wire_term_of :: "leg_term \<Rightarrow> 's not_sendable + wire_term" where
  "wire_term_of t =
     map_res (\<lambda>l. \<lparr>wt_label = l, wt_term = lt_term t\<rparr>)
       (map_err LabelNotSendable (wire_label_parse (codes (label_str (lt_label t)))))"

definition leg_joins :: "leg_plan \<Rightarrow> name list" where
  "leg_joins leg = map pj_relationship (st_joins (lp_tables leg))"

definition to_wire :: "leg_plan \<Rightarrow> 's not_sendable + leg_wire" where
  "to_wire leg =
     (case leg of
        LegFact source metric tables bucket keys terms bindings rng \<Rightarrow>
          bind_res (traverse wire_key_of keys) (\<lambda>keys.
          bind_res (traverse wire_term_of terms) (\<lambda>terms.
            Inr (WireFact source metric (st_table tables) (leg_joins leg)
              \<lparr>wb_grain = pb_grain bucket, wb_column = pb_column bucket\<rparr> keys terms (lp_filters leg) rng)))
      | LegLookup source metric tables keys bindings \<Rightarrow>
          bind_res (traverse wire_key_of keys) (\<lambda>keys.
            Inr (WireLookup source metric (st_table tables) (leg_joins leg) keys (lp_filters leg))))"

record partition_leg =
  pl_leg :: leg_wire
  pl_params :: "param_value list"

definition partition_encode :: "(partition_leg \<Rightarrow> 's + nat list) \<Rightarrow> leg_plan \<Rightarrow> 's not_sendable + nat list" where
  "partition_encode to_vec leg =
     bind_res (to_wire leg) (\<lambda>w. map_err Unencodable (to_vec \<lparr>pl_leg = w, pl_params = lp_params leg\<rparr>))"

section \<open>Labels keep their text\<close>

lemma wire_label_parse_text:
  assumes "wire_label_parse (codes s) = Inr l" and "trim (codes s) = codes s"
  shows "wire_label_text l = s" and "into_label l = ResultLabel s"
proof -
  show "wire_label_text l = s"
    using assms internal_label_parse_sound [of "codes s"]
    by (auto simp: wire_label_parse_def parse_identifier_def parse_name_eq_Inr codes_eq_iff split: option.splits sum.splits)
  then show "into_label l = ResultLabel s"
    by (cases l) (auto simp: label_internal_def label_dimension_def)
qed

end
