(* ===== verification/Planned.thy ===== *)
theory Planned
  imports Planner
begin

text \<open>
  What the planner's plans satisfy when the resolution comes from definitions that hold together: every
  bound predicate reads its own parameters, every column belongs to a table of its statement, the
  lookups of a question form a tree rooted at the fact, and a federated plan is never refused by its own
  constructor.
\<close>

section \<open>The lookups of a question\<close>

lemma cut_chain_path:
  "cut_chain hops own = None \<longleftrightarrow> segment_names (snd (split_runs own hops)) = []"
  "cut_chain hops own = Some c \<Longrightarrow> cut_segments c = snd (split_runs own hops)"
  by (auto simp: cut_chain_runs Let_def segment_names_def split: prod.splits if_splits)

lemma draft_dimension_keys:
  "set (bt_keys (draft_dimension own d drafts)) =
     set (bt_keys drafts) \<union> {q. q \<noteq> [] \<and> prefix q (dimension_path own d)}"
proof (cases "rd_join d")
  case None
  then show ?thesis by (simp add: draft_dimension_def dimension_path_def)
next
  case (Some hops)
  show ?thesis
  proof (cases "cut_chain hops own")
    case None
    with Some show ?thesis using cut_chain_path(1) [of hops own]
      by (simp add: draft_dimension_def dimension_path_def)
  next
    case (Some c)
    with \<open>rd_join d = Some hops\<close> have "draft_dimension own d drafts = draft_segments [] (snd (split_runs own hops)) drafts"
      using cut_chain_path(2) [OF Some] by (simp add: draft_dimension_def)
    with \<open>rd_join d = Some hops\<close> show ?thesis
      using draft_segments_keys [of "[]" "snd (split_runs own hops)" drafts] by (simp add: dimension_path_def)
  qed
qed

definition drafts_of :: "model \<Rightarrow> resolved_dimension list \<Rightarrow> drafts" where
  "drafts_of own ds = fold (draft_dimension own) ds []"

lemma drafts_keys:
  "set (bt_keys (fold (draft_dimension own) ds drafts)) =
     set (bt_keys drafts) \<union> {q. q \<noteq> [] \<and> (\<exists>d \<in> set ds. prefix q (dimension_path own d))}"
proof (induction ds arbitrary: drafts)
  case (Cons d ds)
  show ?case unfolding fold_Cons comp_apply Cons.IH draft_dimension_keys by auto
qed simp

lemma draft_segments_inv: "bt_inv drafts \<Longrightarrow> bt_inv (draft_segments path ss drafts)"
  by (induction path ss drafts rule: draft_segments.induct) (auto simp: Let_def bt_inv_insert)

lemma drafts_inv: "bt_inv drafts \<Longrightarrow> bt_inv (fold (draft_dimension own) ds drafts)"
  by (induction ds arbitrary: drafts)
    (auto simp: draft_dimension_def draft_segments_inv split: option.splits)

lemma lookups_of_own [simp]: "lk_own (lookups_of r) = res_model r"
  by (simp add: lookups_of_def Let_def)

lemma lookups_of_shapes:
  "lk_shapes (lookups_of r) =
     map (shape_of (bt_keys (drafts_of (res_model r) (every_dimension r)))) (drafts_of (res_model r) (every_dimension r))"
  by (simp add: lookups_of_def drafts_of_def Let_def)

text \<open>The paths of the lookups, in order.\<close>

definition lookup_paths :: "resolution \<Rightarrow> name list list" where
  "lookup_paths r = bt_keys (drafts_of (res_model r) (every_dimension r))"

lemma lookup_paths_set:
  "set (lookup_paths r) = {q. q \<noteq> [] \<and> (\<exists>d \<in> set (every_dimension r). prefix q (dimension_path (res_model r) d))}"
  using drafts_keys [of "res_model r" "every_dimension r" "[]"] by (simp add: lookup_paths_def drafts_of_def)

lemma lookup_paths_sorted: "sorted_wrt (<) (lookup_paths r)"
  using drafts_inv [OF bt_inv_Nil, of "res_model r" "every_dimension r"]
  by (simp add: lookup_paths_def drafts_of_def bt_inv_def)

lemma shape_paths: "map ls_path (lk_shapes (lookups_of r)) = lookup_paths r"
  by (simp add: lookups_of_shapes lookup_paths_def comp_def shape_of_def split_def)

lemma shapes_length: "length (lk_shapes (lookups_of r)) = length (lookup_paths r)"
  using arg_cong [OF shape_paths, of length] by simp

lemma shape_parent:
  assumes "i < length (lk_shapes (lookups_of r))"
  shows "ls_parent (lk_shapes (lookups_of r) ! i)
    = position (\<lambda>p. p = butlast (lookup_paths r ! i)) (lookup_paths r)"
    and "ls_path (lk_shapes (lookups_of r) ! i) = lookup_paths r ! i"
proof -
  show path: "ls_path (lk_shapes (lookups_of r) ! i) = lookup_paths r ! i"
    using assms shape_paths [of r] by (metis nth_map)
  have "lookup_paths r ! i \<noteq> []" using assms lookup_paths_set [of r] nth_mem [of i "lookup_paths r"] by (auto simp: shapes_length)
  with assms path show "ls_parent (lk_shapes (lookups_of r) ! i)
    = position (\<lambda>p. p = butlast (lookup_paths r ! i)) (lookup_paths r)"
    by (simp add: lookups_of_shapes shape_of_def split_def lookup_paths_def)
qed

lemma position_map: "position P (map f xs) = position (\<lambda>x. P (f x)) xs"
proof (cases "position P (map f xs)")
  case None
  then show ?thesis by (metis (mono_tags, lifting) position_eq_None imageI image_set)
next
  case (Some i)
  then have "position (\<lambda>x. P (f x)) xs = Some i" by (auto simp: position_eq_Some)
  with Some show ?thesis by simp
qed

lemma strict_prefix_less: "strict_prefix xs ys \<Longrightarrow> (xs :: name list) < ys"
proof (induction xs arbitrary: ys)
  case Nil
  then show ?case by (cases ys) simp_all
next
  case (Cons x xs)
  then show ?case by (cases ys) (simp_all add: strict_prefix_def)
qed

text \<open>The lookups form a tree rooted at the fact leg, and each comes after the one it joins onto.\<close>

lemma parents_first:
  assumes "i < length (lookup_paths r)"
  shows "case ls_parent (lk_shapes (lookups_of r) ! i) of
      None \<Rightarrow> length (lookup_paths r ! i) = 1
    | Some j \<Rightarrow> j < i \<and> lookup_paths r ! j = butlast (lookup_paths r ! i)"
proof -
  let ?p = "lookup_paths r ! i"
  have mem: "?p \<in> set (lookup_paths r)" using assms by simp
  then have ne: "?p \<noteq> []" unfolding lookup_paths_set by blast
  note parent = shape_parent(1) [of i r, unfolded shapes_length, OF assms]
  show ?thesis
  proof (cases "ls_parent (lk_shapes (lookups_of r) ! i)")
    case None
    then have "butlast ?p \<notin> set (lookup_paths r)" using parent by (auto simp: position_eq_None)
    moreover have "prefix (butlast ?p) ?p" by (metis append_butlast_last_id ne prefixI)
    ultimately have "butlast ?p = []" using mem unfolding lookup_paths_set by (blast intro: prefix_order.trans)
    with ne None show ?thesis by (cases ?p) (auto split: if_splits)
  next
    case (Some j)
    then have j: "j < length (lookup_paths r)" "lookup_paths r ! j = butlast ?p" using parent by (auto simp: position_eq_Some)
    have "strict_prefix (butlast ?p) ?p" using ne by (metis append_butlast_last_id strict_prefixI')
    then have "lookup_paths r ! j < ?p" using strict_prefix_less j by simp
    have "\<not> i \<le> j"
    proof
      assume "i \<le> j"
      then have "i = j \<or> ?p < lookup_paths r ! j"
        using sorted_wrt_nth_less [OF lookup_paths_sorted, of i j r] j(1) by (cases "i = j") auto
      with \<open>lookup_paths r ! j < ?p\<close> show False by auto
    qed
    with Some j show ?thesis by simp
  qed
qed

lemma index_of_eq:
  "index_of (lookups_of r) d = (if dimension_path (res_model r) d = [] then None
     else position (\<lambda>p. p = dimension_path (res_model r) d) (lookup_paths r))"
proof (cases "rd_join d")
  case None
  then show ?thesis by (simp add: index_of_def dimension_path_def)
next
  case (Some hops)
  have m: "position (\<lambda>shape. P (ls_path shape)) (lk_shapes (lookups_of r)) = position P (lookup_paths r)" for P
    by (simp add: position_map flip: shape_paths)
  have "length p = length ss \<and> list_all2 (\<lambda>n s. n = hop_name (seg_hop s)) p ss \<longleftrightarrow> p = segment_names ss" for p ss
    by (auto simp: list_all2_names segment_names_def)
  with Some cut_chain_path [of hops "res_model r"] m show ?thesis
    by (cases "cut_chain hops (res_model r)") (simp_all add: index_of_def dimension_path_def)
qed

lemma no_lookups_no_cut:
  assumes "lk_shapes (lookups_of r) = []" and "d \<in> set (every_dimension r)" and "rd_join d = Some hops"
  shows "cut_chain hops (res_model r) = None"
proof -
  have "lookup_paths r = []" using shapes_length [of r] assms(1) by simp
  with lookup_paths_set [of r] have "{q. q \<noteq> [] \<and> (\<exists>d \<in> set (every_dimension r). prefix q (dimension_path (res_model r) d))} = {}"
    by (metis list.set(1))
  with assms(2) have "dimension_path (res_model r) d = []" by blast
  with assms(3) show ?thesis by (simp add: cut_chain_path dimension_path_def)
qed

section \<open>The plan of one statement\<close>

lemma reached_from_columns:
  assumes "reached_from ts js" and "j \<in> set js" and "k \<in> set (ne_iter (pj_keys j))"
  shows "pcol_table (pjk_origin k) \<in> ts \<union> join_tables js" and "pcol_table (pjk_target k) \<in> join_tables js"
  using assms by (induction js arbitrary: ts) auto

definition own_name :: "resolution \<Rightarrow> name" where
  "own_name r = model_table_name (res_model r)"

lemma every_dimension_mem:
  "k \<in> set (res_keys r) \<Longrightarrow> k \<in> set (every_dimension r)"
  "f \<in> set (res_filters r) \<Longrightarrow> rf_dimension f \<in> set (every_dimension r)"
  by (auto simp: every_dimension_def)

text \<open>The columns of a statement whose joins are those of its resolution.\<close>

lemma statement_columns:
  assumes "hops_ok d r" and "lk_shapes (lookups_of r) = []"
    and "qp_table p = model_table (res_model r)" and "qp_joins p = chain_joins r (own_name r)"
    and "pcol_table (pb_column (qp_bucket p)) = own_name r"
    and "qp_keys p = map (dimension_key (own_name r)) (res_keys r)"
    and "\<And>m c. m \<in> set (ne_iter (qp_measures p)) \<Longrightarrow> c \<in> set (term_columns (pm_measure m)) \<Longrightarrow> pcol_table c = own_name r"
    and "\<And>m c. m \<in> set (ne_iter (qp_measures p)) \<Longrightarrow> c \<in> pp_column ` set (pm_guard m) \<Longrightarrow>
      pcol_table c = own_name r \<or> c \<in> (\<lambda>f. column_of (rf_dimension f) (own_name r)) ` set (res_filters r)"
    and "\<And>c. c \<in> filter_columns (qp_filters p) \<Longrightarrow>
      pcol_table c = own_name r \<or> c \<in> (\<lambda>f. column_of (rf_dimension f) (own_name r)) ` set (res_filters r)"
    and "c \<in> plan_columns p"
  shows "pcol_table c \<in> plan_tables p"
proof -
  have t: "plan_tables p = insert (own_name r) (join_tables (chain_joins r (own_name r)))"
    using assms(3,4) by (simp add: plan_tables_def own_name_def model_table_name_def)
  have reached: "pcol_table (column_of x (own_name r)) \<in> plan_tables p" if "x \<in> set (every_dimension r)" for x
    unfolding t using column_of_reached [OF assms(1) that no_lookups_no_cut [OF assms(2) that]] .
  have asked: "pcol_table y \<in> plan_tables p" if "y \<in> (\<lambda>f. column_of (rf_dimension f) (own_name r)) ` set (res_filters r)" for y
    using that reached every_dimension_mem(2) by blast
  have own: "own_name r \<in> plan_tables p" unfolding t by simp
  note joined = chain_joins_reached [OF assms(1), of "own_name r", THEN conjunct1]
  from assms(10) consider "c = pb_column (qp_bucket p)" | k where "k \<in> set (qp_keys p)" "c = pkey_column k"
    | m where "m \<in> set (ne_iter (qp_measures p))" "c \<in> set (term_columns (pm_measure m)) \<union> pp_column ` set (pm_guard m)"
    | "c \<in> filter_columns (qp_filters p)"
    | j k where "j \<in> set (qp_joins p)" "k \<in> set (ne_iter (pj_keys j))" "c = pjk_origin k \<or> c = pjk_target k"
    unfolding plan_columns_def by blast
  then show ?thesis
  proof cases
    case 2
    then show ?thesis using assms(6) reached every_dimension_mem(1) by (auto simp: dimension_key_def plan_key_new_def)
  next
    case 3
    then show ?thesis using assms(7,8) asked own by (metis UnE)
  next
    case 4
    then show ?thesis using assms(9) asked own by metis
  next
    case 5
    then show ?thesis using reached_from_columns [OF joined] assms(4) unfolding t by auto
  qed (use assms(5) own in simp)
qed

text \<open>How many parameters one statement binds.\<close>

definition bound_values :: "resolution \<Rightarrow> nat" where
  "bound_values r = 2 + (if length (res_metrics r) = 1 then required_count (res_metric r) else all_required (res_metrics r))
     + requested_count (res_filters r)"

definition plan_bound :: "query_plan \<Rightarrow> nat list" where
  "plan_bound p = all_bound (concat (map pm_guard (ne_iter (qp_measures p))) @ map pf_predicate (qp_filters p))"

lemma mono_plan_cases:
  fixes formula :: measure
  assumes "res_metrics r \<noteq> []" and "\<forall>m \<in> set (res_metrics r). met_measure m \<noteq> None"
    and "bound_values r \<le> usize_max" and "hops_ok d r" and "lk_shapes (lookups_of r) = []"
    and "planned_tables (model_table (res_model r)) (chain_joins r (own_name r)) = (Inr tables :: 'd plan_error + _)"
  shows "\<exists>p. (mono_plan r formula :: 'd plan_error + _) = Inr p \<and> plan_bound p = [0..<length (qp_params p)]
     \<and> (\<forall>c \<in> plan_columns p. pcol_table c \<in> plan_tables p)
     \<and> qp_joins p = chain_joins r (own_name r) \<and> qp_range p = res_range r \<and> qp_source p = model_source (res_model r)
     \<and> key_labels p = map (\<lambda>k. dim_name (rd_dimension k)) (res_keys r)
     \<and> map pm_metric (ne_iter (qp_measures p)) =
         (if length (res_metrics r) = 1 then [met_name (res_metric r)] else map met_name (res_metrics r))"
proof -
  let ?own = "own_name r" and ?c = "own_column (own_name r) (met_time_column (res_metric r))"
  let ?bucket = "\<lparr>pb_label = label_bucket, pb_grain = res_grain r, pb_column = ?c\<rparr>"
  let ?keys = "map (dimension_key ?own) (res_keys r)" and ?src = "model_source (res_model r)"
  have own [simp]: "model_table_name (res_model r) = ?own" by (simp add: own_name_def)
  have tables: "st_table tables = model_table (res_model r)" "st_joins tables = chain_joins r ?own"
    using assms(6) by (auto simp: planned_tables_def map_err_eq_Inr statement_tables_ok)
  have cols: "\<forall>c \<in> plan_columns p. pcol_table c \<in> plan_tables p"
    if p: "p = with_measures ?src ms tables ?bucket ?keys b (res_range r)"
      and ms: "\<And>m c. m \<in> set (ne_iter ms) \<Longrightarrow> c \<in> set (term_columns (pm_measure m)) \<Longrightarrow> pcol_table c = ?own"
      and gs: "\<And>m c. m \<in> set (ne_iter ms) \<Longrightarrow> c \<in> pp_column ` set (pm_guard m) \<Longrightarrow> c \<in> filter_columns (pbs_filters b)"
      and fs: "\<And>x. x \<in> filter_columns (pbs_filters b) \<Longrightarrow>
        x = ?c \<or> pcol_table x = ?own \<or> x \<in> (\<lambda>f. column_of (rf_dimension f) ?own) ` set (res_filters r)" for p ms b
  proof (intro ballI statement_columns [OF assms(4,5)])
    show "qp_table p = model_table (res_model r)" "qp_joins p = chain_joins r ?own"
      "pcol_table (pb_column (qp_bucket p)) = ?own" "qp_keys p = ?keys"
      using tables by (simp_all add: p with_measures_def own_column_def)
    show "pcol_table c = ?own" if "m \<in> set (ne_iter (qp_measures p))" "c \<in> set (term_columns (pm_measure m))" for m c
      using that ms by (simp add: p with_measures_def)
    have fs': "pcol_table x = ?own \<or> x \<in> (\<lambda>f. column_of (rf_dimension f) ?own) ` set (res_filters r)"
      if "x \<in> filter_columns (pbs_filters b)" for x using fs [OF that] by (auto simp: own_column_def)
    then show "pcol_table c = ?own \<or> c \<in> (\<lambda>f. column_of (rf_dimension f) ?own) ` set (res_filters r)"
      if "m \<in> set (ne_iter (qp_measures p))" "c \<in> pp_column ` set (pm_guard m)" for m c
      using that gs by (simp add: p with_measures_def)
    have "filter_columns (qp_filters p) \<subseteq> filter_columns (pbs_filters b)"
      by (auto simp: p with_measures_def filter_columns_def dest: in_set_dropD)
    then show "pcol_table c = ?own \<or> c \<in> (\<lambda>f. column_of (rf_dimension f) ?own) ` set (res_filters r)"
      if "c \<in> filter_columns (qp_filters p)" for c using that fs' by blast
  qed
  show ?thesis
  proof (cases "length (res_metrics r) = 1")
    case True
    then have "2 + required_count (res_metric r) + requested_count (res_filters r) \<le> usize_max"
      using assms(3) by (simp add: bound_values_def)
    then obtain b where b: "predicates_and_params r (res_filters r) ?own ?c = Inr b"
      "coherent (map pf_predicate (pbs_filters b)) (pbs_params b)"
      "\<And>x. x \<in> filter_columns (pbs_filters b) \<Longrightarrow>
        x = ?c \<or> pcol_table x = ?own \<or> x \<in> (\<lambda>f. column_of (rf_dimension f) ?own) ` set (res_filters r)"
      using predicates_and_params_total [where r = r and requested = "res_filters r" and own_table = ?own and c = ?c] by metis
    let ?ms = "ne_one \<lparr>pm_metric = met_name (res_metric r), pm_label = label_measure (met_name (res_metric r)),
      pm_measure = plan_measure_of formula (own_column ?own), pm_guard = []\<rparr>"
    let ?p = "with_measures ?src ?ms tables ?bucket ?keys b (res_range r)"
    have "(mono_plan r formula :: 'd plan_error + _) = Inr ?p"
      using True assms(6) b(1) by (simp add: mono_plan_def Let_def query_plan_new_def)
    moreover have "\<forall>c \<in> plan_columns ?p. pcol_table c \<in> plan_tables ?p"
      by (rule cols [OF refl _ _ b(3)]) (auto dest: term_columns_own)
    moreover have "plan_bound ?p = [0..<length (qp_params ?p)] \<and> qp_joins ?p = chain_joins r ?own
        \<and> qp_range ?p = res_range r \<and> qp_source ?p = ?src \<and> key_labels ?p = map (\<lambda>k. dim_name (rd_dimension k)) (res_keys r)
        \<and> map pm_metric (ne_iter (qp_measures ?p)) = [met_name (res_metric r)]"
      using b(2) tables by (simp add: plan_bound_def with_measures_def coherent_def key_labels_def dimension_key_def
          plan_key_new_def label_dimension_def comp_def)
    ultimately show ?thesis using True by (intro exI [of _ ?p]) simp
  next
    case False
    then have "2 + all_required (res_metrics r) + requested_count (res_filters r) \<le> usize_max"
      using assms(3) by (simp add: bound_values_def)
    with assms(1,2) obtain ms b guards where b: "(guards_and_shared r (res_filters r) ?own ?c :: 'd plan_error + _) = Inr (ms, b)"
      "pbs_filters b = guards @ drop (length guards) (pbs_filters b)"
      "concat (map pm_guard (ne_iter ms)) = map pf_predicate guards"
      "coherent (map pf_predicate (pbs_filters b)) (pbs_params b)"
      "map pm_metric (ne_iter ms) = map met_name (res_metrics r)"
      "map pm_measure (ne_iter ms) = map (\<lambda>m. plan_measure_of (the (met_measure m)) (own_column ?own)) (res_metrics r)"
      "\<And>x. x \<in> filter_columns (pbs_filters b) \<Longrightarrow>
        x = ?c \<or> pcol_table x = ?own \<or> x \<in> (\<lambda>f. column_of (rf_dimension f) ?own) ` set (res_filters r)"
      using guards_and_shared_total [where r = r and requested = "res_filters r" and own_table = ?own and c = ?c] by metis
    let ?p = "with_measures ?src ms tables ?bucket ?keys b (res_range r)"
    have "(mono_plan r formula :: 'd plan_error + _) = Inr ?p"
      using False assms(6) b(1) by (simp add: mono_plan_def Let_def)
    moreover have "\<forall>c \<in> plan_columns ?p. pcol_table c \<in> plan_tables ?p"
    proof (rule cols [OF refl _ _ b(7)])
      fix m c assume "m \<in> set (ne_iter ms)" "c \<in> set (term_columns (pm_measure m))"
      moreover from this(1) have "pm_measure m \<in> set (map pm_measure (ne_iter ms))" by simp
      then obtain q where "pm_measure m = plan_measure_of q (own_column ?own)" unfolding b(6) by auto
      ultimately show "pcol_table c = ?own" using term_columns_own by simp
    next
      fix m c assume "m \<in> set (ne_iter ms)" "c \<in> pp_column ` set (pm_guard m)"
      then have "c \<in> pp_column ` set (concat (map pm_guard (ne_iter ms)))" by auto
      then have "c \<in> filter_columns guards" unfolding b(3) by (auto simp: filter_columns_def)
      then show "c \<in> filter_columns (pbs_filters b)" using arg_cong [OF b(2), of filter_columns] by (simp only: filter_columns_simps) blast
    qed
    moreover have "plan_bound ?p = [0..<length (qp_params ?p)]"
    proof -
      have n: "sum_list (map (\<lambda>m. length (pm_guard m)) (ne_iter ms)) = length guards"
        using arg_cong [OF b(3), of length] by (simp add: length_concat comp_def)
      have "length guards \<le> length (pbs_filters b)" using arg_cong [OF b(2), of length] by simp
      with n have "map pf_predicate (pbs_filters b) = concat (map pm_guard (ne_iter ms)) @ map pf_predicate (qp_filters ?p)"
        using arg_cong [OF b(2), of "map pf_predicate"] b(3) by (simp add: with_measures_def)
      with b(4) show ?thesis by (simp add: plan_bound_def coherent_def with_measures_def)
    qed
    ultimately show ?thesis using False b(5) tables by (intro exI [of _ ?p])
      (simp add: with_measures_def key_labels_def dimension_key_def plan_key_new_def label_dimension_def comp_def)
  qed
qed

section \<open>Chains of definitions that hold together\<close>

text \<open>Each hop is a relationship of the definitions, starts where the one before ended, and lands on its target.\<close>

fun linked :: "definitions \<Rightarrow> model \<Rightarrow> resolved_join list \<Rightarrow> bool" where
  "linked d owner [] = True"
| "linked d owner (h # hs) =
     (hop_ok d h \<and> rel_origin (rj_relationship h) = model_name owner
      \<and> bt_get (defs_models d) (model_name owner) = Some owner \<and> linked d (rj_model h) hs)"

definition resolution_linked :: "definitions \<Rightarrow> resolution \<Rightarrow> bool" where
  "resolution_linked d r \<longleftrightarrow>
     (\<forall>reach \<in> set (every_dimension r). \<forall>hops. rd_join reach = Some hops \<longrightarrow> linked d (res_model r) hops)"

lemma linked_hops: "linked d owner hops \<Longrightarrow> h \<in> set hops \<Longrightarrow> hop_ok d h"
  by (induction d owner hops rule: linked.induct) auto

lemma resolution_linked_hops: "resolution_linked d r \<Longrightarrow> hops_ok d r"
  unfolding resolution_linked_def hops_ok_def using linked_hops by blast

lemma chain_linked:
  assumes "definitions_ok d" and "chain_end (defs_models d) (defs_relationships d) m ns = Some e"
    and "traverse (resolve_hop d n) ns = Inr hs" and "bt_get (defs_models d) (model_name m) = Some m"
  shows "linked d m hs"
  using assms(2-4)
proof (induction ns arbitrary: m hs)
  case (Cons a ns)
  then obtain r t where r: "bt_get (defs_relationships d) a = Some r" "rel_origin r = model_name m"
    and t: "bt_get (defs_models d) (rel_target r) = Some t"
    and step: "chain_end (defs_models d) (defs_relationships d) t ns = Some e"
    by (auto split: option.splits if_splits)
  have "resolve_hop d n a = Inr \<lparr>rj_relationship = r, rj_model = t\<rparr>" using r t by (simp add: resolve_hop_def)
  with Cons.prems(2) obtain ks where ks: "traverse (resolve_hop d n) ns = Inr ks"
    "hs = \<lparr>rj_relationship = r, rj_model = t\<rparr> # ks" by (auto simp: res_simps)
  have name: "model_name t = rel_target r" "rel_name r = a"
    using definitions_okD(1) [OF assms(1) t] definitions_okD(2) [OF assms(1) r(1)] by simp_all
  with t have "linked d t ks" using Cons.IH [OF step ks(1)] by simp
  with ks(2) r t name Cons.prems(3) show ?case by (simp add: hop_ok_def hop_name_def)
qed simp

lemma resolution_of_linked:
  assumes d: "definitions_ok (sv_pinned v)"
    and x: "metric_ok (defs_models (sv_pinned v)) (defs_relationships (sv_pinned v)) x"
    and r: "resolution_of q v x ms vals = Inr r"
  shows "resolution_linked (sv_pinned v) r"
proof -
  let ?d = "sv_pinned v"
  from r have m: "bt_get (defs_models ?d) (met_model x) = Some (res_model r)"
    and ks: "traverse (resolve_dimension ?d x) (q_dimensions q) = Inr (res_keys r)"
    and fs: "traverse (\<lambda>(f, value). map_res (\<lambda>dim. \<lparr>rf_dimension = dim, rf_value = value\<rparr>)
          (resolve_dimension ?d x (qf_dimension f))) (zip (q_filters q) vals) = Inr (res_filters r)"
    by (auto simp: resolution_of_def Let_def res_simps)
  have each: "\<exists>n. resolve_dimension ?d x n = Inr reach" if reach: "reach \<in> set (every_dimension r)" for reach
  proof -
    from reach consider "reach \<in> set (res_keys r)" | f where "f \<in> set (res_filters r)" "reach = rf_dimension f"
      by (auto simp: every_dimension_def)
    then show ?thesis
    proof cases
      case 1
      then show ?thesis using traverse_image [OF ks] by blast
    next
      case 2
      then show ?thesis using traverse_image [OF fs] by (fastforce simp: res_simps)
    qed
  qed
  show ?thesis unfolding resolution_linked_def
  proof (intro ballI allI impI)
    fix reach hops assume reach: "reach \<in> set (every_dimension r)" and hops: "rd_join reach = Some hops"
    from each [OF reach] obtain n where n: "resolve_dimension ?d x n = Inr reach" by blast
    then obtain b chain where b: "met_dimension x n = Some b" "dim_via b = Some chain"
      and h: "traverse (resolve_hop ?d n) chain = Inr hops"
      using hops by (auto simp: resolve_dimension_def res_simps split: option.splits)
    have "b \<in> set (bt_values (met_dimensions x))" using b(1) unfolding met_dimension_def by (rule get_in_values)
    then obtain e where "chain_end (defs_models ?d) (defs_relationships ?d) (res_model r) chain = Some e"
      using x m b(2) by (auto simp: metric_ok_def dimension_ok_def dim_hops_def)
    moreover have "model_name (res_model r) = met_model x" using definitions_okD(1) [OF d m] .
    ultimately show "linked ?d (res_model r) hops" using chain_linked [OF d _ h] m by simp
  qed
qed

lemma resolved_linked:
  assumes d: "definitions_ok (sv_pinned v)" and res: "resolve q v limit = Inr res"
  shows "resolution_linked (sv_pinned v) (resolved_whole res)"
    and "s \<in> set (resolved_per_metric res) \<Longrightarrow> resolution_linked (sv_pinned v) s"
proof -
  from res obtain metrics vals where c: "resolve_checks q v limit = Inr (metrics, vals)"
    and whole: "resolution_of q v (hd metrics) metrics vals = Inr (resolved_whole res)"
    and each: "resolved_per_metric res = [] \<or>
      traverse (\<lambda>m. resolution_of q v m [m] vals) metrics = Inr (resolved_per_metric res)"
    by (auto simp: resolve_def res_simps split: if_splits)
  from c have seen: "traverse (\<lambda>n. ok_or (MetricUnknown n) (view_metric v n)) (ne_iter (q_metrics q)) = Inr metrics"
    by (auto simp: resolve_checks_def res_simps)
  have ok: "metric_ok (defs_models (sv_pinned v)) (defs_relationships (sv_pinned v)) x" if x: "x \<in> set metrics" for x
    using traverse_image [OF seen x] view_metric_ok [OF d] by (auto simp: res_simps)
  have "metrics \<noteq> []" using traverse_length [OF seen] by (metis length_0_conv ne_iter_simps(3))
  then show "resolution_linked (sv_pinned v) (resolved_whole res)"
    using resolution_of_linked [OF d ok whole] by simp
  show "resolution_linked (sv_pinned v) s" if "s \<in> set (resolved_per_metric res)"
  proof -
    from each that have "traverse (\<lambda>m. resolution_of q v m [m] vals) metrics = Inr (resolved_per_metric res)" by auto
    from traverse_image [OF this that] resolution_of_linked [OF d ok] show ?thesis by blast
  qed
qed

end
