(* ===== verification/Assembled.thy ===== *)
theory Assembled
  imports Planned
begin

text \<open>
  The planner against the constructors it calls: what it hands to \<open>FederatedPlan::new\<close>,
  \<open>LookupLegs::parse\<close>, \<open>LocalArm::new\<close> and \<open>DrillAcrossPlan::new\<close> is always
  accepted when the resolution comes from an assembled catalog, so that a question is planned or
  refused with a reason.
\<close>

section \<open>Link labels\<close>

lemma show_nat_inj: "show_nat m = show_nat n \<longleftrightarrow> m = n"
  by (metis parse_show_nat int_eq_iff_numeral le_refl max.cobounded1 max.cobounded2 of_nat_eq_iff sum.inject(2))

lemma split_at_mark: "(95::nat) \<notin> set xs \<Longrightarrow> 95 \<notin> set ys \<Longrightarrow> xs @ 95 # r = ys @ 95 # s \<longleftrightarrow> xs = ys \<and> r = s"
proof (induction xs arbitrary: ys)
  case Nil
  then show ?case by (cases ys) auto
next
  case (Cons x xs)
  then show ?case by (cases ys) auto
qed

lemma codes_LINK: "codes LINK = 95 # [108, 105, 110, 107]"
  by (simp add: LINK_def)

lemma link_prefix_inj:
  "codes (show_nat i) @ codes LINK @ r = codes (show_nat j) @ codes LINK @ s \<longleftrightarrow> i = j \<and> r = s"
  unfolding codes_LINK append_Cons split_at_mark [OF show_nat_no_mark show_nat_no_mark]
  by (simp add: show_nat_inj)

lemma link_text_codes:
  "codes (link_text i p) = codes (show_nat i) @ codes LINK @ codes (if p = 0 then [] else CHR ''_'' # show_nat p)"
  by (simp add: link_text_def LINK_def)

lemma link_text_inj: "link_text i p = link_text j q \<longleftrightarrow> i = j \<and> p = q"
proof -
  have "link_text i p = link_text j q \<longleftrightarrow> codes (link_text i p) = codes (link_text j q)" by simp
  also have "\<dots> \<longleftrightarrow> i = j \<and> p = q"
    unfolding link_text_codes link_prefix_inj codes_inject by (auto simp: show_nat_inj)
  finally show ?thesis .
qed

text \<open>A text that opens as the links of lookup \<open>i\<close> do.\<close>

definition marked :: "nat \<Rightarrow> string \<Rightarrow> bool" where
  "marked i l \<longleftrightarrow> (\<exists>rest. codes l = codes (show_nat i) @ codes LINK @ rest)"

lemma is_link_of_marked: "is_link_of i (codes l) \<Longrightarrow> marked i l"
  by (auto simp: marked_def is_link_of_def strip_prefix_eq_Some split: option.splits)

lemma link_marked: "marked i (link_text j p) \<longleftrightarrow> i = j"
  unfolding marked_def link_text_codes link_prefix_inj by blast

lemma leaf_not_marked: "\<not> marked i (internal_text (Leaf k))"
proof
  assume "marked i (internal_text (Leaf k))"
  then obtain rest where e: "codes (internal_text (Leaf k)) = codes (show_nat i) @ codes LINK @ rest"
    by (auto simp: marked_def)
  have "codes (internal_text (Leaf k)) = [48] @ 95 # codes (''leaf_'' @ show_nat k)" by (simp add: LEAF_def)
  with e have "[48] @ 95 # codes (''leaf_'' @ show_nat k) = codes (show_nat i) @ 95 # [108, 105, 110, 107] @ rest"
    unfolding codes_LINK by simp
  then have "codes (''leaf_'' @ show_nat k) = [108, 105, 110, 107] @ rest"
    using split_at_mark [OF _ show_nat_no_mark, of "[48]"] by simp
  then show False by simp
qed

lemma named_not_marked: "well_named h n \<Longrightarrow> \<not> marked i n"
proof
  assume n: "well_named h n" and "marked i n"
  then obtain rest where e: "codes n = codes (show_nat i) @ codes LINK @ rest" by (auto simp: marked_def)
  have "is_ascii_digit (of_char (hd (show_nat i)))" by (rule show_nat_digits) (rule hd_in_set, simp)
  moreover have "(of_char (hd n) :: nat) = of_char (hd (show_nat i))"
    using e n by (cases n; cases "show_nat i") (auto simp: well_named_def)
  ultimately show False using n by (auto simp: well_named_def is_ascii_alphabetic_def is_ascii_digit_def)
qed

section \<open>The links two legs share\<close>

text \<open>The labels of the links of the lookups in \<open>J\<close>, which have \<open>parts\<close> parts.\<close>

definition links_in :: "nat set \<Rightarrow> (nat \<Rightarrow> nat) \<Rightarrow> string set" where
  "links_in J parts = {link_text i p | i p. i \<in> J \<and> p < parts i}"

lemma links_in_Un [simp]: "links_in (J \<union> K) parts = links_in J parts \<union> links_in K parts"
  by (auto simp: links_in_def)

lemma links_in_one: "links_in {i} parts = link_text i ` {0..<parts i}"
  by (auto simp: links_in_def)

lemma link_in_links: "link_text i p \<in> links_in J parts \<longleftrightarrow> i \<in> J \<and> p < parts i"
  by (auto simp: links_in_def link_text_inj)

lemma links_side_ok:
  assumes "set (lp_key_labels on) = links_in J parts \<union> others" and "\<forall>l \<in> others. \<not> marked i l" and "i \<in> J"
  shows "link_side_ok i (parts i) on"
  unfolding link_side_ok_def
proof (intro conjI allI impI ballI)
  show "link_text i p \<in> set (lp_key_labels on)" if "p < parts i" for p
    using that assms(3) unfolding assms(1) by (simp add: link_in_links)
  fix l assume l: "l \<in> set (lp_key_labels on)" and "is_link_of i (codes l)"
  then have "marked i l" by (simp add: is_link_of_marked)
  with l assms(2) have "l \<in> links_in J parts" unfolding assms(1) by blast
  then obtain j p where "l = link_text j p" "p < parts j" by (auto simp: links_in_def)
  with \<open>marked i l\<close> show "\<exists>p < parts i. l = link_text i p" by (auto simp: link_marked)
qed

lemma links_parts:
  assumes "set (lp_key_labels on) = links_in J parts \<union> others" and "\<forall>l \<in> others. \<not> marked i l" and "i \<in> J"
    and "parts i \<le> length (lp_keys on)"
  shows "link_parts on i = parts i"
proof -
  have has: "leg_has_key on (link_text i p) \<longleftrightarrow> p < parts i" for p
    using assms(2,3) link_marked unfolding leg_has_key_def assms(1) Un_iff link_in_links by blast
  have "takeWhile (\<lambda>p. p < parts i) [0..<length (lp_keys on)] = [0..<parts i]"
  proof -
    have "[0..<length (lp_keys on)] = [0..<parts i] @ [parts i..<length (lp_keys on)]"
      by (rule upt_append [symmetric]) (use assms(4) in simp_all)
    then show ?thesis by (cases "parts i < length (lp_keys on)") (simp_all add: takeWhile_append upt_conv_Cons)
  qed
  then show ?thesis by (simp add: link_parts_def has)
qed

section \<open>The keys of the legs\<close>

definition key_label :: "plan_key \<Rightarrow> string" where
  "key_label k = label_str (pkey_label k)"

lemma leg_labels_keys: "lp_key_labels leg = map key_label (lp_keys leg)"
  by (simp add: lp_key_labels_def key_label_def)

lemma key_label_simps [simp]:
  "key_label (origin_key l t k) = label_str l" "key_label (plan_key_new l c) = label_str l"
  "key_label (dimension_key t x) = dim_name (rd_dimension x)" "label_str (link_label i p) = link_text i p"
  by (auto simp: key_label_def origin_key_def plan_key_new_def plan_key_truncated_def dimension_key_def
      label_dimension_def link_label_def label_internal_def link_text_def split: option.splits)

definition shape_parts :: "lookup_shape list \<Rightarrow> nat \<Rightarrow> nat" where
  "shape_parts shapes i = length (shape_keys (shapes ! i))"

lemma enumerated_map_fst: "map (\<lambda>(i, x). f i) (enumerated xs) = map f [0..<length xs]"
  unfolding enumerated_def by (rule nth_equalityI) simp_all

lemma link_keys_labels: "map key_label (link_keys i s) = map (link_text i) [0..<length (shape_keys s)]"
  by (simp add: link_keys_def comp_def split_def flip: enumerated_map_fst)

lemma own_link_keys_labels: "map key_label (own_link_keys i s) = map (link_text i) [0..<length (shape_keys s)]"
  by (simp add: own_link_keys_def comp_def split_def flip: enumerated_map_fst)

definition joined_at :: "lookup_shape list \<Rightarrow> nat option \<Rightarrow> nat set" where
  "joined_at shapes side = {i. i < length shapes \<and> ls_parent (shapes ! i) = side}"

lemma joined_link_keys_labels:
  "key_label ` set (joined_link_keys lks side) = links_in (joined_at (lk_shapes lks) side) (shape_parts (lk_shapes lks))"
proof -
  have "key_label ` set (joined_link_keys lks side)
      = (\<Union>(i, s) \<in> {(i, s) \<in> set (enumerated (lk_shapes lks)). ls_parent s = side}. set (map key_label (link_keys i s)))"
    by (auto simp: joined_link_keys_def)
  also have "\<dots> = links_in (joined_at (lk_shapes lks) side) (shape_parts (lk_shapes lks))"
    unfolding link_keys_labels
    by (auto simp: links_in_def joined_at_def shape_parts_def in_set_enumerated) blast
  finally show ?thesis .
qed

section \<open>Where the lookups cross\<close>

lemma set_bt_insert: "set (bt_insert k v m) \<subseteq> insert (k, v) (set m)"
  by (induction k v m rule: bt_insert.induct) auto

text \<open>What holds of the segments of each chain holds of the drafts gathered from them.\<close>

lemma draft_segments_all:
  assumes "\<forall>k < length ss. P (path @ segment_names (take (Suc k) ss)) (seg_hop (ss ! k)) (seg_origin (ss ! k))"
    and "\<forall>(q, draft) \<in> set drafts. P q (dr_crossing draft) (dr_origin draft)"
  shows "\<forall>(q, draft) \<in> set (draft_segments path ss drafts). P q (dr_crossing draft) (dr_origin draft)"
  using assms
proof (induction path ss drafts rule: draft_segments.induct)
  case (2 path s ss drafts)
  let ?p = "path @ [hop_name (seg_hop s)]"
  let ?draft = "case bt_get drafts ?p of Some d \<Rightarrow> d | None \<Rightarrow> \<lparr>dr_crossing = seg_hop s, dr_origin = seg_origin s, dr_joins = []\<rparr>"
  have here: "P ?p (seg_hop s) (seg_origin s)" using "2.prems"(1) by (auto simp: segment_names_def dest: spec [of _ 0])
  have one: "P ?p (dr_crossing ?draft) (dr_origin ?draft)"
    using here "2.prems"(2) by (auto split: option.splits dest!: map_of_SomeD)
  have rest: "\<forall>k < length ss. P (?p @ segment_names (take (Suc k) ss)) (seg_hop (ss ! k)) (seg_origin (ss ! k))"
  proof (intro allI impI)
    fix k assume "k < length ss"
    then show "P (?p @ segment_names (take (Suc k) ss)) (seg_hop (ss ! k)) (seg_origin (ss ! k))"
      using "2.prems"(1) [rule_format, of "Suc k"] by (simp add: segment_names_def)
  qed
  show ?case
    unfolding draft_segments.simps Let_def
    by (rule "2.IH" [OF refl refl refl rest])
      (use set_bt_insert [of ?p _ drafts] one "2.prems"(2) in fastforce)
qed simp

lemma drafts_all:
  assumes "\<forall>x \<in> set ds. \<forall>hops ss k. rd_join x = Some hops \<and> ss = snd (split_runs own hops) \<and> k < length ss \<longrightarrow>
      P (segment_names (take (Suc k) ss)) (seg_hop (ss ! k)) (seg_origin (ss ! k))"
    and "\<forall>(q, draft) \<in> set drafts. P q (dr_crossing draft) (dr_origin draft)"
  shows "\<forall>(q, draft) \<in> set (fold (draft_dimension own) ds drafts). P q (dr_crossing draft) (dr_origin draft)"
  using assms
proof (induction ds arbitrary: drafts)
  case (Cons x ds)
  have "\<forall>(q, draft) \<in> set (draft_dimension own x drafts). P q (dr_crossing draft) (dr_origin draft)"
  proof (cases "Option.bind (rd_join x) (\<lambda>hops. cut_chain hops own)")
    case None
    with Cons.prems(2) show ?thesis by (simp add: draft_dimension_def)
  next
    case (Some c)
    then obtain hops where hops: "rd_join x = Some hops" "cut_chain hops own = Some c" by (auto simp: bind_eq_Some_conv)
    then have "\<forall>k < length (cut_segments c). P ([] @ segment_names (take (Suc k) (cut_segments c)))
        (seg_hop (cut_segments c ! k)) (seg_origin (cut_segments c ! k))"
      using Cons.prems(1) cut_chain_path(2) [OF hops(2)] by simp
    from draft_segments_all [where P = P, OF this Cons.prems(2)] Some show ?thesis by (simp add: draft_dimension_def)
  qed
  with Cons.IH Cons.prems(1) show ?case by simp
qed simp

text \<open>Each segment opens in the data system the walk is in, and crosses out of it.\<close>

fun crosses :: "name \<Rightarrow> segment list \<Rightarrow> bool" where
  "crosses source [] = True"
| "crosses source (s # ss) =
     (model_source (seg_origin s) = source \<and> model_source (rj_model (seg_hop s)) \<noteq> source
      \<and> crosses (model_source (rj_model (seg_hop s))) ss)"

lemma split_runs_crosses: "crosses (model_source owner) (snd (split_runs owner hops))"
  by (induction owner hops rule: split_runs.induct) (auto split: prod.splits)

lemma crosses_nth:
  "crosses source ss \<Longrightarrow> k < length ss \<Longrightarrow>
     model_source (rj_model (seg_hop (ss ! k))) \<noteq> (if k = 0 then source else model_source (rj_model (seg_hop (ss ! (k - 1)))))"
proof (induction source ss arbitrary: k rule: crosses.induct)
  case (2 source s ss)
  then show ?case using "2.IH" [of "k - 1"] by (cases k; cases "k - 1") auto
qed simp

lemma segment_hops: "s \<in> set (snd (split_runs own hops)) \<Longrightarrow> seg_hop s \<in> set hops"
proof -
  obtain before ss where r: "split_runs own hops = (before, ss)" by fastforce
  assume "s \<in> set (snd (split_runs own hops))"
  with r have "seg_hop s \<in> set (concat (map (\<lambda>s. seg_hop s # seg_after s) ss))" by auto
  then show ?thesis using split_runs_parts [OF r] by (metis Un_iff set_append)
qed


text \<open>A lookup's crossing: what its path says, and out of the data system of the leg it joins onto.\<close>

lemma shape_crossing:
  assumes ok: "hops_ok d r" and i: "i < length (lk_shapes (lookups_of r))"
  shows "hop_ok d (ls_crossing (lk_shapes (lookups_of r) ! i))"
    and "hop_name (ls_crossing (lk_shapes (lookups_of r) ! i)) = last (lookup_paths r ! i)"
    and "model_source (rj_model (ls_crossing (lk_shapes (lookups_of r) ! i)))
      \<noteq> (case ls_parent (lk_shapes (lookups_of r) ! i) of None \<Rightarrow> model_source (res_model r)
         | Some j \<Rightarrow> model_source (rj_model (ls_crossing (lk_shapes (lookups_of r) ! j))))"
proof -
  let ?shapes = "lk_shapes (lookups_of r)" and ?paths = "lookup_paths r"
  define P where "P q c (o' :: model) \<longleftrightarrow> (\<exists>x \<in> set (every_dimension r). \<exists>hops ss k. rd_join x = Some hops
      \<and> ss = snd (split_runs (res_model r) hops) \<and> k < length ss
      \<and> q = segment_names (take (Suc k) ss) \<and> c = seg_hop (ss ! k))" for q c o'
  have all: "\<forall>(q, draft) \<in> set (drafts_of (res_model r) (every_dimension r)). P q (dr_crossing draft) (dr_origin draft)"
    unfolding drafts_of_def by (rule drafts_all) (auto simp: P_def)
  have at: "\<exists>x \<in> set (every_dimension r). \<exists>hops ss k. rd_join x = Some hops
      \<and> ss = snd (split_runs (res_model r) hops) \<and> k < length ss
      \<and> ?paths ! i = segment_names (take (Suc k) ss) \<and> ls_crossing (?shapes ! i) = seg_hop (ss ! k)"
    if i: "i < length ?shapes" for i
  proof -
    let ?e = "drafts_of (res_model r) (every_dimension r) ! i"
    from i have l: "i < length (drafts_of (res_model r) (every_dimension r))" by (simp add: lookups_of_shapes)
    then have "?e \<in> set (drafts_of (res_model r) (every_dimension r))" by simp
    with all have "P (fst ?e) (dr_crossing (snd ?e)) (dr_origin (snd ?e))" by (auto simp: split_def)
    moreover have "?paths ! i = fst ?e" "ls_crossing (?shapes ! i) = dr_crossing (snd ?e)"
      using l by (simp_all add: lookup_paths_def lookups_of_shapes shape_of_def split_def)
    ultimately show ?thesis unfolding P_def by simp
  qed
  have crossing: "hop_ok d (ls_crossing (?shapes ! i)) \<and> hop_name (ls_crossing (?shapes ! i)) = last (?paths ! i)"
    if i: "i < length ?shapes" for i
  proof -
    from at [OF i] obtain x hops ss k where x: "x \<in> set (every_dimension r)" "rd_join x = Some hops"
      and ss: "ss = snd (split_runs (res_model r) hops)" "k < length ss"
      and p: "?paths ! i = segment_names (take (Suc k) ss)" "ls_crossing (?shapes ! i) = seg_hop (ss ! k)" by blast
    have "seg_hop (ss ! k) \<in> set hops" using ss by (intro segment_hops [of _ "res_model r"]) auto
    with ok x p(2) have "hop_ok d (ls_crossing (?shapes ! i))" by (auto simp: hops_ok_def)
    moreover have "last (?paths ! i) = hop_name (seg_hop (ss ! k))"
      using ss(2) unfolding p(1) by (simp add: segment_names_def take_Suc_conv_app_nth)
    ultimately show ?thesis using p(2) by simp
  qed
  from crossing [OF i] show "hop_ok d (ls_crossing (?shapes ! i))"
    and "hop_name (ls_crossing (?shapes ! i)) = last (?paths ! i)" by simp_all
  from at [OF i] obtain x hops ss k where x: "x \<in> set (every_dimension r)" "rd_join x = Some hops"
    and ss: "ss = snd (split_runs (res_model r) hops)" "k < length ss"
    and p: "?paths ! i = segment_names (take (Suc k) ss)" "ls_crossing (?shapes ! i) = seg_hop (ss ! k)" by blast
  note differ = crosses_nth [OF split_runs_crosses, of k "res_model r" hops, folded ss(1), OF ss(2)]
  have len: "length (?paths ! i) = Suc k" using ss(2) unfolding p(1) by (simp add: segment_names_def)
  note parents = parents_first [of i r, folded shapes_length, OF i]
  show "model_source (rj_model (ls_crossing (?shapes ! i)))
      \<noteq> (case ls_parent (?shapes ! i) of None \<Rightarrow> model_source (res_model r)
         | Some j \<Rightarrow> model_source (rj_model (ls_crossing (?shapes ! j))))"
  proof (cases "ls_parent (?shapes ! i)")
    case None
    with parents len differ p(2) show ?thesis by simp
  next
    case (Some j)
    with parents have j: "j < i" "?paths ! j = butlast (?paths ! i)" by simp_all
    then have jl: "j < length ?shapes" using i by simp
    have "?paths ! j \<noteq> []" using jl lookup_paths_set [of r] nth_mem [of j ?paths] by (auto simp: shapes_length)
    then have "length (butlast (?paths ! i)) \<noteq> 0" unfolding j(2) length_0_conv .
    with len have "0 < k" by (simp only: length_butlast)
    then have kj: "k - 1 < length ss" "seg_hop (ss ! (k - 1)) \<in> set hops"
      using ss by (auto intro!: segment_hops [of _ "res_model r"])
    have "last (?paths ! j) = hop_name (seg_hop (ss ! (k - 1)))"
      using ss(2) \<open>0 < k\<close> unfolding j(2) p(1) by (cases k) (simp_all add: segment_names_def take_Suc_conv_app_nth butlast_append)
    then have "hop_name (ls_crossing (?shapes ! j)) = hop_name (seg_hop (ss ! (k - 1)))" using crossing [OF jl] by simp
    moreover have "hop_ok d (seg_hop (ss ! (k - 1)))" using ok x kj(2) by (auto simp: hops_ok_def)
    ultimately have "ls_crossing (?shapes ! j) = seg_hop (ss ! (k - 1))" using crossing [OF jl] hop_ok_inj by blast
    with Some differ \<open>0 < k\<close> p(2) show ?thesis by simp
  qed
qed

section \<open>Refusals\<close>

text \<open>What a question can be told: that it is refused, with a reason, that a metric it names is not
  planned in this shape, or that a metric has no digest. Every other error is the planner's own.\<close>

definition graceful :: "'d plan_error \<Rightarrow> bool" where
  "graceful e \<longleftrightarrow> (case e of PlanRefused _ \<Rightarrow> True | AuthoredSqlNotPlanned _ \<Rightarrow> True | NotDigestible _ \<Rightarrow> True | _ \<Rightarrow> False)"

definition gracefully :: "'d plan_error + 'a \<Rightarrow> bool" where
  "gracefully res \<longleftrightarrow> (\<forall>e. res = Inl e \<longrightarrow> graceful e)"

lemma graceful_simps [simp]:
  "graceful (PlanRefused x)" "graceful (AuthoredSqlNotPlanned n)" "graceful (NotDigestible y)"
  by (simp_all add: graceful_def)

lemma gracefully_simps [simp]:
  "gracefully (Inr x)" "gracefully (Inl e) \<longleftrightarrow> graceful e" "gracefully (map_res f res) \<longleftrightarrow> gracefully res"
  by (auto simp: gracefully_def map_res_eq_Inl)

lemma gracefully_bind:
  "gracefully res \<Longrightarrow> (\<And>x. res = Inr x \<Longrightarrow> gracefully (f x)) \<Longrightarrow> gracefully (bind_res res f)"
  by (cases res) (auto simp: gracefully_def)

lemma gracefully_traverse: "(\<And>x. x \<in> set xs \<Longrightarrow> gracefully (f x)) \<Longrightarrow> gracefully (traverse f xs)"
  by (induction xs) (auto intro!: gracefully_bind)

lemma gracefully_each_ok: "(\<And>x. x \<in> set xs \<Longrightarrow> gracefully (f x)) \<Longrightarrow> gracefully (each_ok f xs)"
  by (auto simp: gracefully_def dest!: each_ok_eq_Inl)

lemma gracefully_ensure [simp]: "graceful e \<Longrightarrow> gracefully (ensure c e)"
  by (auto simp: gracefully_def ensure_eq_Inl)

lemma gracefully_tables [simp]: "gracefully (planned_tables t js)"
  by (auto simp: gracefully_def planned_tables_def map_err_eq_Inl)

lemma gracefully_digest [simp]: "gracefully (map_err NotDigestible x)"
  by (auto simp: gracefully_def map_err_eq_Inl)

lemma gracefully_bound: "\<exists>b. x = Inr b \<Longrightarrow> gracefully (map_err NotBound x)"
  by auto

lemma requested_count_filter: "requested_count (filter P fs) \<le> requested_count fs"
  by (induction fs) (auto simp: requested_count_def)

lemma requested_for_total:
  assumes "requested_count fs \<le> usize_max"
  shows "\<exists>b. requested_for fs t = Inr b"
proof -
  obtain gs qs where e: "emit_each (emit_requested t) fs [] = (gs, qs)" by fastforce
  have l: "length qs = requested_count fs" using requested.each_length [OF e] by (simp add: requested_count_def)
  with assms have "length qs \<le> usize_max" by simp
  from requested.each_binds [OF e this] plan_bindings_parse_ok [OF this, of gs] e show ?thesis
    by (simp add: requested_for_def coherent_def)
qed

lemma range_only_total: "\<exists>b. range_only rng c = Inr b"
proof -
  obtain fs qs where e: "range_filters rng c [] = (fs, qs)" by fastforce
  have l: "length qs \<le> usize_max" using range_filters_facts(2) [OF e] by (simp add: usize_max_def)
  from range_filters_facts(1) [OF e l] plan_bindings_parse_ok [OF l, of fs] e show ?thesis
    by (simp add: range_only_def coherent_def)
qed

section \<open>The lookup legs\<close>

lemma plan_lookup_leg_facts:
  assumes "plan_lookup_leg of_one r lks (i, s) = Inr leg"
  shows "\<not> is_LegFact (ll_leg leg)" and "lp_source (ll_leg leg) = model_source (rj_model (ls_crossing s))"
    and "lp_keys (ll_leg leg) = lookup_keys r lks i s"
    and "ll_onto leg = (case ls_parent s of None \<Rightarrow> AtFact | Some j \<Rightarrow> AtLookup j)"
  using assms
  by (auto simp: plan_lookup_leg_def Let_def bind_res_eq_Inr onto_fact_def onto_lookup_def split: option.splits)

lemma plan_lookup_leg_graceful:
  assumes "requested_count (res_filters r) \<le> usize_max"
  shows "gracefully (plan_lookup_leg of_one r lks (i, s))"
proof -
  have "\<exists>b. requested_for (filter P (res_filters r)) t = Inr b" for P t
    using requested_for_total requested_count_filter assms order_trans by blast
  note b = this [of "\<lambda>f. index_of lks (rf_dimension f) = Some i" "model_table_name (rj_model (ls_crossing s))"]
  then show ?thesis by (auto simp: plan_lookup_leg_def Let_def intro!: gracefully_bind)
qed

lemma lookup_legs_graceful:
  assumes "requested_count (res_filters r) \<le> usize_max"
    and "lk_shapes (lookups_of r) \<noteq> []" and "length (lk_shapes (lookups_of r)) \<le> 8"
  shows "gracefully (lookup_legs of_one r (lookups_of r))"
proof -
  let ?shapes = "lk_shapes (lookups_of r)"
  have "gracefully (map_err (\<lambda>e. NotAssembled (FedLookups e)) (lookup_legs_parse legs))"
    if t: "traverse (plan_lookup_leg of_one r (lookups_of r)) (enumerated ?shapes) = Inr legs" for legs
  proof -
    have len: "length legs = length ?shapes" using traverse_length [OF t] by simp
    have "onto_earlier legs" unfolding onto_earlier_def
    proof (intro allI impI)
      fix i j assume i: "i < length legs" and onto: "ll_onto (legs ! i) = AtLookup j"
      have "plan_lookup_leg of_one r (lookups_of r) (i, ?shapes ! i) = Inr (legs ! i)"
        using t i len by (auto simp: traverse_eq_Inr list_all2_conv_all_nth)
      from plan_lookup_leg_facts(4) [OF this] onto have "ls_parent (?shapes ! i) = Some j" by (auto split: option.splits)
      with parents_first [of i r] i len show "j < i" by (simp add: shapes_length)
    qed
    then have "lookup_legs_parse legs = Inr legs"
      using assms(2,3) len by (simp add: lookup_legs_parse_ok) auto
    then show ?thesis by simp
  qed
  then show ?thesis
    using plan_lookup_leg_graceful [OF assms(1)]
    by (auto simp: lookup_legs_def intro!: gracefully_bind gracefully_traverse)
qed

lemma lookup_legs_at:
  assumes "lookup_legs of_one r lks = Inr legs"
  shows "length legs = length (lk_shapes lks)"
    and "i < length (lk_shapes lks) \<Longrightarrow> plan_lookup_leg of_one r lks (i, lk_shapes lks ! i) = Inr (legs ! i)"
proof -
  from assms have t: "traverse (plan_lookup_leg of_one r lks) (enumerated (lk_shapes lks)) = Inr legs"
    by (auto simp: lookup_legs_def bind_res_eq_Inr map_err_eq_Inr lookup_legs_parse_ok)
  from traverse_length [OF t] show "length legs = length (lk_shapes lks)" by simp
  with t show "i < length (lk_shapes lks) \<Longrightarrow> plan_lookup_leg of_one r lks (i, lk_shapes lks ! i) = Inr (legs ! i)"
    by (auto simp: traverse_eq_Inr list_all2_conv_all_nth)
qed

section \<open>The terms of the legs\<close>

lemma leg_terms_of_labels:
  "leg_terms_of own second xs = (terms, second_terms, keys) \<Longrightarrow>
     term_labels terms = map (\<lambda>(_, l). internal_text l) (filter (\<lambda>(leaf, _). \<not> is_pulled_up leaf \<and> carried_model leaf = None) xs)
     \<and> term_labels second_terms = map (\<lambda>(_, l). internal_text l) (filter (\<lambda>(leaf, _). \<not> is_pulled_up leaf \<and> carried_model leaf \<noteq> None) xs)
     \<and> map key_label keys = map (\<lambda>(_, l). internal_text l) (filter (\<lambda>(leaf, _). is_pulled_up leaf) xs)"
proof (induction own second xs arbitrary: terms second_terms keys rule: leg_terms_of.induct)
  case (2 own second leaf l xs)
  obtain ts ss ks where rest: "leg_terms_of own second xs = (ts, ss, ks)" by (metis prod_cases3)
  show ?case
    using "2.prems" "2.IH" [OF refl rest] rest
    by (cases leaf) (auto simp: term_labels_def label_internal_def split: if_splits)
qed (simp add: term_labels_def)

lemma leaves_erase: "leaves (erase_own own a) [] = map (erase_carried own) (leaves a [])"
  by (induction a) (simp_all del: leaves.simps(2) add: leaves_quotient)

lemma carried_erase:
  "carried_model (erase_carried own k) = (if carried_model k = Some own then None else carried_model k)"
  "is_pulled_up (erase_carried own k) = is_pulled_up k"
  by (cases k; simp)+

lemma carried_of_term:
  assumes "k \<in> set (fed_carried (federation_of_metric q own))"
  shows "\<exists>t \<in> set (measure_terms q). carried_model k = (if term_model t = Some own then None else term_model t)
    \<and> (is_pulled_up k \<longrightarrow> (\<exists>a. t = TermAggregate a \<and> ac_aggregate a = CountDistinct))"
proof -
  have "fed_carried (federation_of_metric q own) = map (erase_carried own) (concat (map (\<lambda>t. leaves (descend t) []) (measure_terms q)))"
    by (cases q) (simp_all add: federation_of_metric_def federation_of_def fed_carried_def leaves_erase Let_def
        del: leaves.simps(2))
  with assms obtain t c where "t \<in> set (measure_terms q)" "c \<in> set (leaves (descend t) [])" "k = erase_carried own c" by auto
  then show ?thesis using leaves_descend(1,4) [of t] by (intro bexI [of _ t]) (auto simp: carried_erase)
qed

text \<open>Terms of two models: the catalog permits sums and counts alone, which no leg pulls up.\<close>

lemma cross_not_pulled:
  assumes "measure_ok ms x m q" and "k \<in> set (fed_carried (federation_of_metric q (met_model x)))" and "carried_model k \<noteq> None"
    and "j \<in> set (fed_carried (federation_of_metric q (met_model x)))"
  shows "\<not> is_pulled_up j" and "is_cross_model x q"
proof -
  obtain t where "t \<in> set (measure_terms q)"
    "carried_model k = (if term_model t = Some (met_model x) then None else term_model t)"
    using carried_of_term [OF assms(2)] by blast
  with assms(3) have t: "t \<in> set (measure_terms q)" "term_model t \<noteq> None" "term_model t \<noteq> Some (met_model x)"
    by (simp_all split: if_splits)
  then show cross: "is_cross_model x q" by (auto simp: is_cross_model_def measure_models_def list_ex_iff)
  obtain u where "u \<in> set (measure_terms q)" "is_pulled_up j \<longrightarrow> (\<exists>a. u = TermAggregate a \<and> ac_aggregate a = CountDistinct)"
    using carried_of_term [OF assms(4)] by blast
  with cross assms(1) show "\<not> is_pulled_up j" by (fastforce simp: measure_ok_def)
qed

section \<open>The second fact\<close>

lemma fits_length: "fits s rel = Some (rel', links) \<Longrightarrow> length links = length (shape_keys s)"
  by (auto simp: fits_def Let_def split: if_splits dest: collect_some_length)

lemma second_links_labels:
  "(second_links metric cross serving xs :: 'd plan_error + _) = Inr keys \<Longrightarrow>
     key_label ` set keys = {link_text i p | i p s. (i, s) \<in> set xs \<and> p < length (shape_keys s)}"
proof (induction metric cross serving xs arbitrary: keys rule: second_links.induct)
  case (2 metric cross serving i s rest)
  from "2.prems" obtain link links others where fit: "List.map_filter (fits s) (cm_second_relationships cross) = (link, links) # others"
    by (auto split: list.splits)
  with "2.prems" obtain ks where ks: "(second_links metric cross (serving @ [rel_name link]) rest :: 'd plan_error + _) = Inr ks"
    and keys: "keys = map (\<lambda>(part, key). origin_key (link_label i part) (model_table_name (cm_second cross)) key) (enumerated links) @ ks"
    and ok: "\<not> (others \<noteq> [] \<or> rel_name link \<in> set serving)"
    by (auto simp: map_res_eq_Inr split: if_splits)
  have "(link, links) \<in> set (List.map_filter (fits s) (cm_second_relationships cross))" using fit by simp
  then have "length links = length (shape_keys s)" using fits_length by (auto simp: set_map_filter)
  then have here: "key_label ` set (map (\<lambda>(part, key). origin_key (link_label i part) (model_table_name (cm_second cross)) key) (enumerated links))
      = {link_text i p | p. p < length (shape_keys s)}"
    by (force simp: in_set_enumerated image_iff)
  have "key_label ` set ks = {link_text i p | i p s. (i, s) \<in> set rest \<and> p < length (shape_keys s)}"
    by (rule "2.IH" [OF fit [symmetric, THEN sym] refl ok ks])
  with here show ?case unfolding keys set_append image_Un by auto
qed simp

lemma second_links_graceful: "gracefully (second_links metric cross serving xs)"
  by (induction metric cross serving xs rule: second_links.induct)
    (auto simp: gracefully_def map_res_eq_Inl split: list.splits)

lemma second_fact_leg_graceful: "res_cross r \<noteq> None \<or> second_terms = [] \<Longrightarrow> gracefully (second_fact_leg of_one r lks bucket second_terms)"
  using range_only_total second_links_graceful
  by (auto simp: second_fact_leg_def Let_def intro!: gracefully_bind gracefully_bound)

lemma second_fact_leg_facts:
  fixes of_one :: "metric \<Rightarrow> 'd + string"
  assumes "second_fact_leg of_one r lks bucket second_terms = Inr (Some leg)"
  shows "is_LegFact leg" and "lp_terms leg = second_terms" and "on_the_axis_of (fl_bucket leg) \<lparr>pb_label = label_bucket,
      pb_grain = pb_grain bucket, pb_column = own_column t (met_time_column (res_metric r))\<rparr>"
    and "set (lp_key_labels leg) = links_in (joined_at (lk_shapes lks) None) (shape_parts (lk_shapes lks))"
proof -
  from assms obtain cross keys where k: "(second_links (res_metric r) cross []
      (filter (\<lambda>(_, s). ls_parent s = None) (enumerated (lk_shapes lks))) :: 'd plan_error + _) = Inr keys"
    and leg: "is_LegFact leg" "lp_terms leg = second_terms" "lp_keys leg = keys"
    and bucket: "pb_label (fl_bucket leg) = label_bucket" "pb_grain (fl_bucket leg) = pb_grain bucket"
      "pcol_column (pb_column (fl_bucket leg)) = met_time_column (res_metric r)"
    by (auto simp: second_fact_leg_def Let_def bind_res_eq_Inr own_column_def split: if_splits)
  show "is_LegFact leg" "lp_terms leg = second_terms" using leg by simp_all
  show "on_the_axis_of (fl_bucket leg) \<lparr>pb_label = label_bucket,
      pb_grain = pb_grain bucket, pb_column = own_column t (met_time_column (res_metric r))\<rparr>"
    using bucket by (simp add: on_the_axis_of_def own_column_def)
  have "set (lp_key_labels leg) = {link_text i p | i p s.
      (i, s) \<in> set (filter (\<lambda>(_, s). ls_parent s = None) (enumerated (lk_shapes lks))) \<and> p < length (shape_keys s)}"
    using second_links_labels [OF k] by (simp add: leg_labels_keys leg(3))
  then show "set (lp_key_labels leg) = links_in (joined_at (lk_shapes lks) None) (shape_parts (lk_shapes lks))"
    by (auto simp: links_in_def joined_at_def shape_parts_def in_set_enumerated)
qed

lemma second_fact_leg_range:
  "second_fact_leg of_one r lks bucket second_terms = Inr (Some leg) \<Longrightarrow> is_LegFact leg \<and> fl_range leg = res_range r"
  by (auto simp: second_fact_leg_def Let_def bind_res_eq_Inr split: if_splits)

lemma second_fact_leg_None:
  "second_fact_leg of_one r lks bucket second_terms = Inr None \<Longrightarrow> second_terms = []"
  by (auto simp: second_fact_leg_def Let_def bind_res_eq_Inr split: if_splits)

section \<open>A federated plan is always assembled\<close>

lemma shape_parts_pos: "0 < shape_parts shapes i"
  by (simp add: shape_parts_def shape_keys_def)

lemma lookup_leg_labels:
  assumes "plan_lookup_leg of_one r lks (i, s) = Inr leg" and "s = lk_shapes lks ! i"
  shows "set (lp_key_labels (ll_leg leg)) =
      links_in (insert i (joined_at (lk_shapes lks) (Some i))) (shape_parts (lk_shapes lks))
      \<union> (\<lambda>k. dim_name (rd_dimension k)) ` {k \<in> set (res_keys r). index_of lks k = Some i}"
    and "shape_parts (lk_shapes lks) i \<le> length (lp_keys (ll_leg leg))"
proof -
  note keys = plan_lookup_leg_facts(3) [OF assms(1)]
  have "key_label ` set (own_link_keys i s) = links_in {i} (shape_parts (lk_shapes lks))"
    using arg_cong [OF own_link_keys_labels [of i s], of set] links_in_one [of i "shape_parts (lk_shapes lks)"]
    by (simp add: assms(2) shape_parts_def)
  moreover have "links_in (insert i (joined_at (lk_shapes lks) (Some i))) (shape_parts (lk_shapes lks))
      = links_in {i} (shape_parts (lk_shapes lks)) \<union> links_in (joined_at (lk_shapes lks) (Some i)) (shape_parts (lk_shapes lks))"
    by (subst insert_is_Un) (rule links_in_Un)
  ultimately show "set (lp_key_labels (ll_leg leg)) =
      links_in (insert i (joined_at (lk_shapes lks) (Some i))) (shape_parts (lk_shapes lks))
      \<union> (\<lambda>k. dim_name (rd_dimension k)) ` {k \<in> set (res_keys r). index_of lks k = Some i}"
    using joined_link_keys_labels [of lks "Some i"]
    unfolding leg_labels_keys keys lookup_keys_def set_map set_append image_Un set_filter image_image
    by (simp only: key_label_simps Un_assoc)
  have "length (own_link_keys i s) = shape_parts (lk_shapes lks) i"
    using assms(2) by (simp add: own_link_keys_def shape_parts_def)
  then show "shape_parts (lk_shapes lks) i \<le> length (lp_keys (ll_leg leg))"
    by (simp add: keys lookup_keys_def)
qed

lemma fact_labels:
  assumes "leg_terms f own second (fact_leg_keys r lks own) = (terms, second_terms, keys)"
  shows "key_label ` set keys = links_in (joined_at (lk_shapes lks) None) (shape_parts (lk_shapes lks))
      \<union> ((\<lambda>k. dim_name (rd_dimension k)) ` {k \<in> set (res_keys r). index_of lks k = None}
         \<union> {internal_text l | l leaf. (leaf, l) \<in> set (zip (fed_carried f) (fed_labels f)) \<and> is_pulled_up leaf})"
    and "term_labels terms = first_expected f"
    and "(\<forall>leaf \<in> set (fed_carried f). carried_model leaf \<noteq> None \<longrightarrow> \<not> is_pulled_up leaf) \<Longrightarrow>
      term_labels second_terms = second_expected f"
proof -
  obtain ks where ks: "leg_terms_of own second (zip (fed_carried f) (fed_labels f)) = (terms, second_terms, ks)"
    and keys: "keys = fact_leg_keys r lks own @ ks"
    using assms by (auto simp: leg_terms_def split: prod.splits)
  note labels = leg_terms_of_labels [OF ks]
  have "key_label ` set ks = {internal_text l | l leaf. (leaf, l) \<in> set (zip (fed_carried f) (fed_labels f)) \<and> is_pulled_up leaf}"
    using arg_cong [OF labels [THEN conjunct2, THEN conjunct2], of set] by force
  then show "key_label ` set keys = links_in (joined_at (lk_shapes lks) None) (shape_parts (lk_shapes lks))
      \<union> ((\<lambda>k. dim_name (rd_dimension k)) ` {k \<in> set (res_keys r). index_of lks k = None}
         \<union> {internal_text l | l leaf. (leaf, l) \<in> set (zip (fed_carried f) (fed_labels f)) \<and> is_pulled_up leaf})"
    using joined_link_keys_labels [of lks None]
    unfolding keys fact_leg_keys_def set_append image_Un set_map set_filter image_image
    by (simp only: key_label_simps Un_assoc Un_left_commute Un_commute)
  show "term_labels terms = first_expected f"
    using labels [THEN conjunct1]
    unfolding first_expected_def first_leaves_def filter_filter by (simp add: split_def conj_commute)
  show "term_labels second_terms = second_expected f"
    if p: "\<forall>leaf \<in> set (fed_carried f). carried_model leaf \<noteq> None \<longrightarrow> \<not> is_pulled_up leaf"
  proof -
    have "filter (\<lambda>(leaf, _). \<not> is_pulled_up leaf \<and> carried_model leaf \<noteq> None) (zip (fed_carried f) (fed_labels f))
        = second_leaves f"
      unfolding second_leaves_def by (rule filter_cong) (use p in \<open>auto dest: set_zip_leftD\<close>)
    with labels show ?thesis by (simp add: second_expected_def)
  qed
qed

text \<open>What the planner has when it plans a federated shape.\<close>

definition federated_question :: "definitions \<Rightarrow> resolution \<Rightarrow> measure \<Rightarrow> bool" where
  "federated_question d r q \<longleftrightarrow> hops_ok d r
     \<and> lk_shapes (lookups_of r) \<noteq> [] \<and> length (lk_shapes (lookups_of r)) \<le> 8
     \<and> (\<forall>k \<in> set (res_keys r). \<exists>h. well_named h (dim_name (rd_dimension k)))
     \<and> model_name (res_model r) = met_model (res_metric r)
     \<and> measure_ok (defs_models d) (res_metric r) (res_model r) q
     \<and> (is_cross_model (res_metric r) q \<longrightarrow>
          res_cross r \<noteq> None \<and> (\<forall>k \<in> set (every_dimension r). index_of (lookups_of r) k \<noteq> None))"

lemma federated_questionD:
  assumes "federated_question d r q"
  shows "hops_ok d r" and "lk_shapes (lookups_of r) \<noteq> []" and "length (lk_shapes (lookups_of r)) \<le> 8"
    and "k \<in> set (res_keys r) \<Longrightarrow> \<exists>h. well_named h (dim_name (rd_dimension k))"
    and "model_name (res_model r) = met_model (res_metric r)"
    and "measure_ok (defs_models d) (res_metric r) (res_model r) q"
    and "is_cross_model (res_metric r) q \<Longrightarrow>
      res_cross r \<noteq> None \<and> (\<forall>k \<in> set (every_dimension r). index_of (lookups_of r) k \<noteq> None)"
  using assms unfolding federated_question_def by blast+

abbreviation shapes_of :: "resolution \<Rightarrow> lookup_shape list" where
  "shapes_of r \<equiv> lk_shapes (lookups_of r)"

abbreviation parts_of :: "resolution \<Rightarrow> nat \<Rightarrow> nat" where
  "parts_of r \<equiv> shape_parts (shapes_of r)"

abbreviation fed_of :: "resolution \<Rightarrow> measure \<Rightarrow> federation" where
  "fed_of r q \<equiv> federation_of_metric q (model_name (res_model r))"

lemma dims_unmarked:
  assumes fq: "federated_question d r q" and "l \<in> (\<lambda>k. dim_name (rd_dimension k)) ` {k \<in> set (res_keys r). P k}"
  shows "\<not> marked i l"
  using assms(2) federated_questionD(4) [OF fq] named_not_marked by blast

lemma leaf_unmarked: "(leaf, l) \<in> set (zip (fed_carried (fed_of r q)) (fed_labels (fed_of r q))) \<Longrightarrow> \<not> marked i (internal_text l)"
  using leaf_not_marked by (auto simp: fed_labels_def simp del: internal_text.simps dest!: set_zip_rightD)

lemma second_not_pulled:
  assumes fq: "federated_question d r q" and "leaf \<in> set (fed_carried (fed_of r q))" and "carried_model leaf \<noteq> None" and "j \<in> set (fed_carried (fed_of r q))"
  shows "\<not> is_pulled_up j" and "is_cross_model (res_metric r) q"
  using cross_not_pulled [OF federated_questionD(6) [OF fq]] assms(2-) unfolding federated_questionD(5) [OF fq] by blast+

lemma legs_lookup_ok:
  assumes fq: "federated_question d r q" and legs: "lookup_legs of_one r (lookups_of r) = Inr legs" and base: "is_LegFact base"
    and source: "lp_source base = model_source (res_model r)"
    and labels: "set (lp_key_labels base) = links_in (joined_at (shapes_of r) None) (parts_of r) \<union> others"
    and others: "\<forall>l \<in> others. \<forall>i. \<not> marked i l" and i: "i < length legs"
  shows "lookup_ok base legs i (legs ! i)" and "link_parts (ll_leg (legs ! i)) i = (parts_of r) i"
proof -
  note len = lookup_legs_at(1) [OF legs]
  note leg = lookup_legs_at(2) [OF legs]
  from i len have i': "i < length (shapes_of r)" by simp
  note facts = plan_lookup_leg_facts [OF leg [OF i']]
  note own = lookup_leg_labels(1) [OF leg [OF i'] refl]
  have unmarked: "\<forall>l \<in> (\<lambda>k. dim_name (rd_dimension k)) ` {k \<in> set (res_keys r). P k}. \<not> marked j l" for P j
    using dims_unmarked [OF fq] by blast
  show parts: "link_parts (ll_leg (legs ! i)) i = (parts_of r) i"
    by (rule links_parts [OF own unmarked]) (simp_all add: lookup_leg_labels(2) [OF leg [OF i'] refl])
  have self: "link_side_ok i ((parts_of r) i) (ll_leg (legs ! i))" by (rule links_side_ok [OF own unmarked]) simp
  have max: "max ((parts_of r) i) 1 = (parts_of r) i" using shape_parts_pos [of "shapes_of r" i] by simp
  note cross = shape_crossing(3) [OF federated_questionD(1) [OF fq] i']
  have "\<exists>onto. leg_standing_at base legs (ll_onto (legs ! i)) = Some onto
      \<and> lp_source onto \<noteq> lp_source (ll_leg (legs ! i)) \<and> link_side_ok i ((parts_of r) i) onto"
  proof (cases "ls_parent ((shapes_of r) ! i)")
    case None
    have "link_side_ok i ((parts_of r) i) base" by (rule links_side_ok [OF labels]) (use None i' others in \<open>auto simp: joined_at_def\<close>)
    with None facts(2,4) cross source show ?thesis by (intro exI [of _ base]) (simp add: leg_standing_at_def)
  next
    case (Some j)
    with parents_first [of i r] i' have "j < i" by (simp add: shapes_length)
    then have j: "j < length (shapes_of r)" "j < length legs" using i' len by simp_all
    have "link_side_ok i ((parts_of r) i) (ll_leg (legs ! j))"
      by (rule links_side_ok [OF lookup_leg_labels(1) [OF leg [OF j(1)] refl] unmarked])
        (use Some i' in \<open>simp add: joined_at_def\<close>)
    moreover have "lp_source (ll_leg (legs ! j)) = model_source (rj_model (ls_crossing ((shapes_of r) ! j)))"
      using plan_lookup_leg_facts(2) [OF leg [OF j(1)]] .
    ultimately show ?thesis using Some facts(2,4) cross j(2)
      by (intro exI [of _ "ll_leg (legs ! j)"]) (simp add: leg_standing_at_def)
  qed
  with self facts(1) show "lookup_ok base legs i (legs ! i)" unfolding lookup_ok_def parts max by auto
qed

lemma fact_links_joined:
  assumes "length legs = length (shapes_of r)"
    and "\<And>i. i < length legs \<Longrightarrow> link_parts (ll_leg (legs ! i)) i = (parts_of r) i"
    and "\<And>i. i < length legs \<Longrightarrow> ll_onto (legs ! i) = (case ls_parent ((shapes_of r) ! i) of None \<Rightarrow> AtFact | Some j \<Rightarrow> AtLookup j)"
  shows "set (fact_links legs) = links_in (joined_at (shapes_of r) None) (parts_of r)"
proof -
  have "ll_onto (legs ! i) = AtFact \<longleftrightarrow> ls_parent ((shapes_of r) ! i) = None" if "i < length legs" for i
    using assms(3) [OF that] by (cases "ls_parent ((shapes_of r) ! i)") simp_all
  moreover have "set (lookup_links legs i) = link_text i ` {0..<(parts_of r) i}" if "i < length legs" for i
    using that assms(2) by (simp add: lookup_links_def)
  ultimately show ?thesis using assms(1)
    by (auto simp: fact_links_def links_in_def joined_at_def in_set_enumerated) (metis atLeast0LessThan lessThan_iff imageE imageI)+
qed

lemma assembled:
  assumes fq: "federated_question d r q" and terms: "leg_terms (fed_of r q) own second (fact_leg_keys r (lookups_of r) own) = (terms, second_terms, keys)"
    and base: "is_LegFact base" "lp_source base = model_source (res_model r)" "lp_keys base = keys"
      "lp_terms base = terms" "fl_bucket base = bucket" "pb_label bucket = label_bucket"
      "pcol_column (pb_column bucket) = met_time_column (res_metric r)"
    and second: "second_fact_leg of_one r (lookups_of r) bucket second_terms = Inr second_fact"
    and legs: "lookup_legs of_one r (lookups_of r) = Inr legs"
  shows "\<exists>p. federated_plan_new metric l bucket base second_fact legs (fed_of r q) (answer_keys r (lookups_of r)) = Inr p"
proof -
  note len = lookup_legs_at(1) [OF legs]
  note facts = fact_labels [OF terms]
  let ?others = "(\<lambda>k. dim_name (rd_dimension k)) ` {k \<in> set (res_keys r). index_of (lookups_of r) k = None}
    \<union> {internal_text l | l leaf. (leaf, l) \<in> set (zip (fed_carried (fed_of r q)) (fed_labels (fed_of r q))) \<and> is_pulled_up leaf}"
  have labels: "set (lp_key_labels base) = links_in (joined_at (shapes_of r) None) (parts_of r) \<union> ?others"
    using facts(1) by (simp add: leg_labels_keys base(3))
  have unmarked: "\<forall>l \<in> ?others. \<forall>i. \<not> marked i l" using dims_unmarked [OF fq] leaf_unmarked by blast
  note lookups = legs_lookup_ok [OF fq legs base(1,2) labels unmarked]
  have onto: "ll_onto (legs ! i) = (case ls_parent ((shapes_of r) ! i) of None \<Rightarrow> AtFact | Some j \<Rightarrow> AtLookup j)"
    if "i < length legs" for i
    using plan_lookup_leg_facts(4) [OF lookup_legs_at(2) [OF legs]] that len by simp
  have links: "set (fact_links legs) = links_in (joined_at (shapes_of r) None) (parts_of r)"
    by (rule fact_links_joined [OF len lookups(2) onto])
  have first_parent: "0 \<in> joined_at (shapes_of r) None"
  proof -
    have "0 < length (shapes_of r)" using federated_questionD(2) [OF fq] by simp
    with parents_first [of 0 r] show ?thesis
      by (cases "ls_parent ((shapes_of r) ! 0)") (simp_all add: joined_at_def shapes_length)
  qed
  have not_pulled: "\<forall>leaf \<in> set (fed_carried (fed_of r q)). carried_model leaf \<noteq> None \<longrightarrow> \<not> is_pulled_up leaf"
    using second_not_pulled(1) [OF fq] by blast
  have second_labels: "term_labels second_terms = second_expected (fed_of r q)" using facts(3) [OF not_pulled] .
  have second_iff: "second_terms = [] \<longleftrightarrow> second_leaves (fed_of r q) = []"
    using arg_cong [OF second_labels, of length] by (auto simp: term_labels_def second_expected_def)
  have seconds: "second_fact_ok base (fact_links legs) leg \<and> on_the_axis_of (fl_bucket leg) bucket
      \<and> term_labels (lp_terms leg) = second_expected (fed_of r q)"
    if s: "second_fact = Some leg" for leg
  proof -
    note sf = second_fact_leg_facts [OF second [unfolded s]]
    have "second_terms \<noteq> []" using second [unfolded s] by (auto simp: second_fact_leg_def)
    then obtain leaf l where leaf: "(leaf, l) \<in> set (second_leaves (fed_of r q))" using second_iff by (cases "second_leaves (fed_of r q)") auto
    then have carried: "leaf \<in> set (fed_carried (fed_of r q))" "carried_model leaf \<noteq> None"
      by (auto simp: second_leaves_def dest: set_zip_leftD)
    note cross = second_not_pulled [OF fq carried]
    have "{k \<in> set (res_keys r). index_of (lookups_of r) k = None} = {}"
      using federated_questionD(7) [OF fq cross(2) [OF carried(1)]] every_dimension_mem(1) by blast
    moreover have "{internal_text l | l leaf. (leaf, l) \<in> set (zip (fed_carried (fed_of r q)) (fed_labels (fed_of r q))) \<and> is_pulled_up leaf} = {}"
      using cross(1) by (auto dest: set_zip_leftD)
    ultimately have "set (lp_key_labels base) = links_in (joined_at (shapes_of r) None) (parts_of r)"
      unfolding labels by (simp only: image_empty Un_empty_right)
    moreover have "link_text 0 0 \<in> links_in (joined_at (shapes_of r) None) (parts_of r)"
      using first_parent shape_parts_pos by (simp add: link_in_links)
    ultimately have "second_fact_ok base (fact_links legs) leg"
      using sf(1,4) links by (auto simp: second_fact_ok_def)
    moreover have "on_the_axis_of (fl_bucket leg) bucket"
      using sf(3) base(6,7) by (simp add: on_the_axis_of_def own_column_def)
    ultimately show ?thesis using sf(2) second_labels by simp
  qed
  have "second_fact = None \<longrightarrow> second_leaves (fed_of r q) = []" using second_fact_leg_None second second_iff by blast
  moreover have "\<forall>(leaf, l) \<in> set (second_leaves (fed_of r q)). \<not> is_pulled_up leaf"
    using not_pulled by (auto simp: second_leaves_def dest: set_zip_leftD)
  moreover have "\<forall>(leaf, l) \<in> set (first_leaves (fed_of r q)). is_pulled_up leaf \<longrightarrow> internal_text l \<in> set (lp_key_labels base)"
    unfolding labels by (auto simp: first_leaves_def)
  ultimately have "terms_ok base second_fact bucket (fed_of r q)"
    using facts(2) base(4) seconds by (auto simp: terms_ok_def second_fact_ok_def)
  moreover have "answer_key_ok base legs k" if "k \<in> set (answer_keys r (lookups_of r))" for k
  proof -
    from that obtain x where x: "x \<in> set (res_keys r)"
      and k: "k = \<lparr>ak_side = (case index_of (lookups_of r) x of None \<Rightarrow> AtFact | Some leg \<Rightarrow> AtLookup leg),
         ak_label = label_dimension (dim_name (rd_dimension x))\<rparr>" by (auto simp: answer_keys_def)
    show ?thesis
    proof (cases "index_of (lookups_of r) x")
      case None
      then have "dim_name (rd_dimension x) \<in> set (lp_key_labels base)" unfolding labels using x by blast
      with None show ?thesis by (simp add: answer_key_ok_def k leg_standing_at_def label_dimension_def)
    next
      case (Some i)
      then have i: "i < length (shapes_of r)"
        by (auto simp: index_of_eq position_eq_Some shapes_length split: if_splits)
      have "dim_name (rd_dimension x) \<in> set (lp_key_labels (ll_leg (legs ! i)))"
        unfolding lookup_leg_labels(1) [OF lookup_legs_at(2) [OF legs i] refl] using x Some by blast
      with Some i len show ?thesis by (simp add: answer_key_ok_def k leg_standing_at_def label_dimension_def)
    qed
  qed
  ultimately show ?thesis
    using base lookups(1) seconds by (intro exI iffD2 [OF federated_plan_new_ok] conjI refl) (auto simp: federated_ok_def)
qed

lemma second_terms_cross:
  assumes fq: "federated_question d r q" and t: "leg_terms (fed_of r q) own second (fact_leg_keys r (lookups_of r) own) = (terms, second_terms, keys)"
  shows "res_cross r \<noteq> None \<or> second_terms = []"
proof (cases "second_leaves (fed_of r q)")
  case Nil
  then show ?thesis using fact_labels(3) [OF t] second_not_pulled(1) [OF fq]
    by (simp add: term_labels_def second_expected_def)
next
  case (Cons p ps)
  then have "fst p \<in> set (fed_carried (fed_of r q))" "carried_model (fst p) \<noteq> None"
    using list.set_intros(1) [of p ps] by (auto simp: second_leaves_def simp flip: Cons dest: set_zip_leftD)
  then show ?thesis using second_not_pulled(2) [OF fq] federated_questionD(7) [OF fq] by blast
qed

lemma federated_graceful:
  fixes of_one :: "metric \<Rightarrow> 'd + string"
  assumes fq: "federated_question d r q" and "2 + required_count (res_metric r) + requested_count (res_filters r) \<le> usize_max"
  shows "gracefully (federated_plan_of of_one r q (lookups_of r) attach)"
proof -
  have requested: "requested_count (res_filters r) \<le> usize_max" using assms(2) by simp
  have bindings: "\<exists>b. predicates_and_params r (filter P (res_filters r)) t c = Inr b" for P t c
    using predicates_and_params_total [of r "filter P (res_filters r)" t c] assms(2) requested_count_filter [of P "res_filters r"]
    by (metis add_le_cancel_left le_trans)
  have crossings: "gracefully (each_ok crossing_declared xs :: 'd plan_error + unit)" for xs :: "(nat \<times> lookup_shape) list"
    by (rule gracefully_each_ok) (auto simp: crossing_declared_def link_types_agree_def Let_def link_part_agrees_def
        intro!: gracefully_each_ok split: option.splits)
  obtain first rest where first: "(shapes_of r) = first # rest" using federated_questionD(2) [OF fq] by (cases "shapes_of r") auto
  let ?time_table = "case res_cross r of None \<Rightarrow> model_table_name (res_model r) | Some cross \<Rightarrow> model_table_name (cm_calendar cross)"
  let ?second_table = "case res_cross r of None \<Rightarrow> model_table_name (res_model r) | Some cross \<Rightarrow> model_table_name (cm_second cross)"
  let ?bucket = "\<lparr>pb_label = label_bucket, pb_grain = res_grain r, pb_column = own_column ?time_table (met_time_column (res_metric r))\<rparr>"
  obtain terms second_terms keys where t: "leg_terms (fed_of r q) (model_table_name (res_model r)) ?second_table
      (fact_leg_keys r (lookups_of r) (model_table_name (res_model r))) = (terms, second_terms, keys)" by (metis prod_cases3)
  have seconds: "gracefully (second_fact_leg of_one r (lookups_of r) ?bucket second_terms)"
    by (rule second_fact_leg_graceful) (use second_terms_cross [OF fq t] in blast)
  have plan: "gracefully (map_err NotAssembled (federated_plan_new metric l ?bucket
      (LegFact (model_source (res_model r)) digest' tables ?bucket keys terms bindings (res_range r)) second_fact legs (fed_of r q) (answer_keys r (lookups_of r))) :: 'd plan_error + _)"
    if "second_fact_leg of_one r (lookups_of r) ?bucket second_terms = Inr second_fact" "lookup_legs of_one r (lookups_of r) = Inr legs"
    for metric l digest' tables bindings second_fact legs
  proof -
    have "\<exists>p. federated_plan_new metric l ?bucket (LegFact (model_source (res_model r)) digest' tables ?bucket keys terms bindings
        (res_range r)) second_fact legs (fed_of r q) (answer_keys r (lookups_of r)) = Inr p"
      by (rule assembled [OF fq t _ _ _ _ _ _ _ that]) (simp_all add: own_column_def)
    then show ?thesis by auto
  qed
  show ?thesis
    unfolding federated_plan_of_def Let_def first list.case t split
    using bindings crossings seconds plan lookup_legs_graceful [OF requested federated_questionD(2,3) [OF fq]]
    by (auto intro!: gracefully_bind gracefully_bound simp flip: first)
qed

end
