(* ===== verification/Planning.thy ===== *)
theory Planning
  imports Assembled
begin

text \<open>
  Planning as a whole: a question resolved against an assembled catalog is planned, or refused with a
  reason the question can be told. The planner's own errors (bindings that do not cohere, legs that do
  not assemble, arms that do not stack) are never returned, whatever the catalog, the question and the
  ceilings.
\<close>

section \<open>A resolution of a question\<close>

definition planned_from :: "definitions \<Rightarrow> query \<Rightarrow> resolution \<Rightarrow> bool" where
  "planned_from d q r \<longleftrightarrow> resolution_linked d r \<and> res_metric r \<in> set (res_metrics r)
     \<and> metric_ok (defs_models d) (defs_relationships d) (res_metric r)
     \<and> bt_get (defs_models d) (met_model (res_metric r)) = Some (res_model r)
     \<and> model_name (res_model r) = met_model (res_metric r)
     \<and> resolve_cross_model (res_metric r) d = Inr (res_cross r)
     \<and> res_grain r = q_grain q \<and> res_range r = q_range q \<and> res_top r = q_top q
     \<and> map (\<lambda>k. dim_name (rd_dimension k)) (res_keys r) = q_dimensions q"

lemma planned_fromD:
  assumes "planned_from d q r"
  shows "resolution_linked d r" and "hops_ok d r" and "res_metric r \<in> set (res_metrics r)"
    and "metric_ok (defs_models d) (defs_relationships d) (res_metric r)"
    and "bt_get (defs_models d) (met_model (res_metric r)) = Some (res_model r)"
    and "model_name (res_model r) = met_model (res_metric r)"
    and "resolve_cross_model (res_metric r) d = Inr (res_cross r)"
    and "res_grain r = q_grain q" and "res_range r = q_range q" and "res_top r = q_top q"
    and "map (\<lambda>k. dim_name (rd_dimension k)) (res_keys r) = q_dimensions q"
  using assms resolution_linked_hops unfolding planned_from_def by blast+

lemma dimension_named: "metric_inv x \<Longrightarrow> met_dimension x n = Some b \<Longrightarrow> dim_name b = n"
  by (auto simp: metric_inv_def dimensions_inv_def met_dimension_def dest!: map_of_SomeD)

lemma resolution_planned_from:
  assumes "definitions_ok d" and "resolution_ok q d x ms r" and "resolution_linked d r" and "x \<in> set ms"
    and "metric_ok (defs_models d) (defs_relationships d) x" and "metric_inv x"
  shows "planned_from d q r"
proof -
  note ok = assms(2) [unfolded resolution_ok_def]
  have "map (\<lambda>k. Some (rd_dimension k)) (res_keys r) = map (met_dimension x) (q_dimensions q)"
    using ok by (auto simp: reached_def names_of_def append_eq_append_conv)
  then have "list_all2 (\<lambda>k n. met_dimension x n = Some (rd_dimension k)) (res_keys r) (q_dimensions q)"
    by (simp add: list_all2_conv_all_nth list_eq_iff_nth_eq)
  then have "map (\<lambda>k. dim_name (rd_dimension k)) (res_keys r) = q_dimensions q"
    by (rule list_all2_mono [THEN list_all2_map_eq, of _ _ _ "\<lambda>k n. dim_name (rd_dimension k) = n" _ "\<lambda>n. n", simplified])
      (use dimension_named [OF assms(6)] in auto)
  with ok assms definitions_okD(1) [OF assms(1), of "met_model x" "res_model r"] show ?thesis by (auto simp: planned_from_def)
qed

section \<open>What is checked first\<close>

lemma cross_model_term_None:
  assumes "cross_model_term r = None" and "x \<in> set (res_metrics r)" and "met_measure x = Some q"
  shows "\<not> is_cross_model x q"
proof
  assume "is_cross_model x q"
  then obtain n where "n \<in> set (List.map_filter id (measure_models q))" "n \<noteq> met_model x"
    by (fastforce simp: is_cross_model_def list_ex_iff set_map_filter)
  from find_Some_exists [OF this(1), of "\<lambda>n. n \<noteq> met_model x", OF this(2)] obtain n'
    where "List.find (\<lambda>n. n \<noteq> met_model x) (List.map_filter id (measure_models q)) = Some n'" by blast
  with assms(2,3) have "(x, n') \<in> set (List.map_filter (\<lambda>m. map_option (\<lambda>n. (m, n))
          (Option.bind (met_measure m) (\<lambda>q. List.find (\<lambda>n. n \<noteq> met_model m) (List.map_filter id (measure_models q))))) (res_metrics r))"
    by (auto simp: set_map_filter)
  with assms(1) show False by (auto simp: cross_model_term_def split: list.splits)
qed

lemma cross_model_term_Some:
  assumes "cross_model_term r = Some (m, n)" and "res_metrics r = [x]"
  shows "m = x \<and> second_model x = Some n"
  using assms by (cases "met_measure x") (auto simp: cross_model_term_def second_model_def map_filter_def split: list.splits if_splits)

definition single_or_own :: "resolution \<Rightarrow> bool" where
  "single_or_own r \<longleftrightarrow> res_metrics r = [res_metric r] \<or> cross_model_term r = None"

lemma prechecked_outcome:
  assumes "planned_from d q r" and "single_or_own r"
  shows "case (prechecked r :: 'd plan_error + _) of
      Inl e \<Rightarrow> graceful e
    | Inr (formula, lks) \<Rightarrow> met_measure (res_metric r) = Some formula \<and> lks = lookups_of r
        \<and> measure_ok (defs_models d) (res_metric r) (res_model r) formula
        \<and> (is_cross_model (res_metric r) formula \<longrightarrow> lk_shapes (lookups_of r) \<noteq> [] \<and> res_cross r \<noteq> None
             \<and> (\<forall>k \<in> set (every_dimension r). index_of (lookups_of r) k \<noteq> None))"
proof (cases "met_measure (res_metric r)")
  case None
  then show ?thesis by (simp add: prechecked_def)
next
  case (Some formula)
  note pf = planned_fromD [OF assms(1)]
  have measured: "measure_ok (defs_models d) (res_metric r) (res_model r) formula"
    using pf(4,5) Some by (auto simp: metric_ok_def)
  show ?thesis
  proof (cases "cross_model_term r")
    case None
    with cross_model_term_None [OF None pf(3) Some] Some measured show ?thesis by (simp add: prechecked_def)
  next
    case (Some p)
    obtain m n where p: "p = (m, n)" by (cases p)
    with Some assms(2) have single: "res_metrics r = [res_metric r]" by (simp add: single_or_own_def)
    from cross_model_term_Some [OF Some [unfolded p] single] have m: "m = res_metric r" "second_model (res_metric r) = Some n"
      by simp_all
    have "res_cross r \<noteq> None" if "met_shared_calendars (res_metric r) \<noteq> None"
      using pf(7) m(2) that by (cases "res_cross r") (auto simp: resolve_cross_model_def res_simps)
    with Some p m \<open>met_measure (res_metric r) = Some formula\<close> measured show ?thesis
      by (auto simp: prechecked_def Let_def list_ex_iff)
  qed
qed

section \<open>Each shape\<close>

definition fits_bindings :: "resolution \<Rightarrow> bool" where
  "fits_bindings r \<longleftrightarrow> 2 + required_count (res_metric r) + all_required (res_metrics r) + requested_count (res_filters r) \<le> usize_max"

lemma mono_plan_graceful:
  assumes "planned_from d q r" and "\<forall>m \<in> set (res_metrics r). met_measure m \<noteq> None" and "fits_bindings r"
    and "lk_shapes (lookups_of r) = []"
  shows "gracefully (mono_plan r formula)"
proof (cases "planned_tables (model_table (res_model r)) (chain_joins r (own_name r)) :: 'a plan_error + _")
  case (Inl e)
  then have "graceful e" by (metis gracefully_tables gracefully_def)
  with Inl show ?thesis by (simp add: mono_plan_def own_name_def)
next
  case (Inr tables)
  have "res_metrics r \<noteq> []" using planned_fromD(3) [OF assms(1)] by auto
  moreover have "bound_values r \<le> usize_max" using assms(3) by (auto simp: bound_values_def fits_bindings_def)
  ultimately obtain p where "(mono_plan r formula :: 'a plan_error + _) = Inr p"
    using mono_plan_cases [OF _ assms(2) _ planned_fromD(2) [OF assms(1)] assms(4) Inr] by blast
  then show ?thesis by simp
qed

lemma federated_shape_graceful:
  assumes "planned_from d q r" and "single_or_own r" and "fits_bindings r"
    and "\<forall>n \<in> set (q_dimensions q). \<exists>h. well_named h n"
    and "(prechecked r :: 'd plan_error + _) = Inr (formula, lks)" and "lk_shapes lks \<noteq> []" and "length (lk_shapes lks) \<le> 8"
  shows "lks = lookups_of r" and "gracefully (federated_plan_of (of_one :: metric \<Rightarrow> 'd + string) r formula lks attach)"
proof -
  note pre = prechecked_outcome [OF assms(1,2), where 'd = 'd, unfolded assms(5), simplified]
  show lks: "lks = lookups_of r" using pre by simp
  note pf = planned_fromD [OF assms(1)]
  have "\<exists>h. well_named h (dim_name (rd_dimension k))" if "k \<in> set (res_keys r)" for k
    using assms(4) imageI [OF that, of "\<lambda>k. dim_name (rd_dimension k)"] pf(11) by (metis set_map)
  with pre pf assms(6,7) have "federated_question d r formula" by (auto simp: federated_question_def lks)
  from federated_graceful [OF this, where of_one = of_one and attach = attach] assms(3) show "gracefully (federated_plan_of of_one r formula lks attach)"
    by (simp add: lks fits_bindings_def)
qed

section \<open>Arms\<close>

text \<open>What an arm of a question is, whatever its shape.\<close>

definition arm_fits :: "query \<Rightarrow> name \<Rightarrow> arm \<Rightarrow> bool" where
  "arm_fits q n a \<longleftrightarrow> arm_metric a = n \<and> arm_top a = None \<and> arm_keys a = q_dimensions q
     \<and> pb_label (arm_bucket a) = label_bucket \<and> pb_grain (arm_bucket a) = q_grain q
     \<and> arm_ranges a \<noteq> [] \<and> set (arm_ranges a) = {q_range q}"

lemma local_arm_new_ok:
  assumes "leg_terms f own second ks = (terms, second_terms, ks @ keys)"
    and "\<forall>leaf \<in> set (fed_carried f). carried_model leaf = None"
    and "map key_label ks = map label_str labels" and "map key_label keys = map (\<lambda>(_, l). internal_text l)
      (filter (\<lambda>(leaf, _). is_pulled_up leaf) (zip (fed_carried f) (fed_labels f)))"
    and "term_labels terms = first_expected f"
  shows "\<exists>a. local_arm_new (LegFact source digest' tables bucket (ks @ keys) terms bindings rng) f labels = Inr a
    \<and> la_metric a = md_metric digest' \<and> la_bucket a = bucket \<and> la_keys a = labels
    \<and> la_fact a = LegFact source digest' tables bucket (ks @ keys) terms bindings rng"
proof -
  have zip: "filter (\<lambda>(leaf, _). \<not> is_pulled_up leaf) (zip (fed_carried f) (fed_labels f))
      = filter (\<lambda>(leaf, _). \<not> is_pulled_up leaf) (first_leaves f)"
    unfolding first_leaves_def filter_filter by (rule filter_cong) (use assms(2) in \<open>auto dest: set_zip_leftD\<close>)
  let ?leg = "LegFact source digest' tables bucket (ks @ keys) terms bindings rng"
  have "lp_key_labels ?leg = map label_str labels @ map (\<lambda>(_, l). internal_text l)
      (filter (\<lambda>(leaf, _). is_pulled_up leaf) (zip (fed_carried f) (fed_labels f)))"
    using assms(3,4) by (simp add: leg_labels_keys)
  then have "List.find (\<lambda>l. \<not> leg_has_key ?leg l) (map (\<lambda>(_, l). internal_text l)
      (filter (\<lambda>(leaf, _). is_pulled_up leaf) (zip (fed_carried f) (fed_labels f))) @ map label_str labels) = None"
    unfolding find_None_all leg_has_key_def by auto
  then show ?thesis
    using assms(2,5) zip by (simp add: local_arm_new_def Let_def first_expected_def list_ex_iff)
qed

lemma leg_terms_keys: "leg_terms f own second ks = (terms, second_terms, all) \<Longrightarrow>
    \<exists>keys. all = ks @ keys \<and> leg_terms_of own second (zip (fed_carried f) (fed_labels f)) = (terms, second_terms, keys)"
  by (auto simp: leg_terms_def split: prod.splits)

lemma local_shape:
  assumes "planned_from d q r" and "fits_bindings r" and "measure_ok (defs_models d) (res_metric r) (res_model r) formula"
    and "\<not> is_cross_model (res_metric r) formula"
  shows "gracefully (local_arm_of (of_one :: metric \<Rightarrow> 'd + string) r formula)"
    and "local_arm_of of_one r formula = Inr a \<Longrightarrow> arm_fits q (met_name (res_metric r)) (ArmLocal a)"
proof -
  note pf = planned_fromD [OF assms(1)]
  let ?own = "model_table_name (res_model r)" and ?f = "federation_of_metric formula (model_name (res_model r))"
  let ?c = "own_column ?own (met_time_column (res_metric r))"
  let ?labels = "map (\<lambda>key. label_dimension (dim_name (rd_dimension key))) (res_keys r)"
  let ?ks = "map (\<lambda>(key, l). plan_key_new l (column_of key ?own)) (zip (res_keys r) ?labels)"
  let ?bucket = "\<lparr>pb_label = label_bucket, pb_grain = res_grain r, pb_column = ?c\<rparr>"
  obtain terms seconds all where t: "leg_terms ?f ?own ?own ?ks = (terms, seconds, all)" by (metis prod_cases3)
  then obtain keys where keys: "all = ?ks @ keys"
    and of: "leg_terms_of ?own ?own (zip (fed_carried ?f) (fed_labels ?f)) = (terms, seconds, keys)"
    using leg_terms_keys by blast
  note labels = leg_terms_of_labels [OF of]
  have none: "\<forall>leaf \<in> set (fed_carried ?f). carried_model leaf = None"
    using cross_not_pulled(2) [OF assms(3)] assms(4) unfolding pf(6) by blast
  have named: "map key_label ?ks = map label_str ?labels" by (rule nth_equalityI) simp_all
  have expected: "term_labels terms = first_expected ?f"
    using labels [THEN conjunct1] unfolding first_expected_def first_leaves_def filter_filter
    by (simp add: split_def conj_commute)
  have new: "\<exists>a. local_arm_new (LegFact source digest' tables ?bucket all terms bindings (res_range r)) ?f ?labels = Inr a
    \<and> la_metric a = md_metric digest' \<and> la_bucket a = ?bucket \<and> la_keys a = ?labels
    \<and> la_fact a = LegFact source digest' tables ?bucket all terms bindings (res_range r)" for source digest' tables bindings
    unfolding keys by (rule local_arm_new_ok [OF t [unfolded keys] none named _ expected]) (use labels in simp)
  have bindings: "\<exists>b. predicates_and_params r (res_filters r) ?own ?c = Inr b"
    using predicates_and_params_total [of r "res_filters r" ?own ?c] assms(2)
    by (auto simp: fits_bindings_def)
  show "gracefully (local_arm_of of_one r formula)"
    unfolding local_arm_of_def Let_def t split
  proof (intro gracefully_bind gracefully_tables gracefully_digest gracefully_bound bindings)
    fix tables digest' b
    obtain a where "local_arm_new (LegFact (model_source (res_model r)) digest' tables ?bucket all terms b (res_range r)) ?f ?labels = Inr a"
      using new by blast
    then show "gracefully (map_err NotAssembledAcross (local_arm_new
        (LegFact (model_source (res_model r)) digest' tables ?bucket all terms b (res_range r)) ?f ?labels) :: 'd plan_error + _)"
      by simp
  qed
  assume "local_arm_of of_one r formula = Inr a"
  then obtain digest' tables b where dg: "digest of_one (res_metric r) = Inr digest'"
    and a: "local_arm_new (LegFact (model_source (res_model r)) digest' tables ?bucket all terms b (res_range r)) ?f ?labels = Inr a"
    unfolding local_arm_of_def Let_def t split by (auto simp: res_simps)
  from dg have md: "md_metric digest' = met_name (res_metric r)" by (auto simp: digest_def map_res_eq_Inr)
  from new [of "model_source (res_model r)" digest' tables b] a have
    "la_metric a = md_metric digest' \<and> la_bucket a = ?bucket \<and> la_keys a = ?labels
    \<and> la_fact a = LegFact (model_source (res_model r)) digest' tables ?bucket all terms b (res_range r)" by auto
  with md pf show "arm_fits q (met_name (res_metric r)) (ArmLocal a)"
    by (simp add: arm_fits_def arm_ranges_def comp_def label_dimension_def)
qed

lemma joined_shape:
  assumes "planned_from d q r" and "federated_plan_of (of_one :: metric \<Rightarrow> 'd + string) r formula lks False = Inr p"
  shows "arm_fits q (met_name (res_metric r)) (ArmJoined p)"
proof -
  note pf = planned_fromD [OF assms(1)]
  let ?t = "case res_cross r of None \<Rightarrow> model_table_name (res_model r) | Some cross \<Rightarrow> model_table_name (cm_calendar cross)"
  let ?bucket = "\<lparr>pb_label = label_bucket, pb_grain = res_grain r, pb_column = own_column ?t (met_time_column (res_metric r))\<rparr>"
  obtain first rest where first: "lk_shapes lks = first # rest"
    using assms(2) by (cases "lk_shapes lks") (auto simp: federated_plan_of_def Let_def)
  obtain terms seconds keys where t: "leg_terms (federation_of_metric formula (model_name (res_model r))) (model_table_name (res_model r))
      (case res_cross r of None \<Rightarrow> model_table_name (res_model r) | Some cross \<Rightarrow> model_table_name (cm_second cross))
      (fact_leg_keys r lks (model_table_name (res_model r))) = (terms, seconds, keys)" by (metis prod_cases3)
  from assms(2) obtain p' digest' tables b second legs where
    new: "federated_plan_new (met_name (res_metric r)) (label_measure (met_name (res_metric r))) ?bucket
        (LegFact (model_source (res_model r)) digest' tables ?bucket keys terms b (res_range r)) second legs
        (federation_of_metric formula (model_name (res_model r))) (answer_keys r lks) = Inr p'"
    and second: "second_fact_leg of_one r lks ?bucket seconds = Inr second"
    and p: "p = with_link_comparison (rel_comparison (rj_relationship (ls_crossing first))) p'"
    unfolding federated_plan_of_def Let_def first list.case t split by (auto simp: res_simps simp flip: first)
  note ok = iffD1 [OF federated_plan_new_ok new]
  have "\<not> is_LegFact (ll_leg l)" if "l \<in> set legs" for l
    using ok that by (auto simp: federated_ok_def lookup_ok_def in_set_conv_nth)
  then have lookups: "filter is_LegFact (map ll_leg legs) = []" by (auto simp: filter_empty_conv)
  have "map fl_range (filter is_LegFact (fed_legs p)) = res_range r # (case second of None \<Rightarrow> [] | Some s \<Rightarrow> [res_range r])"
    using second_fact_leg_range [of of_one r lks ?bucket seconds] second lookups ok
    by (cases second) (simp_all add: p with_link_comparison_def fed_legs_def)
  moreover have "map (\<lambda>k. label_str (ak_label k)) (answer_keys r lks) = q_dimensions q"
    using pf(11) by (simp add: answer_keys_def comp_def label_dimension_def)
  ultimately show ?thesis
    using pf ok by (auto simp: arm_fits_def arm_ranges_def p with_link_comparison_def split: option.splits)
qed

lemma plan_arm_outcome:
  assumes "planned_from d q r" and "single_or_own r" and "fits_bindings r"
    and "\<forall>n \<in> set (q_dimensions q). \<exists>h. well_named h n" and "pc_lookup_legs ceilings \<le> 8"
  shows "case plan_arm (of_one :: metric \<Rightarrow> 'd + string) ceilings r of
      Inl e \<Rightarrow> graceful e | Inr a \<Rightarrow> arm_fits q (met_name (res_metric r)) a"
proof (cases "prechecked r :: 'd plan_error + _")
  case (Inl e)
  with prechecked_outcome [OF assms(1,2), where 'd = 'd] show ?thesis by (simp add: plan_arm_def)
next
  case (Inr p)
  obtain formula lks where p: "p = (formula, lks)" by (cases p)
  note pre = prechecked_outcome [OF assms(1,2), where 'd = 'd, unfolded Inr p, simplified]
  show ?thesis
  proof (cases "lk_shapes lks = []")
    case True
    with pre have "\<not> is_cross_model (res_metric r) formula" by auto
    with pre local_shape [OF assms(1,3), of formula of_one] True show ?thesis
      by (cases "local_arm_of of_one r formula") (simp_all add: plan_arm_def Inr p gracefully_def)
  next
    case False
    show ?thesis
    proof (cases "length (lk_shapes lks) > pc_lookup_legs ceilings")
      case True
      with False show ?thesis by (simp add: plan_arm_def Inr p too_many_lookup_legs_def)
    next
      case within: False
      with assms(5) have "length (lk_shapes lks) \<le> 8" by simp
      from federated_shape_graceful(2) [OF assms(1-4) Inr [unfolded p] False this, of of_one False]
        joined_shape [OF assms(1), of of_one formula lks] False within show ?thesis
        by (cases "federated_plan_of of_one r formula lks False") (simp_all add: plan_arm_def Inr p gracefully_def)
    qed
  qed
qed

section \<open>The whole plan\<close>

lemma drill_across_accepted:
  assumes "\<forall>(n, a) \<in> set (zip ns (first # second # rest)). arm_fits q n a" and "length ns = length (first # second # rest)"
    and "distinct ns" and "sum_list (map (\<lambda>a. length (arm_plan_legs a)) (first # second # rest)) \<le> 16"
  shows "drill_across_new first second rest = Inr \<lparr>dp_arms = NonEmpty first (second # rest), dp_top = None\<rparr>"
proof -
  let ?every = "first # second # rest"
  have fit: "arm_fits q (ns ! i) (?every ! i)" if "i < length ?every" for i
  proof -
    have "(ns ! i, ?every ! i) \<in> set (zip ns ?every)" using that assms(2) by (auto simp: in_set_zip simp del: nth_Cons_Suc)
    with assms(1) show ?thesis by blast
  qed
  have metrics: "map arm_metric ?every = ns"
    by (rule nth_equalityI) (use fit assms(2) in \<open>simp_all add: arm_fits_def nth_map del: list.map\<close>)
  have all: "\<exists>n. arm_fits q n a" if "a \<in> set ?every" for a
    using that fit by (metis in_set_conv_nth)
  obtain n where "arm_fits q n first" using all [of first] by auto
  then have ranges: "arm_ranges first \<noteq> []" "set (arm_ranges first) = {q_range q}" by (simp_all add: arm_fits_def)
  with hd_in_set [OF ranges(1)] have first: "arm_ranges first \<noteq> []" "hd (arm_ranges first) = q_range q" by simp_all
  have "length (drill_legs \<lparr>dp_arms = NonEmpty first (second # rest), dp_top = None\<rparr>) \<le> 16"
    using assms(4) by (simp add: drill_legs_def ne_iter_def length_concat comp_def)
  moreover have "distinct (map arm_metric ?every)" unfolding metrics by (rule assms(3))
  moreover have "arm_top a = None \<and> arm_keys a = arm_keys first
          \<and> pb_label (arm_bucket a) = pb_label (arm_bucket first) \<and> pb_grain (arm_bucket a) = pb_grain (arm_bucket first)
          \<and> (\<forall>r \<in> set (arm_ranges a). arm_ranges first \<noteq> [] \<and> r = hd (arm_ranges first))" if mem: "a \<in> set ?every" for a
  proof -
    obtain m n where "arm_fits q m a" "arm_fits q n first" using all [OF mem] all [of first] by auto
    then show ?thesis using first unfolding arm_fits_def by simp
  qed
  ultimately show ?thesis unfolding drill_across_new_ok by blast
qed

lemma plan_across_graceful:
  fixes of_one :: "metric \<Rightarrow> 'd + string"
  assumes each: "\<forall>r \<in> set (first # second # rest). planned_from d q r \<and> single_or_own r \<and> fits_bindings r"
    and names: "distinct (map (\<lambda>r. met_name (res_metric r)) (first # second # rest))"
    and "\<forall>n \<in> set (q_dimensions q). \<exists>h. well_named h n" and "pc_lookup_legs ceilings \<le> 8" and "pc_legs ceilings \<le> 16"
  shows "gracefully (plan_across of_one ceilings first second rest)"
proof -
  have arm: "case plan_arm of_one ceilings r of Inl e \<Rightarrow> graceful e | Inr a \<Rightarrow> arm_fits q (met_name (res_metric r)) a"
    if "r \<in> set (first # second # rest)" for r
    using each that assms(3,4) by (intro plan_arm_outcome [of d]) auto
  have graceful: "gracefully (plan_arm of_one ceilings r)" if "r \<in> set (first # second # rest)" for r
    using arm [OF that] by (cases "plan_arm of_one ceilings r") (simp_all add: gracefully_def)
  have fits: "arm_fits q (met_name (res_metric r)) a" if "r \<in> set (first # second # rest)" "plan_arm of_one ceilings r = Inr a" for r a
    using arm [OF that(1)] that(2) by simp
  have new: "drill_across_new one two others = Inr \<lparr>dp_arms = NonEmpty one (two # others), dp_top = None\<rparr>"
    if a: "plan_arm of_one ceilings first = Inr one" "plan_arm of_one ceilings second = Inr two"
      "traverse (plan_arm of_one ceilings) rest = Inr others"
      "bounded_legs (sum_list (map (\<lambda>a. length (arm_plan_legs a)) (one # two # others))) (pc_legs ceilings) = (Inr () :: 'd plan_error + unit)"
    for one two others
  proof (rule drill_across_accepted [of "map (\<lambda>r. met_name (res_metric r)) (first # second # rest)" _ _ _ q])
    have l: "list_all2 (\<lambda>r a. plan_arm of_one ceilings r = Inr a) (first # second # rest) (one # two # others)"
      using a(1-3) by (simp add: traverse_eq_Inr)
    then show "length (map (\<lambda>r. met_name (res_metric r)) (first # second # rest)) = length (one # two # others)"
      by (auto dest: list_all2_lengthD)
    have "list_all2 (\<lambda>r a. arm_fits q (met_name (res_metric r)) a) (first # second # rest) (one # two # others)"
      using l by (rule list.rel_mono_strong) (use fits in blast)
    then show "\<forall>(n, a) \<in> set (zip (map (\<lambda>r. met_name (res_metric r)) (first # second # rest)) (one # two # others)). arm_fits q n a"
      by (auto simp: list_all2_iff zip_map1)
    show "distinct (map (\<lambda>r. met_name (res_metric r)) (first # second # rest))" by (rule names)
    show "sum_list (map (\<lambda>a. length (arm_plan_legs a)) (one # two # others)) \<le> 16"
      using a(4) assms(5) by (simp add: bounded_legs_def ensure_eq_Inr)
  qed
  show ?thesis
    unfolding plan_across_def Let_def
    by (intro gracefully_bind gracefully_traverse graceful)
      (use new in \<open>auto simp: bounded_legs_def bounded_sources_def Let_def\<close>)
qed

lemma plan_one_graceful:
  fixes of_one :: "metric \<Rightarrow> 'd + string"
  assumes r: "planned_from d q r" and own: "single_or_own r" and fits: "fits_bindings r"
    and named: "\<forall>n \<in> set (q_dimensions q). \<exists>h. well_named h n" and "pc_lookup_legs ceilings \<le> 8"
  shows "gracefully (plan_one of_one r ceilings)"
proof (cases "\<forall>m \<in> set (res_metrics r). met_measure m \<noteq> None")
  case False
  have "gracefully (each_ok (\<lambda>m. ensure (met_measure m \<noteq> None) (AuthoredSqlNotPlanned (met_name m))) (res_metrics r) :: 'd plan_error + unit)"
    by (rule gracefully_each_ok) simp
  moreover have "each_ok (\<lambda>m. ensure (met_measure m \<noteq> None) (AuthoredSqlNotPlanned (met_name m))) (res_metrics r) \<noteq> (Inr u :: 'd plan_error + unit)" for u
    using False by (auto simp: each_ok_eq_Inr ensure_eq_Inr)
  ultimately show ?thesis unfolding plan_one_def by (intro gracefully_bind) auto
next
  case True
  show ?thesis
  proof (cases "prechecked r :: 'd plan_error + _")
    case (Inl e)
    with prechecked_outcome [OF r own, where 'd = 'd] have "gracefully (prechecked r :: 'd plan_error + _)" by simp
    then show ?thesis unfolding plan_one_def
      by (intro gracefully_bind gracefully_each_ok) (auto simp: Inl)
  next
    case (Inr p)
    obtain formula lks where p: "p = (formula, lks)" by (cases p)
    note pre = prechecked_outcome [OF r own, where 'd = 'd, unfolded Inr p, simplified]
    have checked: "gracefully (each_ok (\<lambda>m. ensure (met_measure m \<noteq> None) (AuthoredSqlNotPlanned (met_name m))) (res_metrics r) :: 'd plan_error + unit)"
      by (rule gracefully_each_ok) simp
    have mono: "gracefully (mono_plan r formula :: 'd plan_error + _)" if "lk_shapes lks = []"
      using mono_plan_graceful [OF r True fits] that pre by simp
    have fed: "gracefully (federated_plan_of of_one r formula lks attach)"
      if "lk_shapes lks \<noteq> []" "length (lk_shapes lks) \<le> pc_lookup_legs ceilings" for attach
      using federated_shape_graceful(2) [OF r own fits named Inr [unfolded p] that(1)] that(2) assms(5) by simp
    show ?thesis
      unfolding plan_one_def Inr p Let_def
      by (rule gracefully_bind [OF checked])
        (use mono fed in \<open>auto simp: too_many_lookup_legs_def bounded_legs_def bounded_sources_def Let_def intro!: gracefully_bind\<close>)
  qed
qed

lemma permitted_names: "permitted q v c ms \<Longrightarrow> definitions_ok (sv_pinned v) \<Longrightarrow> map met_name ms = ne_iter (q_metrics q)"
proof -
  assume p: "permitted q v c ms" and d: "definitions_ok (sv_pinned v)"
  from p have m: "map (view_metric v) (ne_iter (q_metrics q)) = map Some ms" by (simp add: permitted_def)
  then have len: "length (ne_iter (q_metrics q)) = length ms" by (rule map_eq_imp_length_eq)
  show "map met_name ms = ne_iter (q_metrics q)"
  proof (rule nth_equalityI)
    fix i assume "i < length (map met_name ms)"
    then have "view_metric v (ne_iter (q_metrics q) ! i) = Some (ms ! i)" using m len by (metis length_map nth_map)
    then show "map met_name ms ! i = ne_iter (q_metrics q) ! i" using view_metric_ok [OF d] \<open>i < length (map met_name ms)\<close> by auto
  qed (simp add: len)
qed

lemma resolved_planned_from:
  assumes d: "definitions_ok (sv_pinned v)" and inv: "\<forall>x \<in> set (bt_values (defs_metrics (sv_pinned v))). metric_inv x"
    and res: "resolve q v c = Inr res"
  shows "planned_from (sv_pinned v) q (resolved_whole res)"
    and "resolved_per_metric res = [] \<Longrightarrow> single_or_own (resolved_whole res)"
    and "s \<in> set (resolved_per_metric res) \<Longrightarrow> planned_from (sv_pinned v) q s \<and> single_or_own s"
    and "distinct (map (\<lambda>s. met_name (res_metric s)) (resolved_per_metric res))"
    and "length (resolved_per_metric res) \<noteq> 1"
proof -
  from resolve_total [OF d, of q c] res obtain ms where perm: "permitted q v c ms" and ne: "ms \<noteq> []"
    and whole: "resolution_ok q (sv_pinned v) (hd ms) ms (resolved_whole res)"
    and each: "if length ms > 1 then list_all2 (\<lambda>x s. resolution_ok q (sv_pinned v) x [x] s) ms (resolved_per_metric res)
      else resolved_per_metric res = []" by auto
  have ok: "metric_ok (defs_models (sv_pinned v)) (defs_relationships (sv_pinned v)) x \<and> metric_inv x" if "x \<in> set ms" for x
  proof -
    from that perm obtain n where n: "view_metric v n = Some x"
      by (metis (no_types, lifting) ex_map_conv image_eqI list.set_map imageE permitted_def)
    then have "x \<in> set (bt_values (defs_metrics (sv_pinned v)))"
      by (auto simp: view_metric_def split: option.splits if_splits dest: get_in_values)
    with inv view_metric_ok [OF d n] show ?thesis by blast
  qed
  have hd: "hd ms \<in> set ms" using ne by simp
  note linked = resolved_linked [OF d res]
  show "planned_from (sv_pinned v) q (resolved_whole res)"
    using resolution_planned_from [OF d whole linked(1) hd] ok [OF hd] by blast
  show "single_or_own (resolved_whole res)" if "resolved_per_metric res = []"
  proof -
    have "\<not> 1 < length ms" using each that ne by (auto split: if_splits)
    then have "ms = [hd ms]" using ne by (cases ms) auto
    with whole show ?thesis by (simp add: single_or_own_def resolution_ok_def)
  qed
  show "planned_from (sv_pinned v) q s \<and> single_or_own s" if s: "s \<in> set (resolved_per_metric res)"
  proof -
    from each s have "list_all2 (\<lambda>x s. resolution_ok q (sv_pinned v) x [x] s) ms (resolved_per_metric res)" by (auto split: if_splits)
    moreover obtain i where i: "i < length (resolved_per_metric res)" "s = resolved_per_metric res ! i"
      using s by (auto simp: in_set_conv_nth)
    ultimately have "ms ! i \<in> set ms \<and> resolution_ok q (sv_pinned v) (ms ! i) [ms ! i] s"
      by (simp add: list_all2_conv_all_nth)
    then obtain x where x: "x \<in> set ms" "resolution_ok q (sv_pinned v) x [x] s" by blast
    then show ?thesis using resolution_planned_from [OF d x(2) linked(2) [OF s]] ok [OF x(1)]
      by (simp add: single_or_own_def resolution_ok_def)
  qed
  show "distinct (map (\<lambda>s. met_name (res_metric s)) (resolved_per_metric res))"
  proof (cases "1 < length ms")
    case True
    with each have "list_all2 (\<lambda>x s. met_name x = met_name (res_metric s)) ms (resolved_per_metric res)"
      by (auto elim!: list_all2_mono simp: resolution_ok_def)
    then have "map met_name ms = map (\<lambda>s. met_name (res_metric s)) (resolved_per_metric res)"
      by (rule list_all2_map_eq) simp
    with permitted_names [OF perm d] perm show ?thesis by (metis permitted_def)
  qed (use each in simp)
  show "length (resolved_per_metric res) \<noteq> 1"
    using each by (auto split: if_splits dest!: list_all2_lengthD)
qed

section \<open>What is inside the ceilings\<close>

lemma length_bs_of: "length (bs_of xs) = card (set xs)"
  by (metis distinct_bs_of distinct_card set_bs_of)

lemma federated_plan_of_built:
  assumes "federated_plan_of (of_one :: metric \<Rightarrow> 'd + string) r formula lks attach = Inr p"
  shows "federated_ok p" and "length (fp_lookups p) = length (lk_shapes lks)" and "lk_shapes lks \<noteq> []"
    and "fp_top p = (if attach then res_top r else None)"
proof -
  show "lk_shapes lks \<noteq> []" using assms by (auto simp: federated_plan_of_def Let_def)
  then obtain first rest where first: "lk_shapes lks = first # rest" by (cases "lk_shapes lks") auto
  obtain terms seconds keys where t: "leg_terms (federation_of_metric formula (model_name (res_model r))) (model_table_name (res_model r))
      (case res_cross r of None \<Rightarrow> model_table_name (res_model r) | Some cross \<Rightarrow> model_table_name (cm_second cross))
      (fact_leg_keys r lks (model_table_name (res_model r))) = (terms, seconds, keys)" by (metis prod_cases3)
  from assms obtain m l b base second legs f ks p' where
    new: "federated_plan_new m l b base second legs f ks = Inr p'" and legs: "lookup_legs of_one r lks = Inr legs"
    and p: "p = (if \<not> attach then with_link_comparison (rel_comparison (rj_relationship (ls_crossing first))) p'
      else case res_top r of Some t \<Rightarrow> fed_with_top t (with_link_comparison (rel_comparison (rj_relationship (ls_crossing first))) p')
        | None \<Rightarrow> with_link_comparison (rel_comparison (rj_relationship (ls_crossing first))) p')"
    unfolding federated_plan_of_def Let_def first list.case t split by (auto simp: res_simps simp flip: first)
  note ok = iffD1 [OF federated_plan_new_ok new]
  have same: "federated_ok (with_link_comparison k p') = federated_ok p'" "federated_ok (fed_with_top t p') = federated_ok p'" for k t p'
    by (simp_all add: federated_ok_def with_link_comparison_def fed_with_top_def)
  show "federated_ok p" using ok unfolding p by (auto simp: same split: option.splits)
  have "length legs = length (lk_shapes lks)" using lookup_legs_at(1) [OF legs] .
  then show "length (fp_lookups p) = length (lk_shapes lks)"
    using ok unfolding p by (auto simp: with_link_comparison_def fed_with_top_def split: option.splits)
  show "fp_top p = (if attach then res_top r else None)"
    using ok unfolding p by (auto simp: with_link_comparison_def fed_with_top_def split: option.splits)
qed

lemma federated_two_sources:
  assumes "federated_ok p" and "fp_lookups p \<noteq> []"
  shows "2 \<le> card (set (fed_sources p))"
proof -
  have "lookup_ok (fp_fact p) (fp_lookups p) 0 (fp_lookups p ! 0)" using assms by (simp add: federated_ok_def)
  then obtain onto where onto: "leg_standing_at (fp_fact p) (fp_lookups p) (ll_onto (fp_lookups p ! 0)) = Some onto"
    and differ: "lp_source onto \<noteq> lp_source (ll_leg (fp_lookups p ! 0))" by (auto simp: lookup_ok_def)
  have "onto \<in> set (fed_legs p)"
    using onto by (auto simp: leg_standing_at_def fed_legs_def split: leg_at.splits if_splits)
  moreover have "ll_leg (fp_lookups p ! 0) \<in> set (fed_legs p)" using assms(2) by (simp add: fed_legs_def)
  ultimately have "{lp_source onto, lp_source (ll_leg (fp_lookups p ! 0))} \<subseteq> set (fed_sources p)"
    by (auto simp: fed_sources_def)
  from card_mono [OF _ this] differ show ?thesis by simp
qed

lemma prechecked_lookups:
  assumes "prechecked r = Inr (formula, lks)"
  shows "lks = lookups_of r"
proof (cases "cross_model_term r")
  case None
  with assms show ?thesis by (auto simp: prechecked_def Let_def bind_res_eq_Inr)
next
  case (Some t)
  then show ?thesis using assms
    by (cases t) (auto simp: prechecked_def Let_def bind_res_eq_Inr split: if_splits option.splits)
qed

lemma plan_one_cases:
  fixes of_one :: "metric \<Rightarrow> 'd + string"
  assumes "plan_one of_one r ceilings = Inr planned"
  shows "\<exists>formula. (\<forall>m \<in> set (res_metrics r). met_measure m \<noteq> None)
    \<and> (if lk_shapes (lookups_of r) = []
       then \<exists>p. (mono_plan r formula :: 'd plan_error + _) = Inr p
         \<and> planned = MonoPlan (case res_top r of Some t \<Rightarrow> with_top t p | None \<Rightarrow> p)
       else length (lk_shapes (lookups_of r)) \<le> pc_lookup_legs ceilings
         \<and> (\<exists>p. planned = FedPlan p \<and> federated_plan_of of_one r formula (lookups_of r) True = Inr p
               \<and> length (fed_legs p) \<le> pc_legs ceilings \<and> card (set (fed_sources p)) \<le> pc_sources ceilings))"
proof -
  from assms obtain formula lks where pre: "(prechecked r :: 'd plan_error + _) = Inr (formula, lks)"
    unfolding plan_one_def by (auto simp: bind_res_eq_Inr)
  with assms prechecked_lookups [OF pre] show ?thesis
    unfolding plan_one_def Let_def
    by (auto simp: bind_res_eq_Inr map_res_eq_Inr each_ok_eq_Inr bounded_legs_def bounded_sources_def ensure_eq_Inr
        length_bs_of Let_def split: if_splits)
qed

definition plan_within :: "lookups \<Rightarrow> plan_ceilings \<Rightarrow> plan \<Rightarrow> bool" where
  "plan_within lks ceilings planned =
     (case planned of
        MonoPlan p \<Rightarrow> lk_shapes lks = []
      | FedPlan p \<Rightarrow> length (fp_lookups p) \<le> pc_lookup_legs ceilings \<and> length (fed_legs p) \<le> pc_legs ceilings
          \<and> 2 \<le> card (set (fed_sources p)) \<and> card (set (fed_sources p)) \<le> pc_sources ceilings
      | AcrossPlan p \<Rightarrow> length (drill_legs p) \<le> pc_legs ceilings \<and> card (set (drill_sources p)) \<le> pc_sources ceilings
          \<and> distinct (map arm_metric (ne_iter (dp_arms p))))"

lemma plan_one_within:
  assumes "plan_one of_one r ceilings = Inr planned"
  shows "plan_within (lookups_of r) ceilings planned"
proof (cases "lk_shapes (lookups_of r) = []")
  case True
  with plan_one_cases [OF assms] show ?thesis by (auto simp: plan_within_def)
next
  case False
  with plan_one_cases [OF assms] obtain formula p
    where p: "planned = FedPlan p" "federated_plan_of of_one r formula (lookups_of r) True = Inr p"
      and le: "length (lk_shapes (lookups_of r)) \<le> pc_lookup_legs ceilings" "length (fed_legs p) \<le> pc_legs ceilings"
        "card (set (fed_sources p)) \<le> pc_sources ceilings" by auto
  note built = federated_plan_of_built [OF p(2)]
  have "fp_lookups p \<noteq> []" using built(2) False by auto
  from federated_two_sources [OF built(1) this] le built(2) p(1) show ?thesis by (simp add: plan_within_def)
qed

lemma plan_across_within:
  assumes "plan_across of_one ceilings first second rest = Inr planned"
  shows "plan_within lks ceilings planned"
proof -
  from assms obtain a b as p q where new: "drill_across_new a b as = Inr p"
    and legs: "sum_list (map (\<lambda>a. length (arm_plan_legs a)) (a # b # as)) \<le> pc_legs ceilings"
    and q: "planned = AcrossPlan q" "dp_arms q = dp_arms p" and src: "card (set (drill_sources q)) \<le> pc_sources ceilings"
    unfolding plan_across_def Let_def
    by (auto simp: bind_res_eq_Inr map_err_eq_Inr bounded_legs_def bounded_sources_def ensure_eq_Inr length_bs_of Let_def
        drill_with_top_def split: option.splits)
  note ok = iffD1 [OF drill_across_new_ok new]
  from q(2) ok have arms: "ne_iter (dp_arms q) = a # b # as" by simp
  with legs have "length (drill_legs q) \<le> pc_legs ceilings" by (simp add: drill_legs_def length_concat comp_def)
  with arms ok src q(1) show ?thesis by (simp add: plan_within_def)
qed

lemma plan_across_shape: "plan_across of_one ceilings first second rest \<noteq> Inr (MonoPlan p)"
  unfolding plan_across_def Let_def by (auto simp: bind_res_eq_Inr)

lemma plan_one_mono:
  assumes "plan_one (of_one :: metric \<Rightarrow> 'd + string) r ceilings = Inr (MonoPlan p)"
  shows "\<exists>formula p'. (mono_plan r formula :: 'd plan_error + _) = Inr p'
    \<and> p = (case res_top r of Some t \<Rightarrow> with_top t p' | None \<Rightarrow> p')
    \<and> (\<forall>m \<in> set (res_metrics r). met_measure m \<noteq> None) \<and> lk_shapes (lookups_of r) = []"
  using plan_one_cases [OF assms] by (auto split: if_splits)

lemma mono_plan_top: "mono_plan r formula = Inr p \<Longrightarrow> qp_top p = None"
  unfolding mono_plan_def Let_def
  by (auto simp: bind_res_eq_Inr query_plan_new_def with_measures_def split: if_splits)

lemma whole_metrics:
  assumes d: "definitions_ok (sv_pinned v)" and res: "resolve q v c = Inr res"
  shows "(if length (res_metrics (resolved_whole res)) = 1 then [met_name (res_metric (resolved_whole res))]
      else map met_name (res_metrics (resolved_whole res))) = ne_iter (q_metrics q)"
proof -
  from resolve_total [OF d, of q c] res obtain ms where perm: "permitted q v c ms" and ne: "ms \<noteq> []"
    and whole: "resolution_ok q (sv_pinned v) (hd ms) ms (resolved_whole res)" by auto
  from permitted_names [OF perm d] have "map met_name ms = ne_iter (q_metrics q)" .
  with ne whole show ?thesis by (cases ms) (auto simp: resolution_ok_def)
qed

section \<open>A small question, planned\<close>

definition sample_hops :: "resolved_join list" where
  "sample_hops =
     [\<lparr>rj_relationship = relationship_new ''ab'' ''a'' ''b'' ManyToOne (ne_one (KeyEqual ''k'' ''k'')),
       rj_model = sample_model ''b'' ''s'' ''tb'' [''k'', ''r'']\<rparr>,
      \<lparr>rj_relationship = relationship_new ''bc'' ''b'' ''c'' ManyToOne (ne_one (KeyEqual ''r'' ''r'')),
       rj_model = sample_model ''c'' ''s'' ''tc'' [''r'', ''l'']\<rparr>]"

definition sample_reached :: resolved_dimension where
  "sample_reached = \<lparr>rd_dimension = the (met_dimension (sample_metric ''x'') ''x''), rd_join = Some sample_hops\<rparr>"

definition sample_resolution :: resolution where
  "sample_resolution = \<lparr>res_metric = sample_metric ''x'', res_metrics = [sample_metric ''x''],
     res_model = sample_model ''a'' ''s'' ''ta'' [''d'', ''n'', ''k''], res_grain = Day, res_range = q_range sample_question,
     res_keys = [sample_reached], res_filters = [\<lparr>rf_dimension = sample_reached, rf_value = ResolvedEq [120]\<rparr>],
     res_cross = None, res_top = None\<rparr>"

lemma sample_gets:
  "bt_get (defs_models (sample_definitions ''x'')) ''a'' = Some (sample_model ''a'' ''s'' ''ta'' [''d'', ''n'', ''k''])"
  "bt_get (defs_models (sample_definitions ''x'')) ''b'' = Some (sample_model ''b'' ''s'' ''tb'' [''k'', ''r''])"
  "bt_get (defs_models (sample_definitions ''x'')) ''c'' = Some (sample_model ''c'' ''s'' ''tc'' [''r'', ''l''])"
  "bt_get (defs_relationships (sample_definitions ''x'')) ''ab'' = Some (relationship_new ''ab'' ''a'' ''b'' ManyToOne (ne_one (KeyEqual ''k'' ''k'')))"
  "bt_get (defs_relationships (sample_definitions ''x'')) ''bc'' = Some (relationship_new ''bc'' ''b'' ''c'' ManyToOne (ne_one (KeyEqual ''r'' ''r'')))"
  by (simp_all add: sample_definitions_def sample_models_def sample_relationships_def sample_model_def model_new_def relationship_new_def)

lemma sample_dimension: "resolve_dimension (sample_definitions ''x'') (sample_metric ''x'') ''x'' = Inr sample_reached"
proof -
  have m: "met_dimension (sample_metric ''x'') ''x'' = Some \<lparr>dim_name = ''x'', dim_column = ''l'', dim_via = Some [''ab'', ''bc''],
        dim_allowed_values = Some [[120]], dim_description = []\<rparr>" by (simp add: met_dimension_def sample_metric_def)
  have "rel_target (relationship_new a b c j k) = c" for a b c j k by (simp add: relationship_new_def)
  with m show ?thesis by (simp add: resolve_dimension_def resolve_hop_def sample_gets sample_reached_def sample_hops_def)
qed

lemma sample_parts: "met_model (sample_metric n) = ''a''" "met_name (sample_metric n) = ''m''"
  "met_measure (sample_metric n) = Some (Simple (TermAggregate \<lparr>ac_aggregate = Sum, ac_column = ''n'', ac_model = None\<rparr>))"
  "met_shared_calendars (sample_metric n) = None" "met_required_filters (sample_metric n) = []" "met_time_column (sample_metric n) = ''d''"
  by (simp_all add: sample_metric_def met_measure_def)

lemma sample_cross: "resolve_cross_model (sample_metric n) d = Inr None"
  by (simp add: resolve_cross_model_def sample_parts split: option.split)

lemma sample_resolved: "resolve sample_question sample_view (RowCeiling 120)
    = Inr \<lparr>resolved_whole = sample_resolution, resolved_per_metric = []\<rparr>"
proof -
  have "resolve_checks sample_question sample_view (RowCeiling 120) = Inr ([sample_metric ''x''], map resolved_value (q_filters sample_question))"
    using sample_permitted [OF refl] by (simp add: resolve_checks_ok)
  moreover have "resolution_of sample_question sample_view (sample_metric ''x'') [sample_metric ''x'']
      (map resolved_value (q_filters sample_question)) = Inr sample_resolution"
    unfolding resolution_of_def
    using sample_dimension sample_gets(1)
    by (simp add: sample_view_def sample_question_def sample_parts sample_cross sample_resolution_def Let_def)
  ultimately show ?thesis by (simp add: resolve_def)
qed

lemma sample_lookups: "lk_shapes (lookups_of sample_resolution) = []"
  by (simp add: lookups_of_def sample_resolution_def every_dimension_def sample_reached_def sample_hops_def
     draft_dimension_def cut_chain_def sample_model_def model_new_def)

lemma sample_joins: "chain_joins sample_resolution ''ta'' = walk_hops sample_hops ''ta''"
  by (simp add: chain_joins_def unique_chains_def sample_resolution_def every_dimension_def sample_reached_def sample_hops_def
     chain_before_def cut_chain_def sample_model_def model_new_def map_filter_def plan_hop_def relationship_new_def)

lemma sample_tables: "planned_tables (model_table (res_model sample_resolution)) (chain_joins sample_resolution (own_name sample_resolution))
    = Inr \<lparr>st_table = model_table (res_model sample_resolution), st_joins = walk_hops sample_hops ''ta''\<rparr>"
proof -
  have o: "own_name sample_resolution = ''ta''" by (simp add: own_name_def sample_resolution_def model_table_name_def sample_model_def model_new_def)
  have "\<not> one_table \<lparr>qt_qualifier = None, qt_table = a\<rparr> \<lparr>qt_qualifier = None, qt_table = b\<rparr>"
    if "(a, b) \<in> {(''ta'', ''tb''), (''ta'', ''tc''), (''tb'', ''tc'')}" for a b
    using that by (auto simp: one_table_def label_eval)
  then show ?thesis unfolding o sample_joins
    by (simp add: planned_tables_def map_err_eq_Inr statement_tables_ok tables_of_def sample_resolution_def sample_hops_def
      plan_hop_def sample_model_def model_new_def)
qed

lemma sample_fits: "fits_bindings sample_resolution"
  by (simp add: fits_bindings_def sample_resolution_def required_count_def all_required_def requested_count_def requested_values_def sample_parts usize_max_def)

lemma sample_plan:
  "\<exists>p. plan_resolved of_one \<lparr>resolved_whole = sample_resolution, resolved_per_metric = []\<rparr> PLAN_CEILINGS_DEFAULT
     = (Inr (MonoPlan p) :: 'd plan_error + plan)"
proof -
  let ?formula = "Simple (TermAggregate \<lparr>ac_aggregate = Sum, ac_column = ''n'', ac_model = None\<rparr>)"
  have parts: "res_metrics sample_resolution = [sample_metric ''x'']" "res_metric sample_resolution = sample_metric ''x''"
    "res_top sample_resolution = None" by (simp_all add: sample_resolution_def)
  have ok: "hops_ok (sv_pinned sample_view) sample_resolution"
    using resolution_linked_hops resolved_linked(1) [OF assemble_definitions_ok [OF sample_assembled] sample_resolved] by simp
  have "bound_values sample_resolution \<le> usize_max"
    using sample_fits by (simp add: bound_values_def fits_bindings_def parts)
  then obtain p where p: "(mono_plan sample_resolution ?formula :: 'd plan_error + _) = Inr p"
    using mono_plan_cases [of sample_resolution, OF _ _ _ ok sample_lookups sample_tables, of ?formula]
    by (auto simp: parts sample_parts)
  have "cross_model_term sample_resolution = None"
    by (simp add: cross_model_term_def parts sample_parts measure_models_def map_filter_def)
  then have "(prechecked sample_resolution :: 'd plan_error + _) = Inr (?formula, lookups_of sample_resolution)"
    by (simp add: prechecked_def parts sample_parts)
  with p show ?thesis
    by (simp add: plan_resolved_def plan_one_def sample_lookups parts sample_parts ensure_def)
qed

lemma sample_premises:
  "\<forall>x \<in> set (bt_values (defs_metrics (sv_pinned sample_view))). metric_inv x"
  "\<forall>n \<in> set (q_dimensions sample_question). \<exists>h. well_named h n"
  by (auto simp: sample_view_def sample_definitions_def metric_inv_def dimensions_inv_def sample_metric_def bt_inv_def
      sample_question_def well_named_def admits_def is_ascii_alphabetic_def is_ascii_alphanumeric_def split: hyphens.split)

section \<open>The planner as a whole\<close>

lemma plan_resolved_graceful:
  fixes of_one :: "metric \<Rightarrow> 'd + string"
  assumes "assemble escaped models relationships metrics = Inr (sv_pinned v)"
    and "\<forall>x \<in> set (bt_values (defs_metrics (sv_pinned v))). metric_inv x"
    and "\<forall>n \<in> set (q_dimensions q). \<exists>h. well_named h n"
    and "resolve q v limit = Inr res"
    and "\<forall>r \<in> set (resolved_whole res # resolved_per_metric res). fits_bindings r"
    and "pc_lookup_legs ceilings \<le> 8" and "pc_legs ceilings \<le> 16"
  shows "gracefully (plan_resolved of_one res ceilings)"
proof -
  note d = assemble_definitions_ok [OF assms(1)]
  note pf = resolved_planned_from [OF d assms(2,4)]
  have one: "gracefully (plan_one of_one (resolved_whole res) ceilings)" if "single_or_own (resolved_whole res)"
    using plan_one_graceful [OF pf(1) that _ assms(3,6)] assms(5) by simp
  show ?thesis
  proof (cases "resolved_per_metric res")
    case Nil
    with one pf(2) show ?thesis by (simp add: plan_resolved_def)
  next
    case (Cons first more)
    with pf(5) obtain second rest where each: "resolved_per_metric res = first # second # rest" by (cases more) auto
    show ?thesis
    proof (cases "one_statement res")
      case True
      then have "single_or_own (resolved_whole res)" by (simp add: one_statement_def single_or_own_def Let_def)
      with one True each show ?thesis by (simp add: plan_resolved_def)
    next
      case False
      have fits: "\<forall>r \<in> set (first # second # rest). planned_from (sv_pinned v) q r \<and> single_or_own r \<and> fits_bindings r"
        using pf(3) assms(5) unfolding each by simp
      have "gracefully (plan_across of_one ceilings first second rest)"
        by (rule plan_across_graceful [OF fits pf(4) [unfolded each] assms(3,6,7)])
      with False each show ?thesis by (simp add: plan_resolved_def)
    qed
  qed
qed

lemma mono_plan_sound:
  fixes of_one :: "metric \<Rightarrow> 'd + string"
  assumes "assemble escaped models relationships metrics = Inr (sv_pinned v)"
    and "\<forall>x \<in> set (bt_values (defs_metrics (sv_pinned v))). metric_inv x"
    and "resolve q v limit = Inr res"
    and "fits_bindings (resolved_whole res)"
    and "plan_resolved of_one res ceilings = Inr (MonoPlan p)"
  shows "plan_bound p = [0..<length (qp_params p)]
     \<and> (\<forall>c \<in> plan_columns p. pcol_table c \<in> plan_tables p)
     \<and> map pm_metric (ne_iter (qp_measures p)) = ne_iter (q_metrics q)
     \<and> key_labels p = q_dimensions q \<and> qp_range p = q_range q \<and> qp_top p = q_top q"
proof -
  note d = assemble_definitions_ok [OF assms(1)]
  note pf = resolved_planned_from [OF d assms(2,3)]
  from assms(5) have "plan_one of_one (resolved_whole res) ceilings = Inr (MonoPlan p)"
    using plan_across_shape by (fastforce simp: plan_resolved_def split: list.splits if_splits)
  from plan_one_mono [OF this] obtain formula p' where mono: "(mono_plan (resolved_whole res) formula :: 'd plan_error + _) = Inr p'"
    and p: "p = (case res_top (resolved_whole res) of Some t \<Rightarrow> with_top t p' | None \<Rightarrow> p')"
    and checked: "\<forall>m \<in> set (res_metrics (resolved_whole res)). met_measure m \<noteq> None"
    and local: "lk_shapes (lookups_of (resolved_whole res)) = []" by blast
  note pw = planned_fromD [OF pf(1)]
  from mono obtain tables where tables: "(planned_tables (model_table (res_model (resolved_whole res)))
      (chain_joins (resolved_whole res) (own_name (resolved_whole res))) :: 'd plan_error + _) = Inr tables"
    unfolding mono_plan_def Let_def by (auto simp: bind_res_eq_Inr own_name_def)
  have "res_metrics (resolved_whole res) \<noteq> []" using pw(3) by auto
  moreover have "bound_values (resolved_whole res) \<le> usize_max" using assms(4) by (auto simp: bound_values_def fits_bindings_def)
  ultimately have "plan_bound p' = [0..<length (qp_params p')] \<and> (\<forall>c \<in> plan_columns p'. pcol_table c \<in> plan_tables p')
      \<and> qp_range p' = q_range q \<and> key_labels p' = q_dimensions q
      \<and> map pm_metric (ne_iter (qp_measures p')) = ne_iter (q_metrics q) \<and> qp_top p' = None"
    using mono_plan_cases [OF _ checked _ pw(2) local tables, of formula] mono whole_metrics [OF d assms(3)] pw(9,11)
      mono_plan_top [OF mono] by auto
  then show ?thesis unfolding p pw(10)
    by (auto simp: with_top_def plan_bound_def plan_columns_def plan_tables_def key_labels_def split: option.splits)
qed

section \<open>Properties\<close>





text \<open>C9: a statement the planner writes is sound. Its predicates bind exactly its parameters, in the
  order they are numbered; every column it reads is of a table it joins; and it answers the question's
  own metrics, dimensions, range and top.\<close>
theorem one_statement_plan_sound:
  fixes of_one :: "metric \<Rightarrow> 'd + string"
  assumes "assemble escaped models relationships metrics = Inr (sv_pinned v)"
    and "\<forall>x \<in> set (bt_values (defs_metrics (sv_pinned v))). metric_inv x"
    and "resolve q v limit = Inr res"
    and "fits_bindings (resolved_whole res)"
    and "plan_resolved of_one res ceilings = Inr (MonoPlan p)"
  shows "plan_bound p = [0..<length (qp_params p)]
     \<and> (\<forall>c \<in> plan_columns p. pcol_table c \<in> plan_tables p)
     \<and> map pm_metric (ne_iter (qp_measures p)) = ne_iter (q_metrics q)
     \<and> key_labels p = q_dimensions q \<and> qp_range p = q_range q \<and> qp_top p = q_top q"
  by (rule mono_plan_sound [OF assms])

theorem one_statement_plan_sound_witness:
  "\<exists>p. plan_resolved (\<lambda>_. Inl ''no digest'') \<lparr>resolved_whole = sample_resolution, resolved_per_metric = []\<rparr> PLAN_CEILINGS_DEFAULT
       = (Inr (MonoPlan p) :: string plan_error + plan)
     \<and> plan_bound p = [0..<length (qp_params p)] \<and> (\<forall>c \<in> plan_columns p. pcol_table c \<in> plan_tables p)
     \<and> key_labels p = [''x'']"
proof -
  obtain p where p: "plan_resolved (\<lambda>_. Inl ''no digest'') \<lparr>resolved_whole = sample_resolution, resolved_per_metric = []\<rparr>
      PLAN_CEILINGS_DEFAULT = (Inr (MonoPlan p) :: string plan_error + plan)" using sample_plan by blast
  have "q_dimensions sample_question = [''x'']" by (simp add: sample_question_def)
  with one_statement_plan_sound [OF sample_assembled sample_premises(1) sample_resolved _ p] p sample_fits show ?thesis by auto
qed

end
