(* ===== verification/Certify.thy ===== *)
theory Certify
  imports Wire Planning
begin

text \<open>
  What a node accepts of a leg another node sends (\<open>plan/remote/certify.rs\<close> and its
  \<open>surface.rs\<close>): the receiver looks the metric up in its own definitions, compares the digests,
  rebuilds the statement from its own models and relationships, and takes of the document only what its
  definitions declare for that metric on that data system. The digest of a metric is an argument.
\<close>

section \<open>Refusals\<close>

datatype leg_part = PartJoins | PartKeys | PartTerms | PartFilters

datatype 'd not_agreed = UndefinedHere name | DefinedDifferently name | DigestFailed name 'd

datatype 'd leg_not_certified =
    MetricNotAgreed "'d not_agreed"
  | TooManyParts leg_part nat
  | TableNotCertified name qualified_table
  | RelationshipNotCertified name
  | ColumnNotCertified plan_column
  | GrainNotDeclared name grain
  | BucketNotTimeColumn name plan_column
  | TermNotMetrics name plan_column
  | CalendarNotJoined name
  | DimensionNotDeclared name plan_column
  | LinkNotDeclared plan_column
  | LinkIncomplete nat
  | KeyNotDeclared plan_column
  | FilterNotDeclared plan_column
  | ValueNotAllowed plan_column
  | RangeTooLong int int
  | RangeNotBound name
  | RequiredFilterMissing name name
  | TablesNotCertified ambiguous_tables
  | BindingsNotCertified incoherent_bindings

definition agrees_on :: "(metric \<Rightarrow> 'd + string) \<Rightarrow> definitions \<Rightarrow> metric_digest \<Rightarrow> 'd not_agreed + metric" where
  "agrees_on of_one d theirs =
     (case bt_get (defs_metrics d) (md_metric theirs) of
        None \<Rightarrow> Inl (UndefinedHere (md_metric theirs))
      | Some m \<Rightarrow>
          bind_res (map_err (DigestFailed (md_metric theirs)) (of_one m)) (\<lambda>ours.
            if ours = md_digest theirs then Inr m else Inl (DefinedDifferently (md_metric theirs))))"

section \<open>The statement\<close>

record statement =
  sm_root :: model
  sm_models :: "model list"
  sm_tables :: statement_tables

definition certifies :: "statement \<Rightarrow> plan_column \<Rightarrow> 'd leg_not_certified + unit" where
  "certifies s c =
     ensure (list_ex (\<lambda>m. model_table_name m = pcol_table c \<and> has_column m (pcol_column c)) (sm_models s)) (ColumnNotCertified c)"

definition within_limit :: "leg_part \<Rightarrow> nat \<Rightarrow> nat \<Rightarrow> 'd leg_not_certified + unit" where
  "within_limit part len limit = ensure (len \<le> limit) (TooManyParts part limit)"

definition max_keys :: "definitions \<Rightarrow> nat" where
  "max_keys d =
     (let parts = (case map (\<lambda>r. ne_len (rel_keys r)) (bt_values (defs_relationships d)) of [] \<Rightarrow> 1 | n # ns \<Rightarrow> fold max ns n) in
      sat_add_usize (sat_add_usize MAX_DIMENSIONS (min (MAX_LOOKUP_LEGS * parts) usize_max)) 2)"

definition MAX_TERMS :: nat where
  "MAX_TERMS = 4"

definition declared_hop :: "definitions \<Rightarrow> name \<Rightarrow> name \<Rightarrow> 'd leg_not_certified + relationship \<times> model" where
  "declared_hop d source n =
     bind_res (ok_or (RelationshipNotCertified n) (bt_get (defs_relationships d) n)) (\<lambda>r.
     bind_res (ok_or (RelationshipNotCertified n)
         (case bt_get (defs_models d) (rel_target r) of None \<Rightarrow> None | Some m \<Rightarrow> if model_source m = source then Some m else None)) (\<lambda>target.
       Inr (r, target)))"

definition joined_hop :: "model list \<Rightarrow> nat \<times> relationship \<times> model \<Rightarrow> 'd leg_not_certified + plan_join" where
  "joined_hop models = (\<lambda>(index, r, target).
     bind_res (ok_or (RelationshipNotCertified (rel_name r))
         (List.find (\<lambda>m. model_name m = rel_origin r) (take (sat_add_usize index 1) models))) (\<lambda>origin.
       Inr (plan_hop r (model_table_name origin) target)))"

definition statement_of ::
  "definitions \<Rightarrow> name \<Rightarrow> qualified_table \<Rightarrow> name list \<Rightarrow> (model \<Rightarrow> bool) \<Rightarrow> 'd leg_not_certified + statement" where
  "statement_of d source table relationships reads =
     bind_res (within_limit PartJoins (length relationships) (length (defs_relationships d))) (\<lambda>_.
     bind_res (ok_or (TableNotCertified source table)
         (List.find (\<lambda>m. model_table m = table \<and> model_source m = source \<and> reads m) (bt_values (defs_models d)))) (\<lambda>base.
     bind_res (traverse (declared_hop d source) relationships) (\<lambda>declared.
     let models = base # map snd declared in
     bind_res (traverse (joined_hop models) (enumerated declared)) (\<lambda>js.
     bind_res (map_err TablesNotCertified (statement_tables_parse table js)) (\<lambda>tables.
       Inr \<lparr>sm_root = base, sm_models = models, sm_tables = tables\<rparr>)))))"

section \<open>The surface of a metric on a data system\<close>

datatype link_end = EndOrigin | EndTarget

record surface_link =
  sl_end :: link_end
  sl_model :: name
  sl_parts :: "name list"

record reach =
  rc_dimension :: dimension
  rc_column :: plan_column
  rc_through :: "name list"

record surface =
  su_joins :: "name list"
  su_reaches :: "reach list"
  su_links :: "surface_link list"

definition surface_link_of :: "relationship \<Rightarrow> link_end \<Rightarrow> surface_link" where
  "surface_link_of hop e =
     (case e of
        EndOrigin \<Rightarrow> \<lparr>sl_end = e, sl_model = rel_origin hop, sl_parts = map key_origin (ne_iter (rel_keys hop))\<rparr>
      | EndTarget \<Rightarrow> \<lparr>sl_end = e, sl_model = rel_target hop, sl_parts = map key_target (ne_iter (rel_keys hop))\<rparr>)"

definition link_held :: "statement \<Rightarrow> surface_link \<Rightarrow> bool" where
  "link_held s l =
     (case sl_end l of
        EndOrigin \<Rightarrow> list_ex (\<lambda>m. model_name m = sl_model l) (sm_models s)
      | EndTarget \<Rightarrow> model_name (sm_root s) = sl_model l)"

definition link_reads :: "definitions \<Rightarrow> surface_link \<Rightarrow> nat \<Rightarrow> plan_column \<Rightarrow> bool" where
  "link_reads d l part c \<longleftrightarrow>
     part < length (sl_parts l) \<and> sl_parts l ! part = pcol_column c
     \<and> (case bt_get (defs_models d) (sl_model l) of None \<Rightarrow> False | Some m \<Rightarrow> model_table_name m = pcol_table c)"

definition chain_hops :: "definitions \<Rightarrow> name list \<Rightarrow> (relationship \<times> model) list option" where
  "chain_hops d chain =
     collect_some (map (\<lambda>n. Option.bind (bt_get (defs_relationships d) n) (\<lambda>r.
       map_option (Pair r) (bt_get (defs_models d) (rel_target r)))) chain)"

definition first_crossings :: "definitions \<Rightarrow> metric \<Rightarrow> relationship list" where
  "first_crossings d m =
     (case bt_get (defs_models d) (met_model m) of
        None \<Rightarrow> []
      | Some own \<Rightarrow>
          List.map_filter (\<lambda>dm. Option.bind (dim_via dm) (\<lambda>chain. Option.bind (chain_hops d chain) (\<lambda>hops.
              map_option fst (List.find (\<lambda>(_, target). model_source target \<noteq> model_source own) hops))))
            (bt_values (met_dimensions m)))"

fun enters :: "model \<Rightarrow> name \<Rightarrow> (relationship \<times> model) list \<Rightarrow> bool" where
  "enters standing entered [] = False"
| "enters standing entered ((_, target) # hops) =
     ((model_source target \<noteq> model_source standing \<and> model_name target = entered) \<or> enters target entered hops)"

definition crossed_into :: "definitions \<Rightarrow> metric \<Rightarrow> model \<Rightarrow> bool" where
  "crossed_into d m entered =
     (case bt_get (defs_models d) (met_model m) of
        None \<Rightarrow> False
      | Some own \<Rightarrow>
          list_ex (\<lambda>dm. case Option.bind (dim_via dm) (chain_hops d) of
              None \<Rightarrow> False
            | Some hops \<Rightarrow> enters own (model_name entered) hops) (bt_values (met_dimensions m)))"

definition link_onto :: "relationship \<Rightarrow> relationship \<Rightarrow> surface_link option" where
  "link_onto second crossing =
     (let ours = ne_iter (rel_keys second); theirs = ne_iter (rel_keys crossing) in
      if rel_target second \<noteq> rel_target crossing \<or> length ours \<noteq> length theirs
         \<or> \<not> list_all (\<lambda>key. list_ex (\<lambda>own. same_part own key) theirs) ours
      then None
      else map_option (\<lambda>parts. \<lparr>sl_end = EndOrigin, sl_model = rel_origin second, sl_parts = parts\<rparr>)
        (collect_some (map (\<lambda>own. map_option key_origin (List.find (\<lambda>key. same_part key own) ours)) theirs)))"

definition add_fact_dimension :: "definitions \<Rightarrow> model \<Rightarrow> surface \<Rightarrow> dimension \<Rightarrow> surface" where
  "add_fact_dimension d base s dm =
     (case chain_hops d (case dim_via dm of None \<Rightarrow> [] | Some chain \<Rightarrow> chain) of
        None \<Rightarrow> s
      | Some hops \<Rightarrow>
          (let here = length (takeWhile (\<lambda>(_, target). model_source target = model_source base) hops);
               s = s\<lparr>su_joins := su_joins s @ map (\<lambda>(hop, _). rel_name hop) (take here hops)\<rparr> in
           if here < length hops then s\<lparr>su_links := su_links s @ [surface_link_of (fst (hops ! here)) EndOrigin]\<rparr>
           else (let stands = (if hops = [] then base else snd (last hops)) in
             s\<lparr>su_reaches := su_reaches s @ [\<lparr>rc_dimension = dm,
                 rc_column = own_column (model_table_name stands) (dim_column dm),
                 rc_through = map (\<lambda>(hop, _). rel_name hop) hops\<rparr>]\<rparr>)))"

definition surface_of_fact :: "definitions \<Rightarrow> metric \<Rightarrow> model \<Rightarrow> name option \<Rightarrow> surface" where
  "surface_of_fact d m base calendar =
     (let s = \<lparr>su_joins = (case calendar of None \<Rightarrow> [] | Some n \<Rightarrow> [n]), su_reaches = [], su_links = []\<rparr> in
      if model_name base \<noteq> met_model m
      then s\<lparr>su_links := concat (map (\<lambda>second. List.map_filter (link_onto second) (first_crossings d m))
          (filter (\<lambda>second. rel_origin second = model_name base) (bt_values (defs_relationships d))))\<rparr>
      else foldl (add_fact_dimension d base) s (bt_values (met_dimensions m)))"

text \<open>The walk along the chain of a dimension: where it stands, and the joins since it entered the base, if it has.\<close>

fun walk_lookup ::
  "model \<Rightarrow> model \<Rightarrow> name list option \<Rightarrow> (relationship \<times> model) list \<Rightarrow> surface \<Rightarrow> model \<times> name list option \<times> surface" where
  "walk_lookup base stands through [] s = (stands, through, s)"
| "walk_lookup base stands through ((hop, target) # hops) s =
     (if model_source target \<noteq> model_source stands then
        (let s = (if through \<noteq> None then s\<lparr>su_links := su_links s @ [surface_link_of hop EndOrigin]\<rparr> else s) in
         if model_name target = model_name base
         then walk_lookup base target (Some []) hops (s\<lparr>su_links := su_links s @ [surface_link_of hop EndTarget]\<rparr>)
         else walk_lookup base target None hops s)
      else (case through of
              None \<Rightarrow> walk_lookup base target None hops s
            | Some joined \<Rightarrow> walk_lookup base target (Some (joined @ [rel_name hop])) hops
                (s\<lparr>su_joins := su_joins s @ [rel_name hop]\<rparr>)))"

definition add_lookup_dimension :: "definitions \<Rightarrow> model \<Rightarrow> model \<Rightarrow> surface \<Rightarrow> dimension \<Rightarrow> surface" where
  "add_lookup_dimension d own base s dm =
     (case Option.bind (dim_via dm) (chain_hops d) of
        None \<Rightarrow> s
      | Some hops \<Rightarrow>
          (case walk_lookup base own None hops s of
             (_, None, s) \<Rightarrow> s
           | (stands, Some through, s) \<Rightarrow>
               s\<lparr>su_reaches := su_reaches s @ [\<lparr>rc_dimension = dm,
                 rc_column = own_column (model_table_name stands) (dim_column dm), rc_through = through\<rparr>]\<rparr>))"

definition surface_of_lookup :: "definitions \<Rightarrow> metric \<Rightarrow> model \<Rightarrow> surface" where
  "surface_of_lookup d m base =
     (let s = \<lparr>su_joins = [], su_reaches = [], su_links = []\<rparr> in
      case bt_get (defs_models d) (met_model m) of
        None \<Rightarrow> s
      | Some own \<Rightarrow> foldl (add_lookup_dimension d own base) s (bt_values (met_dimensions m)))"

definition reached_on :: "surface \<Rightarrow> plan_column \<Rightarrow> name list \<Rightarrow> dimension list" where
  "reached_on s c js =
     map rc_dimension (filter (\<lambda>r. rc_column r = c \<and> list_all (\<lambda>hop. hop \<in> set js) (rc_through r)) (su_reaches s))"

definition surface_reaches :: "surface \<Rightarrow> name \<Rightarrow> plan_column \<Rightarrow> name list \<Rightarrow> bool" where
  "surface_reaches s n c js = list_ex (\<lambda>dm. dim_name dm = n) (reached_on s c js)"

definition surface_filterable :: "surface \<Rightarrow> plan_column \<Rightarrow> name list \<Rightarrow> dimension list" where
  "surface_filterable s c js = filter is_filterable (reached_on s c js)"

definition surface_has_link :: "surface \<Rightarrow> definitions \<Rightarrow> statement \<Rightarrow> nat \<Rightarrow> plan_column \<Rightarrow> bool" where
  "surface_has_link s d st part c = list_ex (\<lambda>l. link_held st l \<and> link_reads d l part c) (su_links s)"

definition surface_completes :: "surface \<Rightarrow> definitions \<Rightarrow> statement \<Rightarrow> (nat \<times> plan_column) list \<Rightarrow> bool" where
  "surface_completes s d st held =
     (let parts = bs_of (map fst held) in
      list_ex (\<lambda>l. link_held st l \<and> length parts = length held \<and> length parts = length (sl_parts l)
        \<and> list_all (\<lambda>(part, c). link_reads d l part c) held) (su_links s))"

definition calendar_hop :: "definitions \<Rightarrow> metric \<Rightarrow> model \<Rightarrow> relationship option" where
  "calendar_hop d m base =
     Option.bind (met_shared_calendars m) (\<lambda>calendars.
     Option.bind (List.find (\<lambda>c. model_source c = model_source base) (List.map_filter (bt_get (defs_models d)) calendars)) (\<lambda>calendar.
       List.find (\<lambda>r. rel_origin r = model_name base \<and> rel_target r = model_name calendar) (bt_values (defs_relationships d))))"

section \<open>Certifying a leg\<close>

definition get_at :: "'a list \<Rightarrow> nat \<Rightarrow> 'a option" where
  "get_at xs i = (if i < length xs then Some (xs ! i) else None)"

text \<open>One key of the document; \<open>measured\<close> is the metric with the columns it measures, on a fact leg.\<close>

definition certified_key ::
  "definitions \<Rightarrow> surface \<Rightarrow> name list \<Rightarrow> statement \<Rightarrow> (name \<times> plan_column list) option \<Rightarrow> wire_key
     \<Rightarrow> 'd leg_not_certified + plan_key" where
  "certified_key d s js st measured key =
     (let c = wk_column key in
      bind_res (certifies st c) (\<lambda>_.
      bind_res
        (case wk_label key of
           WireDimension n \<Rightarrow> ensure (surface_reaches s n c js) (DimensionNotDeclared n c)
         | WireInternal (Link _ part) \<Rightarrow> ensure (surface_has_link s d st part c) (LinkNotDeclared c)
         | WireInternal (Leaf _) \<Rightarrow>
             (case measured of
                None \<Rightarrow> Inl (KeyNotDeclared c)
              | Some (metric, columns) \<Rightarrow>
                  ensure (c \<in> set columns \<and> model_table_name (sm_root st) = pcol_table c) (TermNotMetrics metric c))) (\<lambda>_.
        Inr (plan_key_new (into_label (wk_label key)) c))))"

definition carried_links :: "wire_key list \<Rightarrow> nat \<Rightarrow> (nat \<times> plan_column) list" where
  "carried_links keys leg =
     List.map_filter (\<lambda>k. case wk_label k of
         WireInternal (Link l part) \<Rightarrow> if l = leg then Some (part, wk_column k) else None
       | _ \<Rightarrow> None) keys"

definition links_of :: "wire_key list \<Rightarrow> nat list" where
  "links_of keys = bs_of (List.map_filter (\<lambda>k. case wk_label k of WireInternal (Link l _) \<Rightarrow> Some l | _ \<Rightarrow> None) keys)"

definition certified_keys ::
  "definitions \<Rightarrow> surface \<Rightarrow> name list \<Rightarrow> statement \<Rightarrow> (name \<times> plan_column list) option \<Rightarrow> wire_key list
     \<Rightarrow> 'd leg_not_certified + plan_key list" where
  "certified_keys d s js st measured wire =
     bind_res (within_limit PartKeys (length wire) (max_keys d)) (\<lambda>_.
     bind_res (traverse (certified_key d s js st measured) wire) (\<lambda>keys.
     bind_res (each_ok (\<lambda>leg. ensure (surface_completes s d st (carried_links wire leg)) (LinkIncomplete leg)) (links_of wire)) (\<lambda>_.
       Inr keys)))"

definition declared_joins :: "name list \<Rightarrow> surface \<Rightarrow> 'd leg_not_certified + unit" where
  "declared_joins js s =
     (case List.find (\<lambda>n. n \<notin> set (su_joins s)) js of
        None \<Rightarrow> Inr ()
      | Some n \<Rightarrow> Inl (RelationshipNotCertified n))"

text \<open>The parameters a predicate of a question may bind: of a comparison or a membership.\<close>

fun bound_by :: "plan_predicate \<Rightarrow> nat list option" where
  "bound_by (PlanEquals _ param) = Some [param]"
| "bound_by (PlanIn _ params) = Some (ne_iter params)"
| "bound_by (PlanNotIn _ params) = Some (ne_iter params)"
| "bound_by _ = None"

definition allowed_value :: "param_value list \<Rightarrow> dimension \<Rightarrow> nat \<Rightarrow> bool" where
  "allowed_value params dm i =
     (case get_at params i of
        Some (ParamText t) \<Rightarrow> (case dimension_value_parse t of Inr v \<Rightarrow> permits dm v | Inl _ \<Rightarrow> False)
      | _ \<Rightarrow> False)"

definition declared_filter ::
  "param_value list \<Rightarrow> surface \<Rightarrow> name list \<Rightarrow> (plan_filter \<Rightarrow> bool) \<Rightarrow> plan_filter \<Rightarrow> 'd leg_not_certified + unit" where
  "declared_filter params s js required f =
     (let c = pp_column (pf_predicate f) in
      if pf_origin f = OriginDefinition then ensure (required f) (FilterNotDeclared c)
      else (case bound_by (pf_predicate f) of
              None \<Rightarrow> Inl (FilterNotDeclared c)
            | Some bound \<Rightarrow>
                (let dims = surface_filterable s c js in
                 if dims = [] then Inl (FilterNotDeclared c)
                 else ensure (list_ex (\<lambda>dm. list_all (allowed_value params dm) bound) dims) (ValueNotAllowed c))))"

definition declared_filters ::
  "plan_filter list \<Rightarrow> param_value list \<Rightarrow> surface \<Rightarrow> name list \<Rightarrow> (plan_filter \<Rightarrow> bool) \<Rightarrow> 'd leg_not_certified + unit" where
  "declared_filters wire params s js required = each_ok (declared_filter params s js required) wire"

definition certified_filters :: "plan_filter list \<Rightarrow> statement \<Rightarrow> nat \<Rightarrow> 'd leg_not_certified + unit" where
  "certified_filters wire st required =
     bind_res (within_limit PartFilters (length wire) (sat_add_usize (sat_add_usize MAX_FILTERS required) 2)) (\<lambda>_.
       each_ok (\<lambda>f. certifies st (pp_column (pf_predicate f))) wire)"

definition crosses_models :: "metric \<Rightarrow> bool" where
  "crosses_models m =
     (case met_measure m of None \<Rightarrow> False | Some q \<Rightarrow> list_ex (\<lambda>n. n \<noteq> met_model m) (List.map_filter id (measure_models q)))"

definition time_column_on :: "definitions \<Rightarrow> metric \<Rightarrow> name \<Rightarrow> plan_column option" where
  "time_column_on d m source =
     Option.bind (bt_get (defs_models d) (met_model m)) (\<lambda>own.
     map_option (\<lambda>mo. own_column (model_table_name mo) (met_time_column m))
       (if \<not> crosses_models m then Some own
        else (case met_shared_calendars m of
                None \<Rightarrow> None
              | Some calendars \<Rightarrow>
                  if model_source own = source
                  then List.find (\<lambda>c. model_source c = model_source own) (List.map_filter (bt_get (defs_models d)) calendars)
                  else None)))"

definition measured_columns :: "definitions \<Rightarrow> metric \<Rightarrow> plan_column list" where
  "measured_columns d m =
     (case met_measure m of
        None \<Rightarrow> []
      | Some q \<Rightarrow>
          List.map_filter (\<lambda>(column, n).
              map_option (\<lambda>mo. own_column (model_table_name mo) column)
                (bt_get (defs_models d) (case n of None \<Rightarrow> met_model m | Some n \<Rightarrow> n)))
            (zip (measure_columns q) (measure_models q)))"

definition bounded_by_range :: "time_range \<Rightarrow> plan_column \<Rightarrow> plan_filter list \<Rightarrow> param_value list \<Rightarrow> bool" where
  "bounded_by_range rng bucket filters params =
     (let (bounds, dates) = range_filters rng bucket [] in
      length filters \<ge> 2 \<and> take 2 filters = bounds \<and> length params \<ge> 2 \<and> take 2 params = dates)"

definition is_required :: "name \<Rightarrow> param_value list \<Rightarrow> required_filter \<Rightarrow> plan_filter \<Rightarrow> bool" where
  "is_required own_table params required f =
     (let c = own_column own_table (filter_column required);
          bound = (\<lambda>i v. get_at params i = Some (ParamText v)) in
      pf_origin f = OriginDefinition
      \<and> (case (required, pf_predicate f) of
           (Equals _ v, PlanEquals mo i) \<Rightarrow> mo = c \<and> bound i v
         | (NotEquals _ v, PlanNotEquals mo i) \<Rightarrow> mo = c \<and> bound i v
         | (IsTrue _, PlanIsTrue mo) \<Rightarrow> mo = c
         | (IsNotNull _, PlanIsNotNull mo) \<Rightarrow> mo = c
         | _ \<Rightarrow> False))"

definition certified_bucket :: "definitions \<Rightarrow> metric \<Rightarrow> name \<Rightarrow> statement \<Rightarrow> wire_bucket \<Rightarrow> 'd leg_not_certified + unit" where
  "certified_bucket d m source st b =
     bind_res (ensure (supports_grain m (wb_grain b)) (GrainNotDeclared (met_name m) (wb_grain b))) (\<lambda>_.
     bind_res (ensure (time_column_on d m source = Some (wb_column b)) (BucketNotTimeColumn (met_name m) (wb_column b))) (\<lambda>_.
       certifies st (wb_column b)))"

definition certified_term :: "statement \<Rightarrow> name \<times> plan_column list \<Rightarrow> wire_term \<Rightarrow> 'd leg_not_certified + leg_term" where
  "certified_term st = (\<lambda>(metric, columns) t.
     let c = plan_term_column (wt_term t) in
     bind_res (ensure (c \<in> set columns \<and> model_table_name (sm_root st) = pcol_table c) (TermNotMetrics metric c)) (\<lambda>_.
     bind_res (certifies st c) (\<lambda>_.
       Inr \<lparr>lt_term = wt_term t, lt_label = into_label (wt_label t)\<rparr>)))"

definition certified_terms :: "wire_term list \<Rightarrow> statement \<Rightarrow> name \<times> plan_column list \<Rightarrow> 'd leg_not_certified + leg_term list" where
  "certified_terms terms st measured =
     bind_res (within_limit PartTerms (length terms) MAX_TERMS) (\<lambda>_. traverse (certified_term st measured) terms)"

definition certified_calendar ::
  "definitions \<Rightarrow> metric \<Rightarrow> statement \<Rightarrow> plan_column \<Rightarrow> name list \<Rightarrow> 'd leg_not_certified + unit" where
  "certified_calendar d m st bucket js =
     ensure (pcol_table bucket = model_table_name (sm_root st)
       \<or> (case calendar_hop d m (sm_root st) of None \<Rightarrow> False | Some hop \<Rightarrow> rel_name hop \<in> set js)) (CalendarNotJoined (met_name m))"

definition reads_for :: "metric \<Rightarrow> model \<Rightarrow> bool" where
  "reads_for m mo \<longleftrightarrow>
     model_name mo = met_model m
     \<or> (case met_measure m of None \<Rightarrow> False | Some q \<Rightarrow> model_name mo \<in> set (List.map_filter id (measure_models q)))"

definition fact_surface :: "definitions \<Rightarrow> metric \<Rightarrow> statement \<Rightarrow> plan_column \<Rightarrow> surface" where
  "fact_surface d m st bucket =
     surface_of_fact d m (sm_root st)
       (if pcol_table bucket = model_table_name (sm_root st) then None
        else map_option rel_name (calendar_hop d m (sm_root st)))"

definition required_here :: "definitions \<Rightarrow> metric \<Rightarrow> qualified_table \<Rightarrow> required_filter list" where
  "required_here d m table =
     (let own = (case bt_get (defs_models d) (met_model m) of None \<Rightarrow> False | Some mo \<Rightarrow> model_table mo = table) in
      if own then met_required_filters m else [])"

definition certify_fact ::
  "(metric \<Rightarrow> 'd + string) \<Rightarrow> definitions \<Rightarrow> name \<Rightarrow> metric_digest \<Rightarrow> qualified_table \<Rightarrow> name list \<Rightarrow> wire_bucket
     \<Rightarrow> wire_key list \<Rightarrow> wire_term list \<Rightarrow> plan_filter list \<Rightarrow> time_range \<Rightarrow> param_value list \<Rightarrow> 'd leg_not_certified + leg_plan" where
  "certify_fact of_one d source theirs table js bucket keys terms filters rng params =
     bind_res (map_err MetricNotAgreed (agrees_on of_one d theirs)) (\<lambda>m.
     bind_res (statement_of d source table js (reads_for m)) (\<lambda>st.
     bind_res (certified_bucket d m source st bucket) (\<lambda>_.
     bind_res (ensure (range_days rng \<le> MAX_RANGE_DAYS) (RangeTooLong (range_days rng) MAX_RANGE_DAYS)) (\<lambda>_.
     let leaves = (met_name m, measured_columns d m) in
     bind_res (certified_terms terms st leaves) (\<lambda>terms.
     let s = fact_surface d m st (wb_column bucket) in
     bind_res (declared_joins js s) (\<lambda>_.
     bind_res (certified_calendar d m st (wb_column bucket) js) (\<lambda>_.
     bind_res (certified_keys d s js st (Some leaves) keys) (\<lambda>keys.
     let required = required_here d m table in
     bind_res (certified_filters filters st (length required)) (\<lambda>_.
     bind_res (ensure (bounded_by_range rng (wb_column bucket) filters params) (RangeNotBound (met_name m))) (\<lambda>_.
     let own_table = model_table_name (sm_root st) in
     bind_res (case List.find (\<lambda>r. \<not> list_ex (is_required own_table params r) filters) required of
         None \<Rightarrow> Inr ()
       | Some missing \<Rightarrow> Inl (RequiredFilterMissing (met_name m) (filter_column missing))) (\<lambda>_.
     bind_res (declared_filters (drop 2 filters) params s js (\<lambda>f. list_ex (\<lambda>r. is_required own_table params r f) required)) (\<lambda>_.
     bind_res (map_err BindingsNotCertified (plan_bindings_parse filters params)) (\<lambda>bindings.
       Inr (LegFact source theirs (sm_tables st)
         \<lparr>pb_label = label_bucket, pb_grain = wb_grain bucket, pb_column = wb_column bucket\<rparr> keys terms bindings rng))))))))))))))"

definition certify_lookup ::
  "(metric \<Rightarrow> 'd + string) \<Rightarrow> definitions \<Rightarrow> name \<Rightarrow> metric_digest \<Rightarrow> qualified_table \<Rightarrow> name list
     \<Rightarrow> wire_key list \<Rightarrow> plan_filter list \<Rightarrow> param_value list \<Rightarrow> 'd leg_not_certified + leg_plan" where
  "certify_lookup of_one d source theirs table js keys filters params =
     bind_res (map_err MetricNotAgreed (agrees_on of_one d theirs)) (\<lambda>m.
     bind_res (statement_of d source table js (crossed_into d m)) (\<lambda>st.
     let s = surface_of_lookup d m (sm_root st) in
     bind_res (declared_joins js s) (\<lambda>_.
     bind_res (certified_keys d s js st None keys) (\<lambda>keys.
     bind_res (certified_filters filters st 0) (\<lambda>_.
     bind_res (declared_filters filters params s js (\<lambda>_. False)) (\<lambda>_.
     bind_res (map_err BindingsNotCertified (plan_bindings_parse filters params)) (\<lambda>bindings.
       Inr (LegLookup source theirs (sm_tables st) keys bindings))))))))"

definition certify ::
  "(metric \<Rightarrow> 'd + string) \<Rightarrow> definitions \<Rightarrow> leg_wire \<Rightarrow> param_value list \<Rightarrow> 'd leg_not_certified + leg_plan" where
  "certify of_one d wire params =
     (case wire of
        WireFact source metric table js bucket keys terms filters rng \<Rightarrow>
          certify_fact of_one d source metric table js bucket keys terms filters rng params
      | WireLookup source metric table js keys filters \<Rightarrow>
          certify_lookup of_one d source metric table js keys filters params)"

section \<open>What a certified leg reads\<close>

text \<open>A column of a table of the statement that a model of this node declares on this data system.\<close>

definition declared_column :: "definitions \<Rightarrow> name \<Rightarrow> statement_tables \<Rightarrow> plan_column \<Rightarrow> bool" where
  "declared_column d source tables c \<longleftrightarrow>
     (\<exists>m \<in> set (bt_values (defs_models d)). model_source m = source
        \<and> model_table m \<in> set (st_table tables # map pj_table (st_joins tables))
        \<and> model_table_name m = pcol_table c \<and> has_column m (pcol_column c))"

definition leg_columns :: "leg_plan \<Rightarrow> plan_column list" where
  "leg_columns leg =
     map pkey_column (lp_keys leg) @ map (\<lambda>t. plan_term_column (lt_term t)) (lp_terms leg)
     @ map (\<lambda>f. pp_column (pf_predicate f)) (lp_filters leg)
     @ (case leg of LegFact _ _ _ b _ _ _ _ \<Rightarrow> [pb_column b] | LegLookup _ _ _ _ _ \<Rightarrow> [])"

lemma map_snd_enumerated: "map (\<lambda>x. f (snd x)) (enumerated xs) = map f xs"
proof -
  have "map (f \<circ> snd) (enumerated xs) = map f (map snd (enumerated xs))" by simp
  also have "map snd (enumerated xs) = xs" by (simp add: enumerated_def)
  finally show ?thesis by (simp add: comp_def)
qed

lemma find_SomeD: "List.find P xs = Some x \<Longrightarrow> x \<in> set xs \<and> P x"
  by (auto simp: find_Some_iff in_set_conv_nth)

lemma declared_hop_ok:
  "declared_hop d source n = Inr (r, target) \<Longrightarrow>
     bt_get (defs_relationships d) n = Some r \<and> target \<in> set (bt_values (defs_models d)) \<and> model_source target = source"
  by (force simp: declared_hop_def res_simps split: option.splits if_splits dest: map_of_SomeD)

lemma joined_hop_table: "joined_hop models (i, r, target) = Inr j \<Longrightarrow> pj_table j = model_table target \<and> pj_relationship j = rel_name r"
  by (auto simp: joined_hop_def res_simps plan_hop_def)

lemma statement_of_ok:
  assumes "(statement_of d source table js reads :: 'd leg_not_certified + _) = Inr st"
  shows "sm_root st \<in> set (sm_models st)" "model_table (sm_root st) = table" "reads (sm_root st)"
    and "\<forall>m \<in> set (sm_models st). m \<in> set (bt_values (defs_models d)) \<and> model_source m = source
        \<and> model_table m \<in> set (st_table (sm_tables st) # map pj_table (st_joins (sm_tables st)))"
    and "st_table (sm_tables st) = table"
proof -
  from assms obtain base declared joined tables where
    root: "List.find (\<lambda>m. model_table m = table \<and> model_source m = source \<and> reads m) (bt_values (defs_models d)) = Some base"
    and hops: "(traverse (declared_hop d source) js :: 'd leg_not_certified + _) = Inr declared"
    and joins: "(traverse (joined_hop (base # map snd declared)) (enumerated declared) :: 'd leg_not_certified + _) = Inr joined"
    and tables: "statement_tables_parse table joined = Inr tables"
    and st: "st = \<lparr>sm_root = base, sm_models = base # map snd declared, sm_tables = tables\<rparr>"
    unfolding statement_of_def Let_def by (auto simp: res_simps)
  note r = find_SomeD [OF root]
  have t: "st_table tables = table" "st_joins tables = joined" using tables by (auto simp: statement_tables_ok)
  have "list_all2 (\<lambda>x y. (joined_hop (base # map snd declared) x :: 'd leg_not_certified + _) = Inr y) (enumerated declared) joined"
    using joins by (simp add: traverse_eq_Inr)
  then have "list_all2 (\<lambda>x y. model_table (snd (snd x)) = pj_table y) (enumerated declared) joined"
    by (rule list_all2_mono) (auto dest: joined_hop_table)
  then have "map (\<lambda>x. model_table (snd (snd x))) (enumerated declared) = map pj_table joined" by (rule list_all2_map_eq) simp
  then have js: "map pj_table joined = map (\<lambda>x. model_table (snd x)) declared" 
    using map_snd_enumerated [of "\<lambda>x. model_table (snd x)" declared] by simp
  have "m \<in> set (bt_values (defs_models d)) \<and> model_source m = source" if "m \<in> set (map snd declared)" for m
    using that traverse_image [OF hops] by (force dest: declared_hop_ok)
  with r t js show "sm_root st \<in> set (sm_models st)" "model_table (sm_root st) = table" "reads (sm_root st)"
    "\<forall>m \<in> set (sm_models st). m \<in> set (bt_values (defs_models d)) \<and> model_source m = source
        \<and> model_table m \<in> set (st_table (sm_tables st) # map pj_table (st_joins (sm_tables st)))"
    "st_table (sm_tables st) = table"
    by (auto simp: st image_image)
qed

lemma certifies_declared:
  assumes "statement_of d source table js reads = Inr st" and "certifies st c = Inr ()"
  shows "declared_column d source (sm_tables st) c"
  using assms(2) statement_of_ok(4) [OF assms(1)] unfolding certifies_def res_simps list_ex_iff declared_column_def by blast

lemma certified_key_ok:
  "(certified_key d s js st measured k :: 'd leg_not_certified + _) = Inr key \<Longrightarrow>
     certifies st (wk_column k) = (Inr () :: 'd leg_not_certified + unit) \<and> key = plan_key_new (into_label (wk_label k)) (wk_column k)"
  by (auto simp: certified_key_def res_simps Let_def certifies_def)

lemma certified_keys_ok:
  assumes "(certified_keys d s js st measured wire :: 'd leg_not_certified + _) = Inr keys"
  shows "keys = map (\<lambda>k. plan_key_new (into_label (wk_label k)) (wk_column k)) wire"
    and "\<forall>k \<in> set keys. certifies st (pkey_column k) = (Inr () :: 'd leg_not_certified + unit)"
proof -
  from assms have "list_all2 (\<lambda>k key. (certified_key d s js st measured k :: 'd leg_not_certified + _) = Inr key) wire keys"
    by (auto simp: certified_keys_def res_simps traverse_eq_Inr)
  then have all: "list_all2 (\<lambda>k key. certifies st (wk_column k) = (Inr () :: 'd leg_not_certified + unit)
      \<and> key = plan_key_new (into_label (wk_label k)) (wk_column k)) wire keys"
    by (rule list_all2_mono) (rule certified_key_ok)
  then have "list_all2 (\<lambda>k key. plan_key_new (into_label (wk_label k)) (wk_column k) = key) wire keys"
    by (rule list_all2_mono) auto
  from list_all2_map_eq [OF this, where g = "\<lambda>x. x"] show "keys = map (\<lambda>k. plan_key_new (into_label (wk_label k)) (wk_column k)) wire" by simp
  with all show "\<forall>k \<in> set keys. certifies st (pkey_column k) = (Inr () :: 'd leg_not_certified + unit)"
    by (auto simp: list_all2_map2 list_all2_same plan_key_new_def)
qed

lemma certified_terms_ok:
  assumes "(certified_terms wire st measured :: 'd leg_not_certified + _) = Inr terms"
  shows "terms = map (\<lambda>t. \<lparr>lt_term = wt_term t, lt_label = into_label (wt_label t)\<rparr>) wire"
    and "\<forall>t \<in> set terms. certifies st (plan_term_column (lt_term t)) = (Inr () :: 'd leg_not_certified + unit)"
proof -
  from assms have "list_all2 (\<lambda>w t. (certified_term st measured w :: 'd leg_not_certified + _) = Inr t) wire terms"
    by (auto simp: certified_terms_def res_simps traverse_eq_Inr)
  then have all: "list_all2 (\<lambda>w t. certifies st (plan_term_column (wt_term w)) = (Inr () :: 'd leg_not_certified + unit)
      \<and> t = \<lparr>lt_term = wt_term w, lt_label = into_label (wt_label w)\<rparr>) wire terms"
    by (rule list_all2_mono) (cases measured, auto simp: certified_term_def res_simps Let_def certifies_def)
  then have "list_all2 (\<lambda>w t. \<lparr>lt_term = wt_term w, lt_label = into_label (wt_label w)\<rparr> = t) wire terms"
    by (rule list_all2_mono) auto
  from list_all2_map_eq [OF this, where g = "\<lambda>x. x"] show "terms = map (\<lambda>t. \<lparr>lt_term = wt_term t, lt_label = into_label (wt_label t)\<rparr>) wire" by simp
  with all show "\<forall>t \<in> set terms. certifies st (plan_term_column (lt_term t)) = (Inr () :: 'd leg_not_certified + unit)"
    by (auto simp: list_all2_map2 list_all2_same)
qed

text \<open>What certification requires of a fact leg, and of a lookup leg.\<close>

lemma certified_filters_ok:
  "(certified_filters wire st n :: 'd leg_not_certified + _) = Inr () \<Longrightarrow>
     \<forall>f \<in> set wire. certifies st (pp_column (pf_predicate f)) = (Inr () :: 'd leg_not_certified + unit)"
  by (simp add: certified_filters_def res_simps)

lemma certify_fact_ok:
  assumes "(certify_fact of_one d source theirs table js bucket keys terms filters rng params :: 'd leg_not_certified + _) = Inr leg"
  obtains m st pkeys lterms bindings where
    "agrees_on of_one d theirs = Inr m"
    "(statement_of d source table js (reads_for m) :: 'd leg_not_certified + _) = Inr st"
    "(certified_bucket d m source st bucket :: 'd leg_not_certified + _) = Inr ()" "range_days rng \<le> MAX_RANGE_DAYS"
    "(certified_terms terms st (met_name m, measured_columns d m) :: 'd leg_not_certified + _) = Inr lterms"
    "(certified_keys d (fact_surface d m st (wb_column bucket)) js st (Some (met_name m, measured_columns d m)) keys :: 'd leg_not_certified + _) = Inr pkeys"
    "(certified_filters filters st (length (required_here d m table)) :: 'd leg_not_certified + _) = Inr ()"
    "bounded_by_range rng (wb_column bucket) filters params"
    "List.find (\<lambda>r. \<not> list_ex (is_required (model_table_name (sm_root st)) params r) filters) (required_here d m table) = None"
    "(declared_filters (drop 2 filters) params (fact_surface d m st (wb_column bucket)) js
        (\<lambda>f. list_ex (\<lambda>r. is_required (model_table_name (sm_root st)) params r f) (required_here d m table)) :: 'd leg_not_certified + _) = Inr ()"
    "plan_bindings_parse filters params = Inr bindings"
    "leg = LegFact source theirs (sm_tables st) \<lparr>pb_label = label_bucket, pb_grain = wb_grain bucket, pb_column = wb_column bucket\<rparr>
        pkeys lterms bindings rng"
proof -
  from assms show thesis
    unfolding certify_fact_def Let_def bind_res_eq_Inr ensure_eq_Inr map_err_eq_Inr
    by (elim exE conjE) (rule that, (assumption | simp split: option.splits)+)
qed

lemma certify_lookup_ok:
  assumes "(certify_lookup of_one d source theirs table js keys filters params :: 'd leg_not_certified + _) = Inr leg"
  obtains m st pkeys bindings where
    "agrees_on of_one d theirs = Inr m"
    "(statement_of d source table js (crossed_into d m) :: 'd leg_not_certified + _) = Inr st"
    "(certified_keys d (surface_of_lookup d m (sm_root st)) js st None keys :: 'd leg_not_certified + _) = Inr pkeys"
    "(certified_filters filters st 0 :: 'd leg_not_certified + _) = Inr ()"
    "(declared_filters filters params (surface_of_lookup d m (sm_root st)) js (\<lambda>_. False) :: 'd leg_not_certified + _) = Inr ()"
    "plan_bindings_parse filters params = Inr bindings"
    "leg = LegLookup source theirs (sm_tables st) pkeys bindings"
  using assms unfolding certify_lookup_def Let_def bind_res_eq_Inr map_err_eq_Inr
  by (elim exE conjE) (rule that, (assumption | simp)+)

lemma bindings_are: "plan_bindings_parse filters params = Inr b \<Longrightarrow> b = \<lparr>pbs_filters = filters, pbs_params = params\<rparr>"
  by (auto simp: plan_bindings_parse_def res_simps split: if_splits)

lemma agrees_on_ok:
  "agrees_on of_one d theirs = Inr m \<Longrightarrow> bt_get (defs_metrics d) (md_metric theirs) = Some m \<and> of_one m = Inr (md_digest theirs)"
  by (auto simp: agrees_on_def res_simps split: option.splits if_splits)

section \<open>What a certified leg filters by\<close>

definition reaches_declared :: "metric \<Rightarrow> surface \<Rightarrow> bool" where
  "reaches_declared m s \<longleftrightarrow> rc_dimension ` set (su_reaches s) \<subseteq> set (bt_values (met_dimensions m))"

lemma foldl_inv: "P s \<Longrightarrow> (\<And>s x. P s \<Longrightarrow> x \<in> set xs \<Longrightarrow> P (f s x)) \<Longrightarrow> P (foldl f s xs)"
  by (induction xs arbitrary: s) auto

lemma fact_surface_declared: "reaches_declared m (fact_surface d m st bucket)"
proof -
  have "reaches_declared m (add_fact_dimension d base s dm)"
    if "reaches_declared m s" "dm \<in> set (bt_values (met_dimensions m))" for base s dm
    using that unfolding reaches_declared_def add_fact_dimension_def Let_def by (auto split: option.splits)
  then show ?thesis
    unfolding fact_surface_def surface_of_fact_def Let_def
    by (auto intro!: foldl_inv [where P = "reaches_declared m"] simp: reaches_declared_def [of m "\<lparr>su_joins = _, su_reaches = _, su_links = _\<rparr>"])
qed

lemma walk_lookup_reaches: "walk_lookup base stands through hops s = (stands', through', s') \<Longrightarrow> su_reaches s' = su_reaches s"
  by (induction base stands through hops s rule: walk_lookup.induct) (auto simp: Let_def split: if_splits option.splits)

lemma lookup_surface_declared: "reaches_declared m (surface_of_lookup d m base)"
proof -
  have "reaches_declared m (add_lookup_dimension d own base s dm)"
    if "reaches_declared m s" "dm \<in> set (bt_values (met_dimensions m))" for own s dm
    using that unfolding reaches_declared_def add_lookup_dimension_def
    by (auto split: option.splits prod.splits dest!: walk_lookup_reaches)
  then show ?thesis
    unfolding surface_of_lookup_def Let_def
    by (auto intro!: foldl_inv [where P = "reaches_declared m"] simp: reaches_declared_def [of m "\<lparr>su_joins = _, su_reaches = _, su_links = _\<rparr>"]
        split: option.splits)
qed

text \<open>A requested predicate binds values a filterable dimension of the metric permits.\<close>

definition permitted_filter :: "metric \<Rightarrow> param_value list \<Rightarrow> plan_filter \<Rightarrow> bool" where
  "permitted_filter m params f \<longleftrightarrow>
     (\<exists>dm \<in> set (bt_values (met_dimensions m)). \<exists>bound. is_filterable dm \<and> bound_by (pf_predicate f) = Some bound
        \<and> (\<forall>i \<in> set bound. \<exists>t. i < length params \<and> params ! i = ParamText t \<and> dimension_value_parse t = Inr t \<and> permits dm t))"

lemma declared_filter_permitted:
  assumes "(declared_filter params s js required f :: 'd leg_not_certified + _) = Inr ()" and "reaches_declared m s"
  shows "pf_origin f = OriginDefinition \<and> required f \<or> pf_origin f = OriginRequested \<and> permitted_filter m params f"
proof (cases "pf_origin f")
  case OriginDefinition
  with assms show ?thesis by (simp add: declared_filter_def res_simps Let_def)
next
  case OriginRequested
  with assms(1) obtain bound dm where b: "bound_by (pf_predicate f) = Some bound"
    and dm: "dm \<in> set (surface_filterable s (pp_column (pf_predicate f)) js)" and "list_all (allowed_value params dm) bound"
    by (auto simp: declared_filter_def res_simps Let_def list_ex_iff split: option.splits if_splits)
  moreover from dm assms(2) have "dm \<in> set (bt_values (met_dimensions m)) \<and> is_filterable dm"
    by (auto simp: surface_filterable_def reached_on_def reaches_declared_def)
  moreover have "\<exists>t. i < length params \<and> params ! i = ParamText t \<and> dimension_value_parse t = Inr t \<and> permits dm t"
    if "allowed_value params dm i" for i
    using that by (auto simp: allowed_value_def get_at_def dimension_value_parse_def res_simps split: option.splits param_value.splits sum.splits if_splits)
  ultimately show ?thesis using OriginRequested unfolding permitted_filter_def by (auto simp: list_all_iff)
qed

section \<open>A leg comes back as it was sent\<close>

fun leg_with_tables :: "statement_tables \<Rightarrow> leg_plan \<Rightarrow> leg_plan" where
  "leg_with_tables tables (LegFact s m _ b ks ts bs rng) = LegFact s m tables b ks ts bs rng"
| "leg_with_tables tables (LegLookup s m _ ks bs) = LegLookup s m tables ks bs"

text \<open>Labels as the catalog and the planner write them: without blanks around, and the bucket under its fixed label.\<close>

definition plain_labels :: "leg_plan \<Rightarrow> bool" where
  "plain_labels leg \<longleftrightarrow>
     (\<forall>l \<in> set (lp_key_labels leg @ map (\<lambda>t. label_str (lt_label t)) (lp_terms leg)). trim (codes l) = codes l)
     \<and> (case leg of LegFact _ _ _ b _ _ _ _ \<Rightarrow> pb_label b = label_bucket | LegLookup _ _ _ _ _ \<Rightarrow> True)"

lemma wire_key_back:
  assumes "wire_key_of key = Inr k" and "trim (codes (label_str (pkey_label key))) = codes (label_str (pkey_label key))"
  shows "plan_key_new (into_label (wk_label k)) (wk_column k) = key"
  using assms wire_label_parse_text(2) [of "label_str (pkey_label key)" "wk_label k"]
  by (cases key) (auto simp: wire_key_of_def plan_key_value_def plan_key_new_def res_simps split: key_value.splits option.splits)

lemma wire_term_back:
  assumes "wire_term_of t = Inr w" and "trim (codes (label_str (lt_label t))) = codes (label_str (lt_label t))"
  shows "\<lparr>lt_term = wt_term w, lt_label = into_label (wt_label w)\<rparr> = t"
  using assms wire_label_parse_text(2) [of "label_str (lt_label t)" "wt_label w"]
  by (cases t) (auto simp: wire_term_of_def res_simps)

lemma traverse_back:
  assumes "traverse f xs = Inr ys" and "\<And>x y. x \<in> set xs \<Longrightarrow> f x = Inr y \<Longrightarrow> g y = x"
  shows "map g ys = xs"
  using assms by (induction xs arbitrary: ys) (auto simp: res_simps)

section \<open>A sample\<close>

definition sample_dates :: time_range where
  "sample_dates = \<lparr>range_start = Date 2024 1 1, range_end = Date 2024 1 2\<rparr>"

definition sample_sent :: leg_plan where
  "sample_sent =
     (let c = \<lambda>t n. \<lparr>pcol_table = t, pcol_column = n\<rparr>; hop = \<lambda>r t k. \<lparr>pj_relationship = r, pj_table = \<lparr>qt_qualifier = None, qt_table = t\<rparr>, pj_join_type = ManyToOne, pj_keys = k\<rparr> in
      LegFact ''s'' \<lparr>md_metric = ''m'', md_digest = ''d''\<rparr>
       \<lparr>st_table = \<lparr>qt_qualifier = None, qt_table = ''ta''\<rparr>,
         st_joins = [hop ''ab'' ''tb'' (ne_one (PlanEqual (c ''ta'' ''k'') (c ''tb'' ''k''))), hop ''bc'' ''tc'' (ne_one (PlanEqual (c ''tb'' ''r'') (c ''tc'' ''r'')))]\<rparr>
       \<lparr>pb_label = label_bucket, pb_grain = Day, pb_column = c ''ta'' ''d''\<rparr>
       [\<lparr>pkey_label = ResultLabel ''x'', pkey_column = c ''tc'' ''l'', pkey_grain = None\<rparr>]
       [\<lparr>lt_term = PlanAggregate Sum (c ''ta'' ''n''), lt_label = label_internal (Leaf 0)\<rparr>]
       \<lparr>pbs_filters = [\<lparr>pf_origin = OriginDefinition, pf_predicate = AtOrAfter (c ''ta'' ''d'') 0\<rparr>,
          \<lparr>pf_origin = OriginDefinition, pf_predicate = Before (c ''ta'' ''d'') 1\<rparr>,
          \<lparr>pf_origin = OriginRequested, pf_predicate = PlanEquals (c ''tc'' ''l'') 2\<rparr>],
         pbs_params = [ParamDate (range_start sample_dates), ParamDate (range_end sample_dates), ParamText [120]]\<rparr>
       sample_dates)"


definition sample_wire :: leg_wire where
  "sample_wire =
     (let c = \<lambda>t n. \<lparr>pcol_table = t, pcol_column = n\<rparr> in
      WireFact ''s'' (lp_metric sample_sent) (st_table (lp_tables sample_sent)) [''ab'', ''bc''] \<lparr>wb_grain = Day, wb_column = c ''ta'' ''d''\<rparr>
        [\<lparr>wk_label = WireDimension ''x'', wk_column = c ''tc'' ''l''\<rparr>]
        [\<lparr>wt_label = WireInternal (Leaf 0), wt_term = PlanAggregate Sum (c ''ta'' ''n'')\<rparr>]
        (lp_filters sample_sent) sample_dates)"

lemma sample_labels: "wire_label_parse (codes ''x'') = Inr (WireDimension ''x'')"
  "wire_label_parse (codes (internal_text (Leaf 0))) = Inr (WireInternal (Leaf 0))"
proof -
  have x: "parse_identifier (codes ''x'') = Inr ''x''" unfolding parse_identifier_def
    by (rule parse_name_codes) (simp add: well_named_def admits_def is_ascii_alphanumeric_def is_ascii_alphabetic_def)
  have "internal_label_parse (codes ''x'') = None"
    by (simp add: internal_label_parse_def strip_prefix_def LEAF_def LINK_def)
  with x show "wire_label_parse (codes ''x'') = Inr (WireDimension ''x'')" by (simp add: wire_label_parse_def)
  show "wire_label_parse (codes (internal_text (Leaf 0))) = Inr (WireInternal (Leaf 0))"
    using internal_label_parses [of "Leaf 0"] by (simp add: wire_label_parse_def)
qed

lemma sample_to_wire: "to_wire sample_sent = Inr sample_wire"
  using sample_labels by (simp add: to_wire_def sample_sent_def sample_wire_def Let_def wire_key_of_def wire_term_of_def plan_key_value_def
      leg_joins_def lp_filters_def label_internal_def)

definition sample_statement :: statement where
  "sample_statement =
     \<lparr>sm_root = sample_model ''a'' ''s'' ''ta'' [''d'', ''n'', ''k''],
      sm_models = [sample_model ''a'' ''s'' ''ta'' [''d'', ''n'', ''k''], sample_model ''b'' ''s'' ''tb'' [''k'', ''r''], sample_model ''c'' ''s'' ''tc'' [''r'', ''l'']],
      sm_tables = lp_tables sample_sent\<rparr>"

lemma sample_model_parts: "model_name (sample_model n s t c) = n" "model_source (sample_model n s t c) = s"
  "model_table (sample_model n s t c) = \<lparr>qt_qualifier = None, qt_table = t\<rparr>"
  by (simp_all add: sample_model_def model_new_def)

lemma sample_statement_of:
  "statement_of (sample_definitions ''x'') ''s'' \<lparr>qt_qualifier = None, qt_table = ''ta''\<rparr> [''ab'', ''bc''] (reads_for (sample_metric ''x''))
     = Inr sample_statement"
proof -
  have tables: "bt_values (defs_models (sample_definitions ''x'')) = sample_models" "length (defs_relationships (sample_definitions ''x'')) = 2"
    by (simp_all add: sample_definitions_def sample_relationships_def comp_def)
  show ?thesis
    by (simp add: statement_of_def tables within_limit_def ensure_def sample_models_def sample_model_parts reads_for_def sample_parts
        declared_hop_def sample_gets relationship_new_def enumerated_def joined_hop_def sat_add_usize_def usize_max_def plan_hop_def plan_hop_key_def
        model_table_name_def sample_statement_def sample_sent_def Let_def ne_map_def ne_one_def statement_tables_parse_def one_table_def label_eval)
qed

definition sample_surface :: surface where
  "sample_surface = \<lparr>su_joins = [''ab'', ''bc''],
     su_reaches = [\<lparr>rc_dimension = \<lparr>dim_name = ''x'', dim_column = ''l'', dim_via = Some [''ab'', ''bc''],
        dim_allowed_values = Some [[120]], dim_description = []\<rparr>, rc_column = \<lparr>pcol_table = ''tc'', pcol_column = ''l''\<rparr>,
        rc_through = [''ab'', ''bc'']\<rparr>], su_links = []\<rparr>"

lemma sample_fact_surface: "fact_surface (sample_definitions ''x'') (sample_metric ''x'') sample_statement \<lparr>pcol_table = ''ta'', pcol_column = ''d''\<rparr> = sample_surface"
proof -
  have d: "bt_values (met_dimensions (sample_metric ''x'')) = [\<lparr>dim_name = ''x'', dim_column = ''l'', dim_via = Some [''ab'', ''bc''],
        dim_allowed_values = Some [[120]], dim_description = []\<rparr>]" by (simp add: sample_metric_def)
  show ?thesis
    by (simp add: fact_surface_def surface_of_fact_def d sample_statement_def sample_model_parts model_table_name_def sample_parts add_fact_dimension_def
        chain_hops_def sample_gets relationship_new_def sample_surface_def own_column_def Let_def)
qed

abbreviation sample_column_at :: "name \<Rightarrow> name \<Rightarrow> plan_column" where
  "sample_column_at t n \<equiv> \<lparr>pcol_table = t, pcol_column = n\<rparr>"

lemma sent_m: "bt_get (defs_metrics (sample_definitions ''x'')) ''m'' = Some (sample_metric ''x'')" by (simp add: sample_definitions_def)

lemma sent_days: "range_days sample_dates = 1" using sample_range_days by (simp add: sample_question_def sample_dates_def)

lemma sent_columns: "certifies sample_statement (sample_column_at ''ta'' ''d'') = Inr ()" "certifies sample_statement (sample_column_at ''ta'' ''n'') = Inr ()"
    "certifies sample_statement (sample_column_at ''tc'' ''l'') = Inr ()"
  by (simp_all add: certifies_def sample_statement_def sample_model_parts model_table_name_def has_column_def sample_model_def model_new_def sample_column_def column_of_name_def ensure_def less_char_def)

lemma sent_reach: "surface_reaches sample_surface ''x'' (sample_column_at ''tc'' ''l'') [''ab'', ''bc'']" 
  by (simp add: surface_reaches_def reached_on_def sample_surface_def)

lemma sent_filterable: "surface_filterable sample_surface (sample_column_at ''tc'' ''l'') [''ab'', ''bc''] = [rc_dimension (hd (su_reaches sample_surface))]"
  by (simp add: surface_filterable_def reached_on_def sample_surface_def is_filterable_def)

lemma sent_given: "dimension_value_parse [120] = Inr [120]"
  by (simp add: dimension_value_parse_def authored_scalar_ok res_simps plain_line_def is_control_def is_invisible_def is_whitespace_def)

lemma sent_allowed: "allowed_value (lp_params sample_sent) (rc_dimension (hd (su_reaches sample_surface))) 2"
  by (simp add: allowed_value_def get_at_def lp_params_def sample_sent_def Let_def sample_surface_def permits_def sent_given)

lemma sent_max_keys: "max_keys (sample_definitions ''x'') \<ge> 1" by (simp add: max_keys_def sat_add_usize_def usize_max_def)

lemma sent_bindings: "plan_bindings_parse (lp_filters sample_sent) (lp_params sample_sent) = Inr (lp_bindings sample_sent)"
  by (simp add: plan_bindings_parse_def lp_filters_def lp_params_def sample_sent_def Let_def sat_add_usize_def usize_max_def)

lemma sent_key: "certified_key (sample_definitions ''x'') sample_surface [''ab'', ''bc''] sample_statement (Some (''m'', measured_columns (sample_definitions ''x'') (sample_metric ''x'')))
      \<lparr>wk_label = WireDimension ''x'', wk_column = sample_column_at ''tc'' ''l''\<rparr> = Inr \<lparr>pkey_label = ResultLabel ''x'', pkey_column = sample_column_at ''tc'' ''l'', pkey_grain = None\<rparr>"
  by (simp add: certified_key_def sent_columns sent_reach ensure_def plan_key_new_def label_dimension_def)

lemma sent_measured: "measured_columns (sample_definitions ''x'') (sample_metric ''x'') = [sample_column_at ''ta'' ''n'']"
  by (simp add: measured_columns_def sample_parts sample_gets measure_columns_def measure_models_def List.map_filter_simps own_column_def model_table_name_def sample_model_parts)

lemma sent_root: "model_table_name (sm_root sample_statement) = ''ta''" by (simp add: sample_statement_def sample_model_parts model_table_name_def)

lemma sent_trm: "certified_term sample_statement (''m'', [sample_column_at ''ta'' ''n'']) \<lparr>wt_label = WireInternal (Leaf 0), wt_term = PlanAggregate Sum (sample_column_at ''ta'' ''n'')\<rparr>
      = Inr \<lparr>lt_term = PlanAggregate Sum (sample_column_at ''ta'' ''n''), lt_label = label_internal (Leaf 0)\<rparr>"
  by (simp add: certified_term_def ensure_def sent_root sent_columns Let_def)

lemma sent_bucket: "certified_bucket (sample_definitions ''x'') (sample_metric ''x'') ''s'' sample_statement \<lparr>wb_grain = Day, wb_column = sample_column_at ''ta'' ''d''\<rparr> = Inr ()"
  by (simp add: certified_bucket_def sent_columns ensure_def supports_grain_def sample_metric_def time_column_on_def crosses_models_def
        met_measure_def measure_models_def List.map_filter_simps sample_gets own_column_def model_table_name_def sample_model_parts)

lemma sent_required: "required_here (sample_definitions ''x'') (sample_metric ''x'') t = []" for t by (simp add: required_here_def sample_parts)

lemma sent_filters: "lp_filters sample_sent = [\<lparr>pf_origin = OriginDefinition, pf_predicate = AtOrAfter (sample_column_at ''ta'' ''d'') 0\<rparr>,
          \<lparr>pf_origin = OriginDefinition, pf_predicate = Before (sample_column_at ''ta'' ''d'') 1\<rparr>,
          \<lparr>pf_origin = OriginRequested, pf_predicate = PlanEquals (sample_column_at ''tc'' ''l'') 2\<rparr>]"
  by (simp add: lp_filters_def sample_sent_def Let_def)

lemma sent_params: "lp_params sample_sent = [ParamDate (range_start sample_dates), ParamDate (range_end sample_dates), ParamText [120]]"
  by (simp add: lp_params_def sample_sent_def Let_def)

lemma sent_bounded: "bounded_by_range sample_dates (sample_column_at ''ta'' ''d'') (lp_filters sample_sent) (lp_params sample_sent)"
  by (simp add: bounded_by_range_def range_filters_def sent_filters sent_params sat_add_usize_def usize_max_def)

lemma sent_agreed: "agrees_on (\<lambda>_. Inr ''d'') (sample_definitions ''x'') (lp_metric sample_sent) = Inr (sample_metric ''x'')"
  by (simp add: agrees_on_def sent_m sample_sent_def Let_def)

lemma sent_declared: "declared_filters (drop 2 (lp_filters sample_sent)) (lp_params sample_sent) sample_surface [''ab'', ''bc''] P = Inr ()" for P
  by (simp add: declared_filters_def sent_filters declared_filter_def sent_filterable sent_allowed ensure_def)

lemma sent_filters_certified: "certified_filters (lp_filters sample_sent) sample_statement 0 = Inr ()"
  by (simp add: certified_filters_def sent_filters sent_columns within_limit_def ensure_def sat_add_usize_def usize_max_def MAX_FILTERS_def)

lemma sent_keys: "certified_keys (sample_definitions ''x'') sample_surface [''ab'', ''bc''] sample_statement (Some (''m'', [sample_column_at ''ta'' ''n''])) [\<lparr>wk_label = WireDimension ''x'', wk_column = sample_column_at ''tc'' ''l''\<rparr>]
      = Inr [\<lparr>pkey_label = ResultLabel ''x'', pkey_column = sample_column_at ''tc'' ''l'', pkey_grain = None\<rparr>]"
    using sent_max_keys by (simp add: certified_keys_def sent_key [unfolded sent_measured] within_limit_def ensure_def links_of_def List.map_filter_simps bs_of_def)

lemma sent_joins: "declared_joins [''ab'', ''bc''] sample_surface = Inr ()" by (simp add: declared_joins_def sample_surface_def)

lemma sent_calendar: "certified_calendar (sample_definitions ''x'') (sample_metric ''x'') sample_statement (sample_column_at ''ta'' ''d'') js = Inr ()" for js
  by (simp add: certified_calendar_def ensure_def sample_statement_def sample_model_parts model_table_name_def)

lemma sent_tables: "st_table (lp_tables sample_sent) = \<lparr>qt_qualifier = None, qt_table = ''ta''\<rparr>" by (simp add: sample_sent_def Let_def)

lemma sent_leg: "sample_sent = LegFact ''s'' (lp_metric sample_sent) (lp_tables sample_sent) \<lparr>pb_label = label_bucket, pb_grain = Day, pb_column = sample_column_at ''ta'' ''d''\<rparr>
      [\<lparr>pkey_label = ResultLabel ''x'', pkey_column = sample_column_at ''tc'' ''l'', pkey_grain = None\<rparr>]
      [\<lparr>lt_term = PlanAggregate Sum (sample_column_at ''ta'' ''n''), lt_label = label_internal (Leaf 0)\<rparr>] (lp_bindings sample_sent) sample_dates"
  by (simp add: sample_sent_def Let_def)

lemma sent_st: "sm_tables sample_statement = lp_tables sample_sent" by (simp add: sample_statement_def)

lemma sample_certified:
  "certify (\<lambda>_. Inr ''d'') (sample_definitions ''x'') sample_wire (lp_params sample_sent) = Inr sample_sent"
proof -
  have "certify_fact (\<lambda>_. Inr ''d'') (sample_definitions ''x'') ''s'' (lp_metric sample_sent) \<lparr>qt_qualifier = None, qt_table = ''ta''\<rparr> [''ab'', ''bc'']
      \<lparr>wb_grain = Day, wb_column = sample_column_at ''ta'' ''d''\<rparr> [\<lparr>wk_label = WireDimension ''x'', wk_column = sample_column_at ''tc'' ''l''\<rparr>]
      [\<lparr>wt_label = WireInternal (Leaf 0), wt_term = PlanAggregate Sum (sample_column_at ''ta'' ''n'')\<rparr>] (lp_filters sample_sent) sample_dates (lp_params sample_sent)
    = Inr (LegFact ''s'' (lp_metric sample_sent) (lp_tables sample_sent) \<lparr>pb_label = label_bucket, pb_grain = Day, pb_column = sample_column_at ''ta'' ''d''\<rparr>
      [\<lparr>pkey_label = ResultLabel ''x'', pkey_column = sample_column_at ''tc'' ''l'', pkey_grain = None\<rparr>]
      [\<lparr>lt_term = PlanAggregate Sum (sample_column_at ''ta'' ''n''), lt_label = label_internal (Leaf 0)\<rparr>] (lp_bindings sample_sent) sample_dates)"
    unfolding certify_fact_def sent_agreed res_simps map_err_simps Let_def
  by (simp add: sample_statement_of sent_bucket sent_days MAX_RANGE_DAYS_def ensure_def sent_measured certified_terms_def within_limit_def MAX_TERMS_def sent_trm
        sample_parts sample_fact_surface sent_joins sent_calendar sent_keys sent_required sent_filters_certified sent_bounded sent_declared sent_bindings sent_st)
  then show ?thesis using sent_leg by (simp add: certify_def sample_wire_def Let_def sent_tables)
qed

section \<open>Properties\<close>

text \<open>
  C?: a leg a node certifies, whatever document arrives, is one its own definitions allow: it is of a
  metric defined here under the same digest, on the data system, table, filters and parameters of the document, and every column
  it selects, groups, filters or buckets by is a declared column of a model of that data system whose
  table the statement reads or joins.
\<close>

theorem certified_leg_declared:
  assumes "certify of_one d w params = Inr leg"
  shows "(\<forall>c \<in> set (leg_columns leg). declared_column d (lp_source leg) (lp_tables leg) c)
     \<and> lp_source leg = wire_source w \<and> lp_metric leg = wire_metric w \<and> st_table (lp_tables leg) = wire_table w
     \<and> lp_filters leg = wire_filters w \<and> lp_params leg = params
     \<and> (\<exists>m. bt_get (defs_metrics d) (md_metric (lp_metric leg)) = Some m \<and> of_one m = Inr (md_digest (lp_metric leg)))"
proof (cases w)
  case (WireFact source theirs table js bucket keys terms filters rng)
  with assms have "certify_fact of_one d source theirs table js bucket keys terms filters rng params = Inr leg" by (simp add: certify_def)
  then show ?thesis
  proof (rule certify_fact_ok, goal_cases)
    case (1 m st pkeys lterms bindings)
    note declared = certifies_declared [OF 1(2)]
    show ?case using 1(3) certified_keys_ok(2) [OF 1(6)] certified_terms_ok(2) [OF 1(5)] certified_filters_ok [OF 1(7)]
        agrees_on_ok [OF 1(1)] bindings_are [OF 1(11)] statement_of_ok(5) [OF 1(2)] declared WireFact 1(12)
      by (auto simp: leg_columns_def lp_filters_def lp_params_def certified_bucket_def res_simps)
  qed
next
  case (WireLookup source theirs table js keys filters)
  with assms have "certify_lookup of_one d source theirs table js keys filters params = Inr leg" by (simp add: certify_def)
  then show ?thesis
  proof (rule certify_lookup_ok, goal_cases)
    case (1 m st pkeys bindings)
    note declared = certifies_declared [OF 1(2)]
    show ?case using certified_keys_ok(2) [OF 1(3)] certified_filters_ok [OF 1(4)]
        agrees_on_ok [OF 1(1)] bindings_are [OF 1(6)] statement_of_ok(5) [OF 1(2)] declared WireLookup 1(7)
      by (auto simp: leg_columns_def lp_filters_def lp_params_def)
  qed
qed

theorem certified_leg_declared_witness:
  "leg_columns sample_sent \<noteq> [] \<and> (\<forall>c \<in> set (leg_columns sample_sent). declared_column (sample_definitions ''x'') ''s'' (lp_tables sample_sent) c)"
proof -
  have "lp_source sample_sent = ''s''" "leg_columns sample_sent \<noteq> []" by (simp_all add: sample_sent_def leg_columns_def Let_def)
  with certified_leg_declared [OF sample_certified] show ?thesis by metis
qed

text \<open>
  C?: no sender can widen what a leg filters by. Every predicate a question asked for binds values that a
  filterable dimension of the metric permits; a fact leg is bounded by its own range on its bucket column,
  which is no longer than the bound on questions, and has every required filter of the metric when it reads
  the metric's own table; a lookup leg has no predicate but what the question asked for.
\<close>

theorem certified_leg_filtered:
  assumes "certify of_one d w params = Inr leg"
  shows "\<exists>m. bt_get (defs_metrics d) (md_metric (wire_metric w)) = Some m
     \<and> (\<forall>f \<in> set (lp_filters leg). pf_origin f = OriginRequested \<longrightarrow> permitted_filter m params f)
     \<and> (case leg of
          LegFact _ _ tables b _ _ _ rng \<Rightarrow> bounded_by_range rng (pb_column b) (lp_filters leg) params \<and> range_days rng \<le> 3653
            \<and> (\<forall>own. bt_get (defs_models d) (met_model m) = Some own \<and> model_table own = st_table tables \<longrightarrow>
                 (\<forall>r \<in> set (met_required_filters m). \<exists>f \<in> set (lp_filters leg). is_required (qt_table (st_table tables)) params r f))
        | LegLookup _ _ _ _ _ \<Rightarrow> \<forall>f \<in> set (lp_filters leg). pf_origin f = OriginRequested)"
proof (cases w)
  case (WireFact source theirs table js bucket keys terms filters rng)
  with assms have "certify_fact of_one d source theirs table js bucket keys terms filters rng params = Inr leg" by (simp add: certify_def)
  then show ?thesis
  proof (rule certify_fact_ok, goal_cases)
    case (1 m st pkeys lterms bindings)
    have split: "filters = take 2 filters @ drop 2 filters" by simp
    have range: "\<forall>f \<in> set (take 2 filters). pf_origin f = OriginDefinition"
      using 1(8) by (auto simp: bounded_by_range_def range_filters_def)
    have asked: "permitted_filter m params f" if "f \<in> set filters" "pf_origin f = OriginRequested" for f
    proof -
      from that range have "f \<in> set (drop 2 filters)" by (metis UnE predicate_origin.distinct(1) set_append split)
      with 1(10) declared_filter_permitted [OF _ fact_surface_declared] that(2) show ?thesis
        by (force simp: declared_filters_def res_simps)
    qed
    have required: "\<exists>f \<in> set filters. is_required (qt_table table) params r f"
      if "bt_get (defs_models d) (met_model m) = Some own" "model_table own = table" "r \<in> set (met_required_filters m)" for own r
      using that 1(9) statement_of_ok(2) [OF 1(2)]
      by (auto simp: find_None_iff required_here_def list_ex_iff model_table_name_def)
    show ?case using asked required range 1(4,8) agrees_on_ok [OF 1(1)] bindings_are [OF 1(11)] statement_of_ok(5) [OF 1(2)] WireFact 1(12)
      by (auto simp: lp_filters_def MAX_RANGE_DAYS_def)
  qed
next
  case (WireLookup source theirs table js keys filters)
  with assms have "certify_lookup of_one d source theirs table js keys filters params = Inr leg" by (simp add: certify_def)
  then show ?thesis
  proof (rule certify_lookup_ok, goal_cases)
    case (1 m st pkeys bindings)
    have "pf_origin f = OriginRequested \<and> permitted_filter m params f" if "f \<in> set filters" for f
      using that 1(5) declared_filter_permitted [OF _ lookup_surface_declared] by (force simp: declared_filters_def res_simps)
    then show ?case using agrees_on_ok [OF 1(1)] bindings_are [OF 1(6)] WireLookup 1(7) by (auto simp: lp_filters_def)
  qed
qed

theorem certified_leg_filtered_witness:
  "\<exists>f \<in> set (lp_filters sample_sent). pf_origin f = OriginRequested \<and> permitted_filter (sample_metric ''x'') (lp_params sample_sent) f"
proof -
  have "bt_get (defs_metrics (sample_definitions ''x'')) (md_metric (wire_metric sample_wire)) = Some (sample_metric ''x'')"
    by (simp add: sample_definitions_def sample_wire_def sample_sent_def Let_def)
  with certified_leg_filtered [OF sample_certified]
  have "\<forall>f \<in> set (lp_filters sample_sent). pf_origin f = OriginRequested \<longrightarrow> permitted_filter (sample_metric ''x'') (lp_params sample_sent) f" by auto
  moreover have "\<exists>f \<in> set (lp_filters sample_sent). pf_origin f = OriginRequested" by (simp add: lp_filters_def sample_sent_def Let_def)
  ultimately show ?thesis by blast
qed

text \<open>
  C?: a leg that is sent and certified arrives as the leg that was planned: the data system, metric, bucket,
  keys, terms, predicates, parameters and range are those of the sender, and only the joined tables are the
  receiver's own.
\<close>

theorem wire_roundtrip:
  assumes "(to_wire leg :: 's not_sendable + leg_wire) = Inr w" and "certify of_one d w (lp_params leg) = Inr leg'" and "plain_labels leg"
  shows "leg' = leg_with_tables (lp_tables leg') leg \<and> st_table (lp_tables leg') = st_table (lp_tables leg)"
proof (cases leg)
  case (LegFact source theirs tables bucket keys terms bindings rng)
  obtain wkeys wterms where k: "(traverse wire_key_of keys :: 's not_sendable + _) = Inr wkeys"
    and t: "(traverse wire_term_of terms :: 's not_sendable + _) = Inr wterms"
    and w: "w = WireFact source theirs (st_table tables) (leg_joins leg) \<lparr>wb_grain = pb_grain bucket, wb_column = pb_column bucket\<rparr>
      wkeys wterms (lp_filters leg) rng"
    using assms(1) LegFact by (auto simp: to_wire_def res_simps)
  have kept: "map (\<lambda>k. plan_key_new (into_label (wk_label k)) (wk_column k)) wkeys = keys"
    "map (\<lambda>t. \<lparr>lt_term = wt_term t, lt_label = into_label (wt_label t)\<rparr>) wterms = terms"
    using assms(3) LegFact traverse_back [OF k wire_key_back] traverse_back [OF t wire_term_back]
    by (auto simp: plain_labels_def lp_key_labels_def)
  have bucket: "\<lparr>pb_label = label_bucket, pb_grain = pb_grain bucket, pb_column = pb_column bucket\<rparr> = bucket"
    using assms(3) LegFact by (cases bucket) (simp add: plain_labels_def)
  have "certify_fact of_one d source theirs (st_table tables) (leg_joins leg) \<lparr>wb_grain = pb_grain bucket, wb_column = pb_column bucket\<rparr>
      wkeys wterms (lp_filters leg) rng (lp_params leg) = Inr leg'" using assms(2) w by (simp add: certify_def)
  then show ?thesis
  proof (rule certify_fact_ok, goal_cases)
    case (1 m st pkeys lterms bs)
    with kept bucket LegFact certified_keys_ok(1) [OF 1(6)] certified_terms_ok(1) [OF 1(5)] bindings_are [OF 1(11)] statement_of_ok(5) [OF 1(2)]
    show ?case by (cases bindings) (simp add: lp_filters_def lp_params_def)
  qed
next
  case (LegLookup source theirs tables keys bindings)
  obtain wkeys where k: "(traverse wire_key_of keys :: 's not_sendable + _) = Inr wkeys"
    and w: "w = WireLookup source theirs (st_table tables) (leg_joins leg) wkeys (lp_filters leg)"
    using assms(1) LegLookup by (auto simp: to_wire_def res_simps)
  have kept: "map (\<lambda>k. plan_key_new (into_label (wk_label k)) (wk_column k)) wkeys = keys"
    using assms(3) LegLookup traverse_back [OF k wire_key_back] by (auto simp: plain_labels_def lp_key_labels_def)
  have "certify_lookup of_one d source theirs (st_table tables) (leg_joins leg) wkeys (lp_filters leg) (lp_params leg) = Inr leg'"
    using assms(2) w by (simp add: certify_def)
  then show ?thesis
  proof (rule certify_lookup_ok, goal_cases)
    case (1 m st pkeys bs)
    with kept LegLookup certified_keys_ok(1) [OF 1(3)] bindings_are [OF 1(6)] statement_of_ok(5) [OF 1(2)]
    show ?case by (cases bindings) (simp add: lp_filters_def lp_params_def)
  qed
qed

theorem wire_roundtrip_witness:
  "(to_wire sample_sent :: unit not_sendable + leg_wire) = Inr sample_wire \<and> leg_with_tables (lp_tables sample_sent) sample_sent = sample_sent"
proof -
  have "plain_labels sample_sent"
    by (simp add: plain_labels_def sample_sent_def Let_def lp_key_labels_def label_internal_def trim_def LEAF_def is_whitespace_def trim_end_def trim_start_def show_nat.simps)
  with wire_roundtrip [OF sample_to_wire [where 'a = unit] sample_certified] show ?thesis using sample_to_wire by simp
qed

end
