(* ===== verification/Compile.thy ===== *)
theory Compile
  imports Planning
begin

text \<open>
  Compilation of a question (\<open>sutura-semantic/src/lib.rs\<close>): resolved against what the caller can
  see, stacked on one data system where it can be, planned otherwise, and refused where the question has
  no answer. Over an assembled catalog nothing else comes out, and what comes out is about the question
  that was asked.
\<close>

section \<open>Compiling\<close>

datatype compiled =
    CompiledPlanned query_plan
  | CompiledFederated federated_plan
  | CompiledDrillAcross drill_across_plan
  | CompiledStacked stacked_plan
  | CompiledRefused refusal_reason

datatype 'd compile_failure =
    FailedBundle bundle_inconsistent
  | FailedAuthoredSql name
  | FailedNotAssembled federated_plan_error
  | FailedNotAssembledAcross drill_across_error
  | FailedNotStacked stacked_plan_error
  | FailedNotBound incoherent_bindings
  | FailedNoRemoteJoin
  | FailedNoSecondFactModel
  | FailedNotDigestible 'd
  | FailedPanic

definition compiled_of :: "plan \<Rightarrow> compiled" where
  "compiled_of p =
     (case p of MonoPlan q \<Rightarrow> CompiledPlanned q | FedPlan f \<Rightarrow> CompiledFederated f | AcrossPlan a \<Rightarrow> CompiledDrillAcross a)"

definition failure_of :: "'d plan_error \<Rightarrow> 'd compile_failure + compiled" where
  "failure_of e =
     (case e of
        PlanRefused reason \<Rightarrow> Inr (CompiledRefused reason)
      | AuthoredSqlNotPlanned metric \<Rightarrow> Inl (FailedAuthoredSql metric)
      | NotAssembled cause \<Rightarrow> Inl (FailedNotAssembled cause)
      | NotBound cause \<Rightarrow> Inl (FailedNotBound cause)
      | NotAssembledAcross cause \<Rightarrow> Inl (FailedNotAssembledAcross cause)
      | NotStacked cause \<Rightarrow> Inl (FailedNotStacked cause)
      | NoRemoteJoin \<Rightarrow> Inl FailedNoRemoteJoin
      | NoSecondFactModel \<Rightarrow> Inl FailedNoSecondFactModel
      | NotDigestible cause \<Rightarrow> Inl (FailedNotDigestible cause)
      | PlanPanics \<Rightarrow> Inl FailedPanic)"

definition compile ::
  "(metric \<Rightarrow> 'd + string) \<Rightarrow> query \<Rightarrow> scoped_view \<Rightarrow> ceilings \<Rightarrow> 'd compile_failure + compiled" where
  "compile of_one q v ceilings =
     (case resolve q v (ceil_top ceilings) of
        Inl (Refused reason) \<Rightarrow> Inr (CompiledRefused reason)
      | Inl (Bundle cause) \<Rightarrow> Inl (FailedBundle cause)
      | Inr resolved \<Rightarrow>
          (case (case stacked_resolved resolved of
                   None \<Rightarrow> map_res compiled_of (plan_resolved of_one resolved (ceil_plan ceilings))
                 | Some stacked \<Rightarrow> map_res CompiledStacked stacked) of
             Inr compiled \<Rightarrow> Inr compiled
           | Inl e \<Rightarrow> failure_of e))"

definition compiled_refusal :: "compiled \<Rightarrow> refusal_reason option" where
  "compiled_refusal c = (case c of CompiledRefused reason \<Rightarrow> Some reason | _ \<Rightarrow> None)"

section \<open>Stacking\<close>

lemma mono_plan_frame:
  assumes "mono_plan r formula = Inr p" and "length (res_metrics r) = 1"
  shows "measure_labels p = [met_name (res_metric r)] \<and> map pm_metric (ne_iter (qp_measures p)) = [met_name (res_metric r)]
     \<and> key_labels p = map (\<lambda>k. dim_name (rd_dimension k)) (res_keys r) \<and> qp_source p = model_source (res_model r)
     \<and> pb_label (qp_bucket p) = label_bucket \<and> pb_grain (qp_bucket p) = res_grain r \<and> qp_range p = res_range r \<and> qp_top p = None"
  using assms unfolding mono_plan_def Let_def
  by (auto simp: bind_res_eq_Inr query_plan_new_def with_measures_def measure_labels_def key_labels_def label_measure_def
      dimension_key_def plan_key_new_def label_dimension_def comp_def)

definition stacks :: "query \<Rightarrow> name \<Rightarrow> name \<Rightarrow> query_plan \<Rightarrow> bool" where
  "stacks q source n p \<longleftrightarrow> measure_labels p = [n] \<and> map pm_metric (ne_iter (qp_measures p)) = [n]
     \<and> key_labels p = q_dimensions q \<and> qp_source p = source \<and> pb_label (qp_bucket p) = label_bucket
     \<and> pb_grain (qp_bucket p) = q_grain q \<and> qp_range p = q_range q \<and> qp_top p = None"

lemma stacked_arm_outcome:
  assumes r: "planned_from d q r" and single: "res_metrics r = [res_metric r]" and fits: "fits_bindings r"
    and local: "local_to r first"
  shows "case (stacked_arm r :: 'd plan_error + _) of
      Inl e \<Rightarrow> graceful e | Inr p \<Rightarrow> stacks q (model_source (res_model first)) (met_name (res_metric r)) p"
proof (cases "prechecked r :: 'd plan_error + _")
  case (Inl e)
  have "single_or_own r" using single by (simp add: single_or_own_def)
  from prechecked_outcome [OF r this, where 'd = 'd] Inl show ?thesis by (simp add: stacked_arm_def)
next
  case (Inr p)
  obtain formula lks where p: "p = (formula, lks)" by (cases p)
  have own: "single_or_own r" using single by (simp add: single_or_own_def)
  note pre = prechecked_outcome [OF r own, where 'd = 'd, unfolded Inr p, simplified]
  note pf = planned_fromD [OF r]
  have "gracefully (mono_plan r formula :: 'd plan_error + _)"
    using mono_plan_graceful [OF r _ fits, of formula] pre single local by (auto simp: local_to_def)
  with mono_plan_frame [of r formula] single pf(8,9,11) local show ?thesis
    by (cases "mono_plan r formula :: 'd plan_error + _") (auto simp: stacked_arm_def Inr p gracefully_def stacks_def local_to_def)
qed

lemma stacked_accepted:
  assumes "list_all2 (stacks q source) ns (first # second # rest)" and "distinct ns"
  shows "\<exists>s. stacked_plan_new first second rest = Inr s \<and> sp_arms s = NonEmpty first (second # rest) \<and> sp_top s = None"
proof -
  let ?every = "first # second # rest"
  have each: "\<exists>n. stacks q source n a" if "a \<in> set ?every" for a
    using assms(1) that by (metis in_set_conv_nth list_all2_conv_all_nth)
  have frame: "qp_top a = None \<and> same_frame first a" if a: "a \<in> set ?every" for a
    using each [OF a] each [of first] by (auto simp: stacks_def same_frame_def)
  have "sorted_wrt (\<lambda>a b. set (measure_labels a) \<inter> set (measure_labels b) = {}) ?every"
    unfolding sorted_wrt_iff_nth_less
  proof (intro allI impI)
    fix i j assume ij: "i < j" "j < length ?every"
    then have len: "i < length ns" "j < length ns" using list_all2_lengthD [OF assms(1)] by auto
    then have "measure_labels (?every ! i) = [ns ! i]" "measure_labels (?every ! j) = [ns ! j]"
      using list_all2_nthD [OF assms(1)] by (auto simp: stacks_def)
    moreover have "ns ! i \<noteq> ns ! j" using assms(2) ij len by (simp add: nth_eq_iff_index_eq)
    ultimately show "set (measure_labels (?every ! i)) \<inter> set (measure_labels (?every ! j)) = {}" by simp
  qed
  with frame have "check_stacked first [] ?every = Inr ()" unfolding check_stacked_ok by (intro conjI ballI) auto
  then show ?thesis by (simp add: stacked_plan_new_def Let_def)
qed

lemma resolved_each:
  assumes d: "definitions_ok (sv_pinned v)" and res: "resolve q v c = Inr res"
  shows "s \<in> set (resolved_per_metric res) \<Longrightarrow> res_metrics s = [res_metric s]"
    and "resolved_per_metric res \<noteq> [] \<Longrightarrow> map (\<lambda>s. met_name (res_metric s)) (resolved_per_metric res) = ne_iter (q_metrics q)"
    and "resolved_per_metric res = [] \<Longrightarrow> [met_name (res_metric (resolved_whole res))] = ne_iter (q_metrics q)"
proof -
  from resolve_total [OF d, of q c] res obtain ms where perm: "permitted q v c ms" and ne: "ms \<noteq> []"
    and whole: "resolution_ok q (sv_pinned v) (hd ms) ms (resolved_whole res)"
    and each: "if length ms > 1 then list_all2 (\<lambda>x s. resolution_ok q (sv_pinned v) x [x] s) ms (resolved_per_metric res)
      else resolved_per_metric res = []" by auto
  note names = permitted_names [OF perm d]
  have all: "list_all2 (\<lambda>x s. resolution_ok q (sv_pinned v) x [x] s) ms (resolved_per_metric res)" if "resolved_per_metric res \<noteq> []"
    using each that by (auto split: if_splits)
  show "res_metrics s = [res_metric s]" if "s \<in> set (resolved_per_metric res)"
    using all that by (force simp: list_all2_conv_all_nth in_set_conv_nth resolution_ok_def)
  show "map (\<lambda>s. met_name (res_metric s)) (resolved_per_metric res) = ne_iter (q_metrics q)" if "resolved_per_metric res \<noteq> []"
  proof -
    have "list_all2 (\<lambda>x s. met_name x = met_name (res_metric s)) ms (resolved_per_metric res)"
      using all [OF that] by (rule list_all2_mono) (auto simp: resolution_ok_def)
    then have "map met_name ms = map (\<lambda>s. met_name (res_metric s)) (resolved_per_metric res)" by (rule list_all2_map_eq) simp
    with names show ?thesis by simp
  qed
  show "[met_name (res_metric (resolved_whole res))] = ne_iter (q_metrics q)" if "resolved_per_metric res = []"
  proof -
    have "\<not> 1 < length ms" using each that ne by (auto split: if_splits)
    then have "ms = [hd ms]" using ne by (cases ms) auto
    with names whole show ?thesis by (metis list.map resolution_ok_def)
  qed
qed

text \<open>What a compiled plan answers: the question's metrics, in order, and its top.\<close>

definition answers :: "query \<Rightarrow> compiled \<Rightarrow> bool" where
  "answers q c =
     (case c of
        CompiledPlanned p \<Rightarrow> map pm_metric (ne_iter (qp_measures p)) = ne_iter (q_metrics q) \<and> key_labels p = q_dimensions q
          \<and> qp_range p = q_range q \<and> qp_top p = q_top q
      | CompiledFederated p \<Rightarrow> [fp_metric p] = ne_iter (q_metrics q)
          \<and> map (\<lambda>k. label_str (ak_label k)) (fp_keys p) = q_dimensions q \<and> fp_top p = q_top q
      | CompiledDrillAcross p \<Rightarrow> map arm_metric (ne_iter (dp_arms p)) = ne_iter (q_metrics q) \<and> dp_top p = q_top q
      | CompiledStacked p \<Rightarrow> concat (map (\<lambda>a. map pm_metric (ne_iter (qp_measures a))) (ne_iter (sp_arms p))) = ne_iter (q_metrics q)
          \<and> sp_top p = q_top q
      | CompiledRefused _ \<Rightarrow> True)"

lemma stacked_plan_outcome:
  assumes each: "\<forall>r \<in> set (first # second # rest). planned_from d q r \<and> res_metrics r = [res_metric r] \<and> fits_bindings r \<and> local_to r first"
    and names: "map (\<lambda>r. met_name (res_metric r)) (first # second # rest) = ne_iter (q_metrics q)"
    and "distinct (ne_iter (q_metrics q))"
  shows "case (stacked_plan_of first second rest :: 'd plan_error + _) of
      Inl e \<Rightarrow> graceful e | Inr s \<Rightarrow> answers q (CompiledStacked s)"
proof -
  let ?src = "model_source (res_model first)"
  have arm: "case (stacked_arm r :: 'd plan_error + _) of Inl e \<Rightarrow> graceful e | Inr p \<Rightarrow> stacks q ?src (met_name (res_metric r)) p"
    if "r \<in> set (first # second # rest)" for r
    using each that by (intro stacked_arm_outcome [of d]) auto
  have graceful: "gracefully (stacked_arm r :: 'd plan_error + _)" if "r \<in> set (first # second # rest)" for r
    using arm [OF that] by (cases "stacked_arm r :: 'd plan_error + _") (simp_all add: gracefully_def)
  have new: "\<exists>s. stacked_plan_new one two others = Inr s \<and> sp_arms s = NonEmpty one (two # others) \<and> sp_top s = None
      \<and> concat (map (\<lambda>a. map pm_metric (ne_iter (qp_measures a))) (one # two # others)) = ne_iter (q_metrics q)"
    if a: "(stacked_arm first :: 'd plan_error + _) = Inr one" "(stacked_arm second :: 'd plan_error + _) = Inr two"
      "(traverse stacked_arm rest :: 'd plan_error + _) = Inr others" for one two others
  proof -
    have "list_all2 (\<lambda>r a. (stacked_arm r :: 'd plan_error + _) = Inr a) (first # second # rest) (one # two # others)"
      using a by (simp add: traverse_eq_Inr)
    then have "list_all2 (\<lambda>r a. stacks q ?src (met_name (res_metric r)) a) (first # second # rest) (one # two # others)"
      by (rule list.rel_mono_strong) (use arm in fastforce)
    then have l: "list_all2 (stacks q ?src) (ne_iter (q_metrics q)) (one # two # others)"
      unfolding names [symmetric] by (simp add: list_all2_map1)
    from stacked_accepted [OF this assms(3)] obtain s where
      s: "stacked_plan_new one two others = Inr s" "sp_arms s = NonEmpty one (two # others)" "sp_top s = None" by blast
    have "list_all2 (\<lambda>n a. [n] = map pm_metric (ne_iter (qp_measures a))) (ne_iter (q_metrics q)) (one # two # others)"
      using l by (rule list_all2_mono) (simp add: stacks_def)
    then have "map (\<lambda>n. [n]) (ne_iter (q_metrics q)) = map (\<lambda>a. map pm_metric (ne_iter (qp_measures a))) (one # two # others)"
      by (rule list_all2_map_eq) simp
    from arg_cong [OF this, of concat] have "concat (map (\<lambda>a. map pm_metric (ne_iter (qp_measures a))) (one # two # others)) = ne_iter (q_metrics q)"
      by (simp only: concat_map_singleton list.map_ident)
    with s show ?thesis by blast
  qed
  have top: "res_top first = q_top q" using each planned_fromD(10) by auto
  have accepted: "gracefully (map_err NotStacked (stacked_plan_new one two others) :: 'd plan_error + _)"
    if "(traverse stacked_arm rest :: 'd plan_error + _) = Inr others" "(stacked_arm first :: 'd plan_error + _) = Inr one"
      "(stacked_arm second :: 'd plan_error + _) = Inr two" for one two others
    using new [OF that(2,3,1)] by auto
  have "gracefully (stacked_plan_of first second rest :: 'd plan_error + _)"
    unfolding stacked_plan_of_def
    by (intro gracefully_bind gracefully_traverse graceful accepted gracefully_simps) simp_all
  moreover have "answers q (CompiledStacked s)" if "(stacked_plan_of first second rest :: 'd plan_error + _) = Inr s" for s
  proof -
    from that obtain one two others s' where a: "(stacked_arm first :: 'd plan_error + _) = Inr one"
      "(stacked_arm second :: 'd plan_error + _) = Inr two" "(traverse stacked_arm rest :: 'd plan_error + _) = Inr others"
      and s': "stacked_plan_new one two others = Inr s'"
      and s: "s = (case res_top first of Some t \<Rightarrow> stacked_with_top t s' | None \<Rightarrow> s')"
      unfolding stacked_plan_of_def by (auto simp: bind_res_eq_Inr map_err_eq_Inr)
    from new [OF a] s' show ?thesis unfolding s top
      by (auto simp: answers_def stacked_with_top_def ne_iter_def split: option.split)
  qed
  ultimately show ?thesis by (cases "stacked_plan_of first second rest :: 'd plan_error + _") (auto simp: gracefully_def)
qed

section \<open>Planning answers the question\<close>

lemma plan_one_answers:
  assumes r: "planned_from d q r" and metric: "[met_name (res_metric r)] = ne_iter (q_metrics q)"
    and "plan_one (of_one :: metric \<Rightarrow> 'd + string) r ceilings = Inr (FedPlan p)"
  shows "answers q (CompiledFederated p)"
proof -
  note pf = planned_fromD [OF r]
  from plan_one_cases [OF assms(3)] obtain formula
    where fed: "federated_plan_of of_one r formula (lookups_of r) True = Inr p" by (auto split: if_splits)
  note built = federated_plan_of_built [OF fed]
  obtain first rest where first: "lk_shapes (lookups_of r) = first # rest" using built(3) by (cases "lk_shapes (lookups_of r)") auto
  obtain terms seconds keys where t: "leg_terms (federation_of_metric formula (model_name (res_model r))) (model_table_name (res_model r))
      (case res_cross r of None \<Rightarrow> model_table_name (res_model r) | Some cross \<Rightarrow> model_table_name (cm_second cross))
      (fact_leg_keys r (lookups_of r) (model_table_name (res_model r))) = (terms, seconds, keys)" by (metis prod_cases3)
  from fed obtain l b base second legs f p' where
    new: "federated_plan_new (met_name (res_metric r)) l b base second legs f (answer_keys r (lookups_of r)) = Inr p'"
    and p: "fp_metric p = fp_metric p' \<and> fp_keys p = fp_keys p'"
    unfolding federated_plan_of_def Let_def first list.case t split
    by (auto simp: res_simps with_link_comparison_def fed_with_top_def split: option.splits simp flip: first)
  have "map (\<lambda>k. label_str (ak_label k)) (answer_keys r (lookups_of r)) = q_dimensions q"
    using pf(11) by (simp add: answer_keys_def comp_def label_dimension_def)
  with p iffD1 [OF federated_plan_new_ok new] built(4) metric pf(10) show ?thesis by (simp add: answers_def)
qed

lemma plan_across_answers:
  fixes of_one :: "metric \<Rightarrow> 'd + string"
  assumes each: "\<forall>r \<in> set (first # second # rest). planned_from d q r \<and> single_or_own r \<and> fits_bindings r"
    and names: "map (\<lambda>r. met_name (res_metric r)) (first # second # rest) = ne_iter (q_metrics q)"
    and named: "\<forall>n \<in> set (q_dimensions q). \<exists>h. well_named h n" and ceil: "pc_lookup_legs ceilings \<le> 8"
    and plan: "plan_across of_one ceilings first second rest = Inr (AcrossPlan p)"
  shows "answers q (CompiledDrillAcross p)"
proof -
  have top: "res_top first = q_top q" using each planned_fromD(10) by auto
  from plan obtain a b as p' where l: "plan_arm of_one ceilings first = Inr a" "plan_arm of_one ceilings second = Inr b"
    "traverse (plan_arm of_one ceilings) rest = Inr as" and new: "drill_across_new a b as = Inr p'"
    and p: "p = (case res_top first of Some t \<Rightarrow> drill_with_top t p' | None \<Rightarrow> p')"
    unfolding plan_across_def Let_def by (auto simp: bind_res_eq_Inr map_err_eq_Inr split: option.splits)
  have "list_all2 (\<lambda>r a. plan_arm of_one ceilings r = Inr a) (first # second # rest) (a # b # as)"
    using l by (simp add: traverse_eq_Inr)
  then have "list_all2 (\<lambda>r a. met_name (res_metric r) = arm_metric a) (first # second # rest) (a # b # as)"
  proof (rule list.rel_mono_strong)
    fix r x assume "r \<in> set (first # second # rest)" and arm: "plan_arm of_one ceilings r = Inr x"
    with each plan_arm_outcome [of d q r ceilings of_one] named ceil have "arm_fits q (met_name (res_metric r)) x" by auto
    then show "met_name (res_metric r) = arm_metric x" by (simp add: arm_fits_def)
  qed
  then have "map (\<lambda>r. met_name (res_metric r)) (first # second # rest) = map arm_metric (a # b # as)"
    by (rule list_all2_map_eq) simp
  then have "map arm_metric (ne_iter (dp_arms p')) = ne_iter (q_metrics q)"
    using iffD1 [OF drill_across_new_ok new] unfolding names by (simp add: ne_iter_def)
  moreover have "dp_arms p = dp_arms p'" "dp_top p = q_top q"
    using iffD1 [OF drill_across_new_ok new] unfolding p top by (auto simp: drill_with_top_def split: option.splits)
  ultimately show ?thesis by (simp add: answers_def)
qed

lemma plan_one_shapes: "plan_one of_one r ceilings \<noteq> Inr (AcrossPlan p)"
  using plan_one_cases [of of_one r ceilings "AcrossPlan p"] by (auto split: if_splits)

lemma plan_across_shapes: "plan_across of_one ceilings first second rest = Inr p \<Longrightarrow> \<exists>a. p = AcrossPlan a"
  unfolding plan_across_def Let_def by (auto simp: bind_res_eq_Inr split: option.splits)

lemma one_statement_local: "one_statement res \<Longrightarrow> lk_shapes (lookups_of (resolved_whole res)) = []"
  by (simp add: one_statement_def Let_def)

lemma plan_resolved_answers:
  fixes of_one :: "metric \<Rightarrow> 'd + string"
  assumes "assemble escaped models relationships metrics = Inr (sv_pinned v)"
    and "\<forall>x \<in> set (bt_values (defs_metrics (sv_pinned v))). metric_inv x"
    and "\<forall>n \<in> set (q_dimensions q). \<exists>h. well_named h n"
    and "resolve q v limit = Inr res"
    and "\<forall>r \<in> set (resolved_whole res # resolved_per_metric res). fits_bindings r"
    and "pc_lookup_legs ceilings \<le> 8" and "pc_legs ceilings \<le> 16"
  shows "case plan_resolved of_one res ceilings of Inl e \<Rightarrow> graceful e | Inr p \<Rightarrow> answers q (compiled_of p)"
proof (cases "plan_resolved of_one res ceilings")
  case (Inl e)
  with plan_resolved_graceful [OF assms, of of_one] show ?thesis by (simp add: gracefully_def)
next
  case (Inr p)
  note d = assemble_definitions_ok [OF assms(1)]
  note pf = resolved_planned_from [OF d assms(2,4)] and each = resolved_each [OF d assms(4)]
  have "answers q (compiled_of p)"
  proof (cases p)
    case (MonoPlan m)
    have "fits_bindings (resolved_whole res)" using assms(5) by simp
    from mono_plan_sound [OF assms(1,2,4) this Inr [unfolded MonoPlan]] MonoPlan show ?thesis
      by (simp add: compiled_of_def answers_def)
  next
    case (FedPlan f)
    have one: "plan_one of_one (resolved_whole res) ceilings = Inr (FedPlan f) \<and> (resolved_per_metric res \<noteq> [] \<longrightarrow> one_statement res)"
      using Inr FedPlan pf(5) by (auto simp: plan_resolved_def split: list.splits if_splits dest!: plan_across_shapes)
    have "\<not> one_statement res"
      using plan_one_cases [of of_one "resolved_whole res" ceilings "FedPlan f"] one one_statement_local by auto
    with one have "resolved_per_metric res = []" by blast
    from plan_one_answers [OF pf(1) each(3) [OF this], of of_one ceilings f] one FedPlan show ?thesis by (simp add: compiled_of_def)
  next
    case (AcrossPlan a)
    then obtain first second rest where per: "resolved_per_metric res = first # second # rest"
      and across: "plan_across of_one ceilings first second rest = Inr (AcrossPlan a)"
      using Inr by (auto simp: plan_resolved_def plan_one_shapes split: list.splits if_splits)
    have fits: "\<forall>r \<in> set (first # second # rest). planned_from (sv_pinned v) q r \<and> single_or_own r \<and> fits_bindings r"
      using pf(3) assms(5) unfolding per by simp
    have "map (\<lambda>r. met_name (res_metric r)) (first # second # rest) = ne_iter (q_metrics q)" using each(2) per by simp
    from plan_across_answers [OF fits this assms(3,6) across] AcrossPlan show ?thesis by (simp add: compiled_of_def)
  qed
  with Inr show ?thesis by simp
qed

section \<open>Properties\<close>



end
