(* ===== verification/Identity.thy ===== *)
theory Identity
  imports Text
begin

text \<open>
  Who asks, and with what (\<open>sutura-domain/src/identity\<close> and the postures of
  \<open>source.rs\<close>): principal identifiers with their masked form, the chain of a request, the
  credentials a broker mints for the data systems of an answer, and when they fit the request. A
  secret is its text; the broker and SHA-256 are arguments where they are used.
\<close>

section \<open>Principals\<close>

definition MAX_PRINCIPAL_LEN :: nat where
  "MAX_PRINCIPAL_LEN = 256"

datatype invalid_principal_id =
    PrincipalEmpty
  | PrincipalControlCharacter nat
  | PrincipalInvisibleCharacter nat
  | PrincipalTooLong nat nat

definition parse_principal_id :: "ustr \<Rightarrow> invalid_principal_id + ustr" where
  "parse_principal_id raw =
     (let trimmed = trim raw in
      if trimmed = [] then Inl PrincipalEmpty
      else if length trimmed > MAX_PRINCIPAL_LEN then Inl (PrincipalTooLong (length trimmed) MAX_PRINCIPAL_LEN)
      else (case List.find is_control trimmed of
              Some offending \<Rightarrow> Inl (PrincipalControlCharacter offending)
            | None \<Rightarrow>
                (case first_invisible trimmed of
                   Some offending \<Rightarrow> Inl (PrincipalInvisibleCharacter offending)
                 | None \<Rightarrow> Inr trimmed)))"

text \<open>A full stop or an at sign starts a segment; of a segment the mask keeps the first character.\<close>

definition is_separator :: "nat \<Rightarrow> bool" where
  "is_separator c \<longleftrightarrow> c = 46 \<or> c = 64"

fun mask_into :: "bool \<Rightarrow> ustr \<Rightarrow> ustr" where
  "mask_into segment_start [] = []"
| "mask_into segment_start (c # cs) =
     (if is_separator c then c # mask_into True cs
      else if segment_start then c # codes ''***'' @ mask_into False cs
      else mask_into segment_start cs)"

definition mask_principal :: "ustr \<Rightarrow> ustr" where
  "mask_principal s = mask_into True s"

datatype subject_id = SubjectId ustr
datatype actor = Actor ustr
datatype task_id = TaskId ustr
datatype delegated_principal = DelegatedPrincipal ustr
datatype subject_key = SubjectKey ustr
datatype principal_name = PrincipalName (principal_text: ustr)

definition subject_id_parse :: "ustr \<Rightarrow> invalid_principal_id + subject_id" where
  "subject_id_parse raw = map_res (\<lambda>v. SubjectId (mask_principal v)) (parse_principal_id raw)"

definition actor_parse :: "ustr \<Rightarrow> invalid_principal_id + actor" where
  "actor_parse raw = map_res (\<lambda>v. Actor (mask_principal v)) (parse_principal_id raw)"

definition task_id_parse :: "ustr \<Rightarrow> invalid_principal_id + task_id" where
  "task_id_parse raw = map_res (\<lambda>v. TaskId (mask_principal v)) (parse_principal_id raw)"

definition delegated_of_name :: "principal_name \<Rightarrow> delegated_principal" where
  "delegated_of_name n = DelegatedPrincipal (mask_principal (principal_text n))"

definition subject_key_parse :: "ustr \<Rightarrow> invalid_principal_id + subject_key" where
  "subject_key_parse raw = map_res SubjectKey (parse_principal_id raw)"

definition principal_name_parse :: "ustr \<Rightarrow> invalid_principal_id + principal_name" where
  "principal_name_parse raw = map_res PrincipalName (parse_principal_id raw)"

fun key_principal :: "subject_key \<Rightarrow> invalid_principal_id + principal_name" where
  "key_principal (SubjectKey k) = principal_name_parse k"

fun key_masked :: "subject_key \<Rightarrow> ustr" where
  "key_masked (SubjectKey k) = mask_principal k"

record verified_principal =
  vp_id :: subject_id
  vp_key :: subject_key

datatype subject = Verified verified_principal | TheDeploymentItself

definition subject_verified :: "ustr \<Rightarrow> invalid_principal_id + subject" where
  "subject_verified raw =
     bind_res (subject_id_parse raw) (\<lambda>i. bind_res (subject_key_parse raw) (\<lambda>k.
       Inr (Verified \<lparr>vp_id = i, vp_key = k\<rparr>)))"

fun established :: "subject \<Rightarrow> string" where
  "established (Verified _) = ''verified''"
| "established TheDeploymentItself = ''deployment''"

fun subject_id_of :: "subject \<Rightarrow> subject_id option" where
  "subject_id_of (Verified v) = Some (vp_id v)"
| "subject_id_of TheDeploymentItself = None"

fun subject_key_of :: "subject \<Rightarrow> subject_key option" where
  "subject_key_of (Verified v) = Some (vp_key v)"
| "subject_key_of TheDeploymentItself = None"

section \<open>Chains\<close>

record actor_chain =
  ac_outer :: "actor list"
  ac_immediate :: actor

definition actor_chain_of :: "actor \<Rightarrow> actor_chain" where
  "actor_chain_of a = \<lparr>ac_outer = [], ac_immediate = a\<rparr>"

definition acting_through :: "actor_chain \<Rightarrow> actor \<Rightarrow> actor_chain" where
  "acting_through c a = \<lparr>ac_outer = ac_outer c @ [ac_immediate c], ac_immediate = a\<rparr>"

definition outermost :: "actor_chain \<Rightarrow> actor" where
  "outermost c = (case ac_outer c of [] \<Rightarrow> ac_immediate c | a # _ \<Rightarrow> a)"

definition actor_count :: "actor_chain \<Rightarrow> nat" where
  "actor_count c = sat_add_usize (length (ac_outer c)) 1"

definition actors_in_order :: "actor_chain \<Rightarrow> actor list" where
  "actors_in_order c = ac_outer c @ [ac_immediate c]"

record principal_chain =
  ch_subject :: subject
  ch_actors :: "actor_chain option"
  ch_task :: "task_id option"

definition chain_of :: "subject \<Rightarrow> principal_chain" where
  "chain_of s = \<lparr>ch_subject = s, ch_actors = None, ch_task = None\<rparr>"

definition chain_acting :: "principal_chain \<Rightarrow> actor_chain \<Rightarrow> principal_chain" where
  "chain_acting c actors = c\<lparr>ch_actors := Some actors\<rparr>"

definition chain_for_task :: "principal_chain \<Rightarrow> task_id \<Rightarrow> principal_chain" where
  "chain_for_task c t = c\<lparr>ch_task := Some t\<rparr>"

datatype attribution = BareSubject subject | ActingFor subject actor_chain

definition attribution_of :: "principal_chain \<Rightarrow> attribution" where
  "attribution_of c = (case ch_actors c of Some actors \<Rightarrow> ActingFor (ch_subject c) actors | None \<Rightarrow> BareSubject (ch_subject c))"

section \<open>Addresses and payers\<close>

definition is_ascii_graphic :: "nat \<Rightarrow> bool" where
  "is_ascii_graphic c \<longleftrightarrow> 33 \<le> c \<and> c \<le> 126"

fun position_of :: "('a \<Rightarrow> bool) \<Rightarrow> 'a list \<Rightarrow> nat option" where
  "position_of p [] = None"
| "position_of p (x # xs) = (if p x then Some 0 else map_option Suc (position_of p xs))"

datatype invalid_address = AddressTooLong nat | AddressCharacter nat | AddressShape

datatype verified_address = VerifiedAddress (address_text: ustr)

definition address_parse :: "ustr \<Rightarrow> invalid_address + verified_address" where
  "address_parse written =
     (if utf8_len written > 254 then Inl (AddressTooLong (utf8_len written))
      else (case position_of (\<lambda>c. \<not> is_ascii_graphic c) written of
              Some i \<Rightarrow> Inl (AddressCharacter i)
            | None \<Rightarrow>
                (case split_once 64 written of
                   Some (local, domain) \<Rightarrow>
                     if local \<noteq> [] \<and> domain \<noteq> [] \<and> 64 \<notin> set domain then Inr (VerifiedAddress written)
                     else Inl AddressShape
                 | None \<Rightarrow> Inl AddressShape)))"

definition address_domain :: "verified_address \<Rightarrow> ustr" where
  "address_domain a = (case split_once 64 (address_text a) of None \<Rightarrow> [] | Some (_, domain) \<Rightarrow> domain)"

definition name_of_address :: "verified_address \<Rightarrow> principal_name" where
  "name_of_address a = PrincipalName (address_text a)"

datatype unusable_billing_account = AccountEmpty | AccountTooLong nat | AccountCharacter nat

datatype billing_account = BillingAccount ustr

definition billing_account_parse :: "ustr \<Rightarrow> unusable_billing_account + billing_account" where
  "billing_account_parse written =
     (if written = [] then Inl AccountEmpty
      else if utf8_len written > 64 then Inl (AccountTooLong (utf8_len written))
      else (case position_of (\<lambda>c. \<not> is_ascii_graphic c) written of
              Some i \<Rightarrow> Inl (AccountCharacter i)
            | None \<Rightarrow> Inr (BillingAccount written)))"

datatype bill_to = BillGroup billing_account | BillNamed billing_account | Unstated

section \<open>A request\<close>

datatype client_claim = ClientNamed ustr | ClientUnreadable

definition client_claim_read :: "ustr option \<Rightarrow> client_claim" where
  "client_claim_read raw =
     (case raw of
        None \<Rightarrow> ClientUnreadable
      | Some written \<Rightarrow> (case parse_principal_id written of Inr c \<Rightarrow> ClientNamed c | Inl _ \<Rightarrow> ClientUnreadable))"

record client_claims =
  cc_azp :: "client_claim option"
  cc_client_id :: "client_claim option"

datatype expiry = NothingExpires | ExpiresAt nat

fun earlier_of :: "expiry \<Rightarrow> expiry \<Rightarrow> expiry" where
  "earlier_of NothingExpires other = other"
| "earlier_of other NothingExpires = other"
| "earlier_of (ExpiresAt left) (ExpiresAt right) = ExpiresAt (if left \<le> right then left else right)"

definition earliest :: "expiry list \<Rightarrow> expiry" where
  "earliest deadlines = foldl earlier_of NothingExpires deadlines"

fun unix_seconds :: "expiry \<Rightarrow> nat option" where
  "unix_seconds NothingExpires = None"
| "unix_seconds (ExpiresAt t) = Some t"

fun passed_by :: "expiry \<Rightarrow> nat \<Rightarrow> nat option" where
  "passed_by (ExpiresAt t) now = (if t \<le> now then Some t else None)"
| "passed_by NothingExpires now = None"

record request_context =
  rc_chain :: principal_chain
  rc_assertion :: "(ustr \<times> expiry) option"
  rc_audiences :: "name list"
  rc_client :: client_claims
  rc_address :: "verified_address option"
  rc_groups :: "ustr list"
  rc_named_payer :: "billing_account option"

definition request_of :: "principal_chain \<Rightarrow> request_context" where
  "request_of c = \<lparr>rc_chain = c, rc_assertion = None, rc_audiences = [],
     rc_client = \<lparr>cc_azp = None, cc_client_id = None\<rparr>, rc_address = None, rc_groups = [], rc_named_payer = None\<rparr>"

definition request_with_assertion :: "principal_chain \<Rightarrow> ustr \<Rightarrow> nat \<Rightarrow> request_context" where
  "request_with_assertion c material not_after = (request_of c)\<lparr>rc_assertion := Some (material, ExpiresAt not_after)\<rparr>"

definition request_granting :: "request_context \<Rightarrow> name list \<Rightarrow> request_context" where
  "request_granting r audiences = r\<lparr>rc_audiences := audiences\<rparr>"

definition caller_groups_of :: "ustr list \<Rightarrow> ustr list" where
  "caller_groups_of groups = bs_of groups"

definition groups_hold :: "ustr list \<Rightarrow> ustr \<Rightarrow> bool" where
  "groups_hold groups g \<longleftrightarrow> g \<in> set groups"

section \<open>Postures\<close>

datatype invalid_operator_text =
    OperatorEmpty string
  | OperatorControlCharacter string ustr
  | OperatorInvisibleCharacter string nat
  | OperatorTooLong string ustr nat nat

definition parse_operator_text :: "string \<Rightarrow> ustr \<Rightarrow> nat \<Rightarrow> invalid_operator_text + ustr" where
  "parse_operator_text key raw limit =
     (let trimmed = trim raw in
      if trimmed = [] then Inl (OperatorEmpty key)
      else if list_ex is_control trimmed then Inl (OperatorControlCharacter key trimmed)
      else (case first_invisible trimmed of
              Some offending \<Rightarrow> Inl (OperatorInvisibleCharacter key offending)
            | None \<Rightarrow> if length trimmed > limit then Inl (OperatorTooLong key trimmed (length trimmed) limit) else Inr trimmed))"

datatype acknowledgement_reason = AcknowledgementReason ustr
datatype verification_identity = VerificationIdentity ustr
datatype shared_identity_declared = SharedIdentityDeclared acknowledgement_reason

definition MAX_REASON_LEN :: nat where
  "MAX_REASON_LEN = 400"

definition MAX_IDENTITY_LEN :: nat where
  "MAX_IDENTITY_LEN = 256"

definition acknowledgement_written_under :: "string \<Rightarrow> ustr \<Rightarrow> invalid_operator_text + acknowledgement_reason" where
  "acknowledgement_written_under key raw = map_res AcknowledgementReason (parse_operator_text key raw MAX_REASON_LEN)"

definition acknowledgement_parse :: "ustr \<Rightarrow> invalid_operator_text + acknowledgement_reason" where
  "acknowledgement_parse raw = acknowledgement_written_under ''sources.<alias>.acknowledged_because'' raw"

definition verification_identity_parse :: "ustr \<Rightarrow> invalid_operator_text + verification_identity" where
  "verification_identity_parse raw =
     map_res VerificationIdentity (parse_operator_text ''sources.<alias>.verification_identity'' raw MAX_IDENTITY_LEN)"

datatype source_posture = SharedServiceUser shared_identity_declared | ImpersonationAtSource

fun posture_text :: "source_posture \<Rightarrow> string" where
  "posture_text (SharedServiceUser _) = ''shared-service-user''"
| "posture_text ImpersonationAtSource = ''impersonation-at-source''"

datatype impersonation_capability = PerSubjectCredential | NoPlaceForASubject

record posture_not_deliverable =
  pnd_at :: name
  pnd_posture :: string

fun deliverable_by :: "source_posture \<Rightarrow> impersonation_capability \<Rightarrow> name \<Rightarrow> posture_not_deliverable + unit" where
  "deliverable_by (SharedServiceUser _) _ source = Inr ()"
| "deliverable_by ImpersonationAtSource PerSubjectCredential source = Inr ()"
| "deliverable_by ImpersonationAtSource NoPlaceForASubject source =
     Inl \<lparr>pnd_at = source, pnd_posture = posture_text ImpersonationAtSource\<rparr>"

record source_identity =
  si_posture :: source_posture
  si_verification :: "verification_identity option"

datatype conflicting_source_identity = VerificationIdentityOnASharedSource name

definition source_identity_declared ::
  "name \<Rightarrow> source_posture \<Rightarrow> verification_identity option \<Rightarrow> conflicting_source_identity + source_identity" where
  "source_identity_declared source posture verification =
     (if posture \<noteq> ImpersonationAtSource \<and> verification \<noteq> None then Inl (VerificationIdentityOnASharedSource source)
      else Inr \<lparr>si_posture = posture, si_verification = verification\<rparr>)"

datatype anchor_identity =
    TheSharedIdentity shared_identity_declared
  | DeclaredIdentity verification_identity
  | NoneDeclared

definition anchors_run_as :: "source_identity \<Rightarrow> anchor_identity" where
  "anchors_run_as i =
     (case (si_posture i, si_verification i) of
        (SharedServiceUser declared, _) \<Rightarrow> TheSharedIdentity declared
      | (ImpersonationAtSource, Some identity) \<Rightarrow> DeclaredIdentity identity
      | (ImpersonationAtSource, None) \<Rightarrow> NoneDeclared)"

type_synonym executed_as = "(name, source_posture) btree"

definition executed_of :: "name \<Rightarrow> source_posture \<Rightarrow> executed_as" where
  "executed_of source posture = bt_insert source posture []"

datatype leg_already_recorded = LegAlreadyRecorded name

definition executed_and :: "executed_as \<Rightarrow> name \<Rightarrow> source_posture \<Rightarrow> leg_already_recorded + executed_as" where
  "executed_and e source posture =
     (if bt_get e source \<noteq> None then Inl (LegAlreadyRecorded source) else Inr (bt_insert source posture e))"

section \<open>Credentials\<close>

datatype presented =
    SubjectToken ustr
  | SubjectPrincipal principal_name
  | SubjectSignIn principal_name ustr
  | PresentedShared shared_identity_declared

fun presented_text :: "presented \<Rightarrow> string" where
  "presented_text (SubjectToken _) = ''the asker's own credential''"
| "presented_text (SubjectPrincipal _) = ''a principal to switch to as the asker''"
| "presented_text (SubjectSignIn _ _) = ''a principal to sign in as, with the asker's own credential''"
| "presented_text (PresentedShared _) = ''the deployment's own identity for this source''"

datatype presented_disagrees =
    ShapeIsNotThePosture name string string
  | WitnessIsNotThisSources name

fun agrees_with :: "presented \<Rightarrow> source_posture \<Rightarrow> name \<Rightarrow> presented_disagrees + unit" where
  "agrees_with (PresentedShared declared) (SharedServiceUser mine) source =
     (if declared = mine then Inr () else Inl (WitnessIsNotThisSources source))"
| "agrees_with (PresentedShared declared) ImpersonationAtSource source =
     Inl (ShapeIsNotThePosture source (posture_text ImpersonationAtSource) (presented_text (PresentedShared declared)))"
| "agrees_with p ImpersonationAtSource source = Inr ()"
| "agrees_with p (SharedServiceUser mine) source =
     Inl (ShapeIsNotThePosture source (posture_text (SharedServiceUser mine)) (presented_text p))"

type_synonym source_set = "name list"

definition source_set_of :: "name \<Rightarrow> source_set" where
  "source_set_of one = bs_insert one []"

definition source_set_and :: "source_set \<Rightarrow> name \<Rightarrow> source_set" where
  "source_set_and s another = bs_insert another s"

record leg_credentials =
  lc_asked_by :: subject
  lc_not_after :: expiry
  lc_by_source :: "(name, presented) btree"
  lc_bill_to :: "(name, bill_to) btree"

datatype credentials_do_not_cover = CredentialMissing name | CredentialUnasked name

definition credentials_cover :: "leg_credentials \<Rightarrow> source_set \<Rightarrow> credentials_do_not_cover + unit" where
  "credentials_cover c sources =
     bind_res (each_ok (\<lambda>s. ensure (bt_get (lc_by_source c) s \<noteq> None) (CredentialMissing s)) sources) (\<lambda>_.
       each_ok (\<lambda>s. ensure (s \<in> set sources) (CredentialUnasked s)) (bt_keys (lc_by_source c)))"

definition credentials_minted ::
  "subject \<Rightarrow> expiry \<Rightarrow> source_set \<Rightarrow> (name, presented) btree \<Rightarrow> credentials_do_not_cover + leg_credentials" where
  "credentials_minted asked_by not_after sources by_source =
     (let c = \<lparr>lc_asked_by = asked_by, lc_not_after = not_after, lc_by_source = by_source, lc_bill_to = []\<rparr> in
      bind_res (credentials_cover c sources) (\<lambda>_. Inr c))"

definition credentials_billed :: "leg_credentials \<Rightarrow> (name, bill_to) btree \<Rightarrow> leg_credentials" where
  "credentials_billed c bills = c\<lparr>lc_bill_to := bills\<rparr>"

definition credentials_named_by :: "leg_credentials \<Rightarrow> request_context \<Rightarrow> leg_credentials" where
  "credentials_named_by c r =
     credentials_billed c
       (case rc_named_payer r of None \<Rightarrow> [] | Some payer \<Rightarrow> map (\<lambda>s. (s, BillNamed payer)) (bt_keys (lc_by_source c)))"

definition vouched :: "leg_credentials \<Rightarrow> (name \<times> principal_name) list" where
  "vouched c = List.map_filter (\<lambda>(s, p). case p of SubjectPrincipal n \<Rightarrow> Some (s, n) | _ \<Rightarrow> None) (lc_by_source c)"

datatype minted = MintGranted leg_credentials | MintRefused name | MintOutsideDomains name

definition delegated_as :: "minted \<Rightarrow> (name \<times> delegated_principal) list" where
  "delegated_as m =
     (case m of MintGranted c \<Rightarrow> map (\<lambda>(s, n). (s, delegated_of_name n)) (vouched c) | _ \<Rightarrow> [])"

datatype agreed = AgreedGranted leg_credentials | AgreedRefused name | AgreedOutsideDomains name

datatype credentials_do_not_fit =
    AnotherSubject subject subject
  | CredentialCoverage credentials_do_not_cover
  | RefusalNamesAnUnaskedSource name
  | CredentialsExpired nat nat

text \<open>Of the credentials bound to a request: \<open>BoundToTheRequest\<close> is a newtype without a constructor of its own.\<close>

definition presented_for :: "leg_credentials \<Rightarrow> name \<Rightarrow> credentials_do_not_fit + presented" where
  "presented_for c source = ok_or (CredentialCoverage (CredentialMissing source)) (bt_get (lc_by_source c) source)"

definition bill_to_for :: "leg_credentials \<Rightarrow> name \<Rightarrow> bill_to" where
  "bill_to_for c source = (case bt_get (lc_bill_to c) source of None \<Rightarrow> Unstated | Some b \<Rightarrow> b)"

definition still_usable_at :: "leg_credentials \<Rightarrow> nat \<Rightarrow> credentials_do_not_fit + unit" where
  "still_usable_at c now =
     (case passed_by (lc_not_after c) now of None \<Rightarrow> Inr () | Some deadline \<Rightarrow> Inl (CredentialsExpired deadline now))"

definition agreeing_with :: "minted \<Rightarrow> subject \<Rightarrow> source_set \<Rightarrow> nat \<Rightarrow> credentials_do_not_fit + agreed" where
  "agreeing_with m asked_by sources now =
     (let asked = (\<lambda>s. if s \<in> set sources then Inr s else Inl (RefusalNamesAnUnaskedSource s)) in
      case m of
        MintRefused s \<Rightarrow> map_res AgreedRefused (asked s)
      | MintOutsideDomains s \<Rightarrow> map_res AgreedOutsideDomains (asked s)
      | MintGranted c \<Rightarrow>
          if lc_asked_by c \<noteq> asked_by then Inl (AnotherSubject asked_by (lc_asked_by c))
          else bind_res (map_err CredentialCoverage (credentials_cover c sources)) (\<lambda>_.
            bind_res (still_usable_at c now) (\<lambda>_. Inr (AgreedGranted c))))"

section \<open>What a mask tells\<close>

text \<open>The separators of an identifier and the first character of each of its segments.\<close>

fun initials_from :: "bool \<Rightarrow> ustr \<Rightarrow> ustr" where
  "initials_from segment_start [] = []"
| "initials_from segment_start (c # cs) =
     (if is_separator c then c # initials_from True cs
      else if segment_start then c # initials_from False cs
      else initials_from False cs)"

definition initials :: "ustr \<Rightarrow> ustr" where
  "initials s = initials_from True s"

definition masked_char :: "nat \<Rightarrow> ustr" where
  "masked_char c = (if is_separator c then [c] else c # codes ''***'')"

lemma mask_into_initials: "mask_into b s = concat (map masked_char (initials_from b s))"
  by (induction b s rule: mask_into.induct) (auto simp: masked_char_def)

lemma masked_char_inject:
  "concat (map masked_char xs) = concat (map masked_char ys) \<longleftrightarrow> xs = ys"
proof (induction xs arbitrary: ys)
  case Nil
  show ?case by (cases ys) (auto simp: masked_char_def)
next
  case (Cons x xs)
  show ?case
  proof (cases ys)
    case (Cons y ys')
    with Cons.IH [of ys'] show ?thesis by (auto simp: masked_char_def)
  qed (auto simp: masked_char_def)
qed

lemma mask_initials: "mask_principal s = mask_principal t \<longleftrightarrow> initials s = initials t"
  by (simp add: mask_principal_def initials_def mask_into_initials masked_char_inject)

lemma parse_principal_id_ok:
  "parse_principal_id raw = Inr v \<longleftrightarrow> v = trim raw \<and> v \<noteq> [] \<and> length v \<le> 256
     \<and> (\<forall>c \<in> set v. \<not> is_control c \<and> \<not> is_invisible c)"
  by (auto simp: parse_principal_id_def Let_def first_invisible_def MAX_PRINCIPAL_LEN_def find_None_iff split: option.split
      dest!: find_Some_mem)

lemma subject_verified_ok:
  "subject_verified raw = Inr s \<longleftrightarrow> (\<exists>v. parse_principal_id raw = Inr v
     \<and> s = Verified \<lparr>vp_id = SubjectId (mask_principal v), vp_key = SubjectKey v\<rparr>)"
  by (auto simp: subject_verified_def subject_id_parse_def subject_key_parse_def res_simps)

section \<open>Which credentials fit\<close>

lemma credentials_cover_ok: "credentials_cover c sources = Inr () \<longleftrightarrow> set (bt_keys (lc_by_source c)) = set sources"
  by (force simp: credentials_cover_def res_simps map_of_eq_None_iff)

lemma still_usable_ok: "still_usable_at c now = Inr () \<longleftrightarrow> passed_by (lc_not_after c) now = None"
  by (auto simp: still_usable_at_def split: option.split)

lemma passed_by_None: "passed_by e now = None \<longleftrightarrow> (\<forall>t. e = ExpiresAt t \<longrightarrow> now < t)"
  by (cases e) auto

lemma agreeing_granted:
  "agreeing_with m asked_by sources now = Inr (AgreedGranted c) \<longleftrightarrow>
     m = MintGranted c \<and> lc_asked_by c = asked_by \<and> set (bt_keys (lc_by_source c)) = set sources
     \<and> passed_by (lc_not_after c) now = None"
proof (cases m)
  case (MintGranted d)
  then show ?thesis using credentials_cover_ok [of d sources] still_usable_ok [of d now]
    by (auto simp: agreeing_with_def Let_def res_simps)
qed (auto simp: agreeing_with_def Let_def res_simps)

lemma agrees_with_ok:
  "agrees_with p posture source = Inr () \<longleftrightarrow>
     (case posture of ImpersonationAtSource \<Rightarrow> \<forall>d. p \<noteq> PresentedShared d | SharedServiceUser d \<Rightarrow> p = PresentedShared d)"
  by (cases p; cases posture) auto

lemma presented_for_ok: "presented_for c source = Inr p \<longleftrightarrow> bt_get (lc_by_source c) source = Some p"
  by (auto simp: presented_for_def res_simps)

lemma earlier_passed: "passed_by (earlier_of a b) now = None \<longleftrightarrow> passed_by a now = None \<and> passed_by b now = None"
  by (cases a; cases b) auto

lemma earliest_passed_from: "passed_by (foldl earlier_of a ds) now = None \<longleftrightarrow> passed_by a now = None \<and> (\<forall>d \<in> set ds. passed_by d now = None)"
  by (induction ds arbitrary: a) (auto simp: earlier_passed)

section \<open>Properties\<close>

text \<open>C25: what a record of a verified caller shows is exactly the separators of the identifier and the
  first character of each segment, while the key the process compares callers by is the whole
  identifier.\<close>
theorem subject_shows_initials:
  assumes "subject_verified a = Inr (Verified u)" and "subject_verified b = Inr (Verified v)"
  shows "(vp_id u = vp_id v \<longleftrightarrow> initials (trim a) = initials (trim b)) \<and> (vp_key u = vp_key v \<longleftrightarrow> trim a = trim b)"
  using assms by (auto simp: subject_verified_ok parse_principal_id_ok mask_initials)

theorem subject_shows_initials_witness:
  "\<exists>u v. subject_verified (codes ''ann.lee@corp'') = Inr (Verified u) \<and> subject_verified (codes ''abe.lin@co'') = Inr (Verified v)
     \<and> vp_id u = vp_id v \<and> vp_key u \<noteq> vp_key v"
proof -
  let ?a = "codes ''ann.lee@corp''" and ?b = "codes ''abe.lin@co''"
  have t: "trim ?a = ?a" "trim ?b = ?b" by (rule trim_id, simp add: is_whitespace_def)+
  have p: "parse_principal_id ?a = Inr ?a" "parse_principal_id ?b = Inr ?b"
    unfolding parse_principal_id_ok t by (simp_all add: is_control_def is_invisible_def)
  let ?u = "\<lparr>vp_id = SubjectId (mask_principal ?a), vp_key = SubjectKey ?a\<rparr>" and ?v = "\<lparr>vp_id = SubjectId (mask_principal ?b), vp_key = SubjectKey ?b\<rparr>"
  have s: "subject_verified ?a = Inr (Verified ?u)" "subject_verified ?b = Inr (Verified ?v)"
    using p by (auto simp: subject_verified_ok)
  have "initials ?a = initials ?b" by (simp add: initials_def is_separator_def)
  with subject_shows_initials [OF s] t s show ?thesis by force
qed



text \<open>The earliest of several deadlines has passed exactly when one of them has.\<close>
theorem earliest_passes_first:
  "passed_by (earliest deadlines) now = None \<longleftrightarrow> (\<forall>d \<in> set deadlines. passed_by d now = None)"
  by (simp add: earliest_def earliest_passed_from)

theorem earliest_passes_first_witness:
  "passed_by (earliest [ExpiresAt 9, NothingExpires, ExpiresAt 7]) 6 = None \<and> passed_by (earliest [ExpiresAt 9, NothingExpires, ExpiresAt 7]) 8 \<noteq> None"
  unfolding earliest_passes_first by simp

end
