(* ===== verification/Spend.thy ===== *)
theory Spend
  imports Prelude "HOL-Library.AList"
begin

text \<open>
  The spend ledger of one replica (\<open>sutura-app/src/spend.rs\<close>): a byte ceiling per subject and
  fixed window. An \<open>Instant\<close> of the monotonic clock and a \<open>Duration\<close> are nanosecond
  counts, so \<open>saturating_duration_since\<close> and \<open>saturating_sub\<close> are subtraction of naturals;
  byte counts are 64-bit words. The hash map is an association list with distinct keys: nothing the
  ledger answers depends on its order.
\<close>

section \<open>The ledger\<close>

record spend_budget =
  ceiling_bytes :: u64
  budget_window :: nat

record spend_window =
  started_at :: nat
  spent_bytes :: u64

datatype charge_outcome = Admitted | ChargeRefused (reset_after: nat)

record 's spend_ledger =
  led_budget :: "spend_budget option"
  led_windows :: "('s \<times> spend_window) list"
  total_spent_bytes :: u64

definition ledger_new :: "spend_budget option \<Rightarrow> 's spend_ledger" where
  "ledger_new budget = \<lparr>led_budget = budget, led_windows = [], total_spent_bytes = 0\<rparr>"

definition no_budget :: "'s spend_ledger" where
  "no_budget = ledger_new None"

definition sat_add_u64 :: "u64 \<Rightarrow> u64 \<Rightarrow> u64" where
  "sat_add_u64 a b = (if unat a + unat b < 2 ^ 64 then a + b else -1)"

definition sat_sub_u64 :: "u64 \<Rightarrow> u64 \<Rightarrow> u64" where
  "sat_sub_u64 a b = (if b \<le> a then a - b else 0)"

text \<open>The window a charge at \<open>now\<close> counts against: the subject's own, unless it has none or its window has elapsed.\<close>

definition open_window :: "spend_budget \<Rightarrow> nat \<Rightarrow> spend_window option \<Rightarrow> spend_window" where
  "open_window b now entry =
     (let w = (case entry of Some w \<Rightarrow> w | None \<Rightarrow> \<lparr>started_at = now, spent_bytes = 0\<rparr>) in
      if now - started_at w \<ge> budget_window b then w\<lparr>started_at := now, spent_bytes := 0\<rparr> else w)"

definition charge :: "'s spend_ledger \<Rightarrow> 's \<Rightarrow> u64 \<Rightarrow> nat \<Rightarrow> 's spend_ledger \<times> charge_outcome" where
  "charge l subject estimated_bytes now =
     (case led_budget l of
        None \<Rightarrow> (l, Admitted)
      | Some b \<Rightarrow>
          (let w = open_window b now (map_of (led_windows l) subject);
               projected = sat_add_u64 (spent_bytes w) estimated_bytes in
           if projected > ceiling_bytes b
           then (l\<lparr>led_windows := AList.update subject w (led_windows l)\<rparr>,
                 ChargeRefused (budget_window b - (now - started_at w)))
           else (l\<lparr>led_windows := AList.update subject (w\<lparr>spent_bytes := projected\<rparr>) (led_windows l),
                   total_spent_bytes := total_spent_bytes l + estimated_bytes\<rparr>, Admitted)))"

definition min_of :: "u64 list \<Rightarrow> u64 option" where
  "min_of xs = (case xs of [] \<Rightarrow> None | x # rest \<Rightarrow> Some (fold min rest x))"

definition headroom_bytes :: "'s spend_ledger \<Rightarrow> nat \<Rightarrow> u64 option" where
  "headroom_bytes l now =
     (case led_budget l of
        None \<Rightarrow> None
      | Some b \<Rightarrow>
          Some (case min_of (map (\<lambda>w. sat_sub_u64 (ceiling_bytes b) (spent_bytes w))
                  (filter (\<lambda>w. now - started_at w < budget_window b) (map snd (led_windows l)))) of
                  Some tightest \<Rightarrow> tightest
                | None \<Rightarrow> ceiling_bytes b))"

definition spent_bytes_total :: "'s spend_ledger \<Rightarrow> u64 option" where
  "spent_bytes_total l = (case led_budget l of None \<Rightarrow> None | Some _ \<Rightarrow> Some (total_spent_bytes l))"

section \<open>Runs\<close>

text \<open>
  A request of a subject is charged at an instant; what a ledger does is a sequence of such steps.
  The lock makes each charge one step.
\<close>

record 's request =
  rq_subject :: 's
  rq_bytes :: u64
  rq_at :: nat

inductive ledger_step :: "'s spend_ledger \<Rightarrow> 's request \<times> charge_outcome \<Rightarrow> 's spend_ledger \<Rightarrow> bool" where
  charged: "charge l (rq_subject rq) (rq_bytes rq) (rq_at rq) = (l', c) \<Longrightarrow> ledger_step l (rq, c) l'"

inductive ledger_run :: "'s spend_ledger \<Rightarrow> ('s request \<times> charge_outcome) list \<Rightarrow> 's spend_ledger \<Rightarrow> bool" where
  none: "ledger_run l [] l"
| more: "ledger_run l es l' \<Longrightarrow> ledger_step l' e l'' \<Longrightarrow> ledger_run l (es @ [e]) l''"

inductive_cases ledger_stepE: "ledger_step l e l'"
inductive_simps ledger_step_iff: "ledger_step l (rq, c) l'"

definition admitted :: "('s request \<times> charge_outcome) list \<Rightarrow> 's request list" where
  "admitted es = map fst (filter (\<lambda>(_, c). c = Admitted) es)"

definition bytes_of :: "'s request list \<Rightarrow> nat" where
  "bytes_of rs = sum_list (map (\<lambda>r. unat (rq_bytes r)) rs)"

lemma admitted_snoc [simp]:
  "admitted [] = []"
  "admitted (es @ [(rq, c)]) = admitted es @ (if c = Admitted then [rq] else [])"
  by (simp_all add: admitted_def)

lemma bytes_of_append [simp]: "bytes_of [] = 0" "bytes_of (as @ bs) = bytes_of as + bytes_of bs" "bytes_of [r] = unat (rq_bytes r)"
  by (simp_all add: bytes_of_def)

section \<open>One charge\<close>

lemma unat_sat_add_u64: "unat (sat_add_u64 a b) = min (unat a + unat b) (2 ^ 64 - 1)"
proof (cases "unat a + unat b < 2 ^ 64")
  case True
  then show ?thesis by (simp add: sat_add_u64_def unat_add_lem [where 'a = 64, THEN iffD1])
next
  case False
  have "unat (-1 :: u64) = 2 ^ 64 - 1" by (simp add: unsigned_minus_1_eq_mask mask_eq_exp_minus_1)
  with False show ?thesis by (simp add: sat_add_u64_def)
qed

lemma sat_add_zero: "sat_add_u64 0 n = n"
  using unat_sat_add_u64 [of 0 n] unsigned_less [of n, where 'a = nat] by (simp add: sat_add_u64_def)

lemma sat_add_over: "sat_add_u64 a b > c \<longleftrightarrow> unat c < min (unat a + unat b) (2 ^ 64 - 1)"
  unfolding word_less_nat_alt unat_sat_add_u64 ..

lemma sat_add_fits: "\<not> sat_add_u64 a b > c \<Longrightarrow> unat a + unat b < 2 ^ 64 \<or> c = -1"
  by (auto simp: sat_add_u64_def not_less word_order.extremum_uniqueI split: if_splits)

lemma charge_window:
  assumes "led_budget l = Some b" and "charge l s n now = (l', c)"
  defines "w \<equiv> open_window b now (map_of (led_windows l) s)"
  shows "c = Admitted \<longleftrightarrow> sat_add_u64 (spent_bytes w) n \<le> ceiling_bytes b"
    and "c \<noteq> Admitted \<Longrightarrow> c = ChargeRefused (budget_window b - (now - started_at w))"
    and "map_of (led_windows l') = (map_of (led_windows l))(s \<mapsto>
      (if c = Admitted then w\<lparr>spent_bytes := sat_add_u64 (spent_bytes w) n\<rparr> else w))"
    and "total_spent_bytes l' = total_spent_bytes l + (if c = Admitted then n else 0)"
    and "led_budget l' = led_budget l"
    and "distinct (map fst (led_windows l)) \<Longrightarrow> distinct (map fst (led_windows l'))"
  using assms(1,2)
  by (auto simp: charge_def Let_def w_def [symmetric] not_less update_conv' distinct_update split: if_splits)

lemma charge_free: "led_budget l = None \<Longrightarrow> charge l s n now = (l, Admitted)"
  by (simp add: charge_def)

lemma open_window_cases:
  "open_window b now None = \<lparr>started_at = now, spent_bytes = 0\<rparr>"
  "open_window b now (Some w) = (if now - started_at w \<ge> budget_window b then \<lparr>started_at = now, spent_bytes = 0\<rparr> else w)"
  by (simp_all add: open_window_def Let_def)

section \<open>What every run keeps\<close>

definition windows_ok :: "spend_budget \<Rightarrow> 's spend_ledger \<Rightarrow> bool" where
  "windows_ok b l \<longleftrightarrow> led_budget l = Some b \<and> distinct (map fst (led_windows l))
     \<and> (\<forall>s w. map_of (led_windows l) s = Some w \<longrightarrow> spent_bytes w \<le> ceiling_bytes b)"

lemma open_window_within: "(\<And>w. e = Some w \<Longrightarrow> spent_bytes w \<le> c) \<Longrightarrow> spent_bytes (open_window b now e) \<le> c"
  by (cases e) (auto simp: open_window_cases)

lemma step_windows_ok: "ledger_step l e l' \<Longrightarrow> windows_ok b l \<Longrightarrow> windows_ok b l'"
proof -
  assume step: "ledger_step l e l'" and ok: "windows_ok b l"
  obtain rq c where e: "e = (rq, c)" by (cases e)
  with step have ch: "charge l (rq_subject rq) (rq_bytes rq) (rq_at rq) = (l', c)" by (simp add: ledger_step_iff)
  have l: "led_budget l = Some b" using ok by (simp add: windows_ok_def)
  note w = charge_window [OF l ch]
  from ok have "spent_bytes (open_window b (rq_at rq) (map_of (led_windows l) (rq_subject rq))) \<le> ceiling_bytes b"
    by (intro open_window_within) (simp add: windows_ok_def)
  with ok w show ?thesis by (auto simp: windows_ok_def)
qed

lemma run_windows_ok: "ledger_run l es l' \<Longrightarrow> windows_ok b l \<Longrightarrow> windows_ok b l'"
  by (induction rule: ledger_run.induct) (auto intro: step_windows_ok)

lemma new_windows_ok: "windows_ok b (ledger_new (Some b))"
  by (simp add: windows_ok_def ledger_new_def)

text \<open>The bytes admitted to a subject in the span of one window from \<open>t\<close> on.\<close>

definition spent_in :: "'s \<Rightarrow> nat \<Rightarrow> nat \<Rightarrow> ('s request \<times> charge_outcome) list \<Rightarrow> nat" where
  "spent_in s t len es = bytes_of (filter (\<lambda>r. rq_subject r = s \<and> t \<le> rq_at r \<and> rq_at r < t + len) (admitted es))"

lemma spent_in_snoc [simp]:
  "spent_in s t len [] = 0"
  "spent_in s t len (es @ [(rq, c)]) = spent_in s t len es
     + (if c = Admitted \<and> rq_subject rq = s \<and> t \<le> rq_at rq \<and> rq_at rq < t + len then unat (rq_bytes rq) else 0)"
  by (auto simp: spent_in_def)

text \<open>
  How the bytes of a span stand to the subject's window: a window that began before the span holds
  them all; one that began inside it holds all but those of the window before; and one that began
  after it holds none of what two windows admitted.
\<close>

definition span_bound :: "spend_budget \<Rightarrow> nat \<Rightarrow> spend_window option \<Rightarrow> nat" where
  "span_bound b t entry =
     (case entry of
        None \<Rightarrow> 0
      | Some w \<Rightarrow>
          if started_at w < t then unat (spent_bytes w)
          else if started_at w < t + budget_window b then unat (ceiling_bytes b) + unat (spent_bytes w)
          else 2 * unat (ceiling_bytes b))"

definition times_of :: "('s request \<times> charge_outcome) list \<Rightarrow> nat list" where
  "times_of es = map (\<lambda>(r, _). rq_at r) es"

lemma spent_in_before: "(\<forall>x \<in> set (times_of es). x < t) \<Longrightarrow> spent_in s t len es = 0"
proof -
  assume "\<forall>x \<in> set (times_of es). x < t"
  then have "filter (\<lambda>r. rq_subject r = s \<and> t \<le> rq_at r \<and> rq_at r < t + len) (admitted es) = []"
    by (fastforce simp: times_of_def admitted_def filter_empty_conv)
  then show ?thesis by (simp add: spent_in_def)
qed

lemma span_bound_open:
  assumes "\<And>w. e = Some w \<Longrightarrow> unat (spent_bytes w) \<le> unat (ceiling_bytes b)"
    and "n \<le> span_bound b t e \<and> (now < t \<longrightarrow> n = 0)"
  shows "n \<le> span_bound b t (Some (open_window b now e))"
proof (cases e)
  case None
  with assms(2) show ?thesis by (simp add: span_bound_def)
next
  case (Some w)
  with assms(1) [OF Some] assms(2) show ?thesis
    by (cases "started_at w < t"; cases "now - started_at w \<ge> budget_window b")
      (auto simp: open_window_cases span_bound_def split: if_splits)
qed

lemma run_span:
  assumes "ledger_run l es l'" and "l = ledger_new (Some b)" and "ceiling_bytes b \<noteq> -1" and "sorted (times_of es)"
  shows "spent_in s t (budget_window b) es \<le> span_bound b t (map_of (led_windows l') s)
     \<and> (\<forall>w. map_of (led_windows l') s = Some w \<longrightarrow> (\<exists>x \<in> set (times_of es). started_at w \<le> x))"
  using assms
proof (induction rule: ledger_run.induct)
  case (none l)
  then show ?case by (simp add: ledger_new_def span_bound_def)
next
  case (more l es l' e l'')
  obtain rq c where e: "e = (rq, c)" by (cases e)
  have ok: "windows_ok b l'" using run_windows_ok [OF more(1), of b] new_windows_ok [of b] more.prems(1) by simp
  from more(2) e have ch: "charge l' (rq_subject rq) (rq_bytes rq) (rq_at rq) = (l'', c)" by (simp add: ledger_step_iff)
  have l: "led_budget l' = Some b" using ok by (simp add: windows_ok_def)
  note w = charge_window [OF l ch]
  have IH: "spent_in s t (budget_window b) es \<le> span_bound b t (map_of (led_windows l') s)"
    "\<forall>w. map_of (led_windows l') s = Some w \<longrightarrow> (\<exists>x \<in> set (times_of es). started_at w \<le> x)"
    using more.IH more.prems by (auto simp: times_of_def sorted_append)
  have late: "\<forall>x \<in> set (times_of es). x \<le> rq_at rq"
    using more.prems(3) e by (auto simp: times_of_def sorted_append)
  show ?case
  proof (cases "rq_subject rq = s")
    case False
    with IH w(3) e show ?thesis by (auto simp: times_of_def)
  next
    case True
    let ?e = "map_of (led_windows l') s" and ?W = "budget_window b" and ?C = "unat (ceiling_bytes b)"
    let ?w = "open_window b (rq_at rq) ?e"
    have within: "unat (spent_bytes w) \<le> ?C" if "?e = Some w" for w
      using ok that by (simp add: windows_ok_def word_le_nat_alt)
    have fits: "unat (spent_bytes ?w) + unat (rq_bytes rq) \<le> ?C
        \<and> unat (sat_add_u64 (spent_bytes ?w) (rq_bytes rq)) = unat (spent_bytes ?w) + unat (rq_bytes rq)"
      if "c = Admitted"
    proof -
      from that w(1) True have le: "sat_add_u64 (spent_bytes ?w) (rq_bytes rq) \<le> ceiling_bytes b" by simp
      with sat_add_fits [of "ceiling_bytes b" "spent_bytes ?w" "rq_bytes rq"] more.prems(2)
      have "unat (spent_bytes ?w) + unat (rq_bytes rq) < 2 ^ 64" by (simp add: not_less)
      with le show ?thesis by (simp add: word_le_nat_alt unat_sat_add_u64)
    qed
    have moved: "spent_in s t ?W es \<le> span_bound b t (Some ?w)"
      "started_at ?w \<le> rq_at rq"
    proof -
      show "started_at ?w \<le> rq_at rq" using IH(2) late by (cases ?e) (fastforce simp: open_window_cases)+
      have "spent_in s t ?W es \<le> span_bound b t ?e \<and> (rq_at rq < t \<longrightarrow> spent_in s t ?W es = 0)"
        using IH(1) spent_in_before [of es t] late by fastforce
      then show "spent_in s t ?W es \<le> span_bound b t (Some ?w)" using span_bound_open [OF within] by blast
    qed
    let ?add = "if c = Admitted \<and> t \<le> rq_at rq \<and> rq_at rq < t + ?W then unat (rq_bytes rq) else 0"
    have "span_bound b t (Some ?w) + ?add \<le> span_bound b t (map_of (led_windows l'') s)"
      using w(3) True fits moved(2) by (auto simp: span_bound_def)
    with moved w(3) True e show ?thesis by (auto simp: times_of_def)
  qed
qed

lemma span_bound_two: "(\<And>w. entry = Some w \<Longrightarrow> spent_bytes w \<le> ceiling_bytes b) \<Longrightarrow> span_bound b t entry \<le> 2 * unat (ceiling_bytes b)"
  by (cases entry) (auto simp: span_bound_def word_le_nat_alt)

section \<open>The ledger's answers\<close>

lemma min_of_least: "min_of xs = None \<longleftrightarrow> xs = []"
  "min_of xs = Some m \<Longrightarrow> m \<in> set xs \<and> (\<forall>x \<in> set xs. m \<le> x)"
proof -
  have fold: "fold min xs a \<in> insert a (set xs) \<and> (\<forall>x \<in> insert a (set xs). fold min xs a \<le> x)" for xs :: "u64 list" and a
  proof (induction xs arbitrary: a)
    case (Cons x xs)
    from Cons.IH [of "min x a"] show ?case by (auto simp: min_def split: if_splits)
  qed simp
  show "min_of xs = None \<longleftrightarrow> xs = []" by (simp add: min_of_def split: list.split)
  show "m \<in> set xs \<and> (\<forall>x \<in> set xs. m \<le> x)" if "min_of xs = Some m"
    using that fold by (cases xs) (auto simp: min_of_def)
qed

lemma min_of_at_least:
  "n \<le> (case min_of xs of Some t \<Rightarrow> t | None \<Rightarrow> c) \<longleftrightarrow> (\<forall>r \<in> set xs. n \<le> r) \<and> (xs = [] \<longrightarrow> n \<le> c)"
proof (cases "min_of xs")
  case None
  with min_of_least(1) [of xs] show ?thesis by simp
next
  case (Some m)
  then have "xs \<noteq> []" using min_of_least(1) [of xs] by auto
  with Some min_of_least(2) [OF Some] show ?thesis by (auto intro: order_trans)
qed

lemma sat_sub_fits:
  assumes "x \<le> c" and "c \<noteq> -1"
  shows "n \<le> sat_sub_u64 c x \<longleftrightarrow> sat_add_u64 x n \<le> c"
proof -
  have "unat (sat_sub_u64 c x) = unat c - unat x" using assms(1) by (simp add: sat_sub_u64_def unat_sub)
  moreover have "unat c < 2 ^ 64 - 1"
    using assms(2) by (simp add: word_order.not_eq_extremum word_less_nat_alt unsigned_minus_1_eq_mask mask_eq_exp_minus_1)
  ultimately show ?thesis using assms(1) unsigned_less [of n] unsigned_less [of x]
    by (auto simp: word_le_nat_alt unat_sat_add_u64 min_def)
qed

lemma run_total: "ledger_run l es l' \<Longrightarrow> led_budget l = Some b \<Longrightarrow>
    led_budget l' = Some b \<and> total_spent_bytes l' = total_spent_bytes l + of_nat (bytes_of (admitted es))"
proof (induction rule: ledger_run.induct)
  case (more l es l' e l'')
  obtain rq c where e: "e = (rq, c)" by (cases e)
  with more(2) have ch: "charge l' (rq_subject rq) (rq_bytes rq) (rq_at rq) = (l'', c)" by (simp add: ledger_step_iff)
  from more.IH [OF more.prems] charge_window(4,5) [OF _ ch] e show ?case by simp
qed simp

lemma run_started: 
  assumes "ledger_run l es l'" and "led_windows l = []" and "\<forall>x \<in> set (times_of es). x \<le> now"
  shows "map_of (led_windows l') s = Some w \<Longrightarrow> started_at w \<le> now"
  using assms
proof (induction arbitrary: w rule: ledger_run.induct)
  case (more l es l' e l'')
  obtain rq c where e: "e = (rq, c)" by (cases e)
  with more(2) have ch: "charge l' (rq_subject rq) (rq_bytes rq) (rq_at rq) = (l'', c)" by (simp add: ledger_step_iff)
  have now: "rq_at rq \<le> now" and IH: "\<And>w. map_of (led_windows l') s = Some w \<Longrightarrow> started_at w \<le> now"
    using more e by (auto simp: times_of_def)
  show ?case
  proof (cases "led_budget l'")
    case None
    with ch more IH show ?thesis by (simp add: charge_free)
  next
    case (Some b)
    note w = charge_window [OF Some ch]
    have "started_at (open_window b (rq_at rq) (map_of (led_windows l') s)) \<le> now"
      using now IH by (cases "map_of (led_windows l') s") (auto simp: open_window_cases)
    with w(3) more.prems(1) IH show ?thesis by (auto split: if_splits)
  qed
qed simp

text \<open>Charges of other subjects leave a subject's window alone.\<close>

lemma run_others:
  "ledger_run l es l' \<Longrightarrow> led_budget l = Some b \<Longrightarrow> \<forall>(r, _) \<in> set es. rq_subject r \<noteq> s \<Longrightarrow>
     led_budget l' = Some b \<and> map_of (led_windows l') s = map_of (led_windows l) s"
proof (induction rule: ledger_run.induct)
  case (more l es l' e l'')
  obtain rq c where e: "e = (rq, c)" by (cases e)
  with more(2) have ch: "charge l' (rq_subject rq) (rq_bytes rq) (rq_at rq) = (l'', c)" by (simp add: ledger_step_iff)
  from more.IH more.prems charge_window(3,5) [OF _ ch] e show ?case by auto
qed simp

lemma charge_outcome:
  "led_budget l = Some b \<Longrightarrow> snd (charge l s n now) =
     (let w = open_window b now (map_of (led_windows l) s) in
      if sat_add_u64 (spent_bytes w) n \<le> ceiling_bytes b then Admitted else ChargeRefused (budget_window b - (now - started_at w)))"
  by (auto simp: charge_def Let_def not_less)

fun replay :: "'s spend_ledger \<Rightarrow> 's request list \<Rightarrow> ('s request \<times> charge_outcome) list \<times> 's spend_ledger" where
  "replay l [] = ([], l)"
| "replay l (r # rs) =
     (let (l', c) = charge l (rq_subject r) (rq_bytes r) (rq_at r); (es, l'') = replay l' rs in ((r, c) # es, l''))"

lemma ledger_run_append: "ledger_run l' es' l'' \<Longrightarrow> ledger_run l es l' \<Longrightarrow> ledger_run l (es @ es') l''"
  by (induction rule: ledger_run.induct) (auto simp flip: append_assoc intro: ledger_run.more)

lemma replay_run: "replay l rs = (es, l') \<Longrightarrow> ledger_run l es l'"
proof (induction rs arbitrary: l es)
  case (Cons r rs)
  obtain l1 c where c: "charge l (rq_subject r) (rq_bytes r) (rq_at r) = (l1, c)" by (cases "charge l (rq_subject r) (rq_bytes r) (rq_at r)")
  from Cons.prems c obtain es' where es: "es = [(r, c)] @ es'" "replay l1 rs = (es', l')" by (auto split: prod.splits)
  have "ledger_run l [(r, c)] l1" using ledger_run.more [OF ledger_run.none ledger_step.charged [OF c]] by simp
  from ledger_run_append [OF Cons.IH [OF es(2)] this] es(1) show ?case by simp
qed (auto intro: ledger_run.none)

section \<open>Properties\<close>

definition sample_budget :: spend_budget where
  "sample_budget = \<lparr>ceiling_bytes = 100, budget_window = 60\<rparr>"

definition sample_requests :: "string request list" where
  "sample_requests = [\<lparr>rq_subject = ''ann'', rq_bytes = 60, rq_at = 10\<rparr>, \<lparr>rq_subject = ''bob'', rq_bytes = 90, rq_at = 15\<rparr>,
     \<lparr>rq_subject = ''ann'', rq_bytes = 40, rq_at = 69\<rparr>, \<lparr>rq_subject = ''ann'', rq_bytes = 100, rq_at = 70\<rparr>]"

definition sample_ledger :: "string spend_ledger" where
  "sample_ledger = \<lparr>led_budget = Some sample_budget, led_windows = [(''ann'', \<lparr>started_at = 70, spent_bytes = 100\<rparr>),
     (''bob'', \<lparr>started_at = 15, spent_bytes = 90\<rparr>)], total_spent_bytes = 290\<rparr>"

lemma sample_replay:
  "replay (ledger_new (Some sample_budget)) sample_requests = (map (\<lambda>r. (r, Admitted)) sample_requests, sample_ledger)"
  by (simp add: sample_requests_def sample_budget_def ledger_new_def sample_ledger_def charge_def open_window_def Let_def sat_add_u64_def)

lemmas sample_run = replay_run [OF sample_replay]

text \<open>C14: a ledger with a byte ceiling admits a subject at most twice the ceiling in any span as
  long as its window, however its requests are timed: what it admitted in the window the span began
  in, and in the next one.\<close>
theorem spend_at_most_twice:
  assumes "ledger_run (ledger_new (Some b)) es l" and "ceiling_bytes b \<noteq> -1" and "sorted (times_of es)"
  shows "spent_in s t (budget_window b) es \<le> 2 * unat (ceiling_bytes b)"
proof -
  have "windows_ok b l" using run_windows_ok [OF assms(1)] new_windows_ok by blast
  then have "span_bound b t (map_of (led_windows l) s) \<le> 2 * unat (ceiling_bytes b)"
    by (intro span_bound_two) (simp add: windows_ok_def)
  with run_span [OF assms(1) refl assms(2,3), of s t] show ?thesis by simp
qed

theorem spend_at_most_twice_witness:
  "spent_in ''ann'' 11 60 (map (\<lambda>r. (r, Admitted)) sample_requests) = 140
   \<and> spent_in ''ann'' 11 60 (map (\<lambda>r. (r, Admitted)) sample_requests) \<le> 2 * unat (100 :: u64)"
  using spend_at_most_twice [OF sample_run, of "''ann''" 11]
  by (simp add: sample_budget_def times_of_def sample_requests_def spent_in_def admitted_def bytes_of_def)

text \<open>C15: whatever is charged, in whatever order, no window of a subject holds more than the ceiling
  and the total the replica reports is the sum of the admitted estimates modulo $2^{64}$.\<close>
theorem ledger_accounts:
  assumes "ledger_run (ledger_new (Some b)) es l"
  shows "(\<forall>s w. map_of (led_windows l) s = Some w \<longrightarrow> spent_bytes w \<le> ceiling_bytes b)
     \<and> spent_bytes_total l = Some (of_nat (bytes_of (admitted es)))"
  using run_windows_ok [OF assms, of b] new_windows_ok [of b] run_total [OF assms, of b]
  by (auto simp: windows_ok_def ledger_new_def spent_bytes_total_def)

theorem ledger_accounts_witness:
  "spent_bytes_total sample_ledger = Some 290 \<and> list_all (\<lambda>s. case map_of (led_windows sample_ledger) s of None \<Rightarrow> True | Some w \<Rightarrow> spent_bytes w \<le> 100) [''ann'', ''bob'']"
  using ledger_accounts [OF sample_run] by (auto simp: sample_budget_def admitted_def sample_requests_def bytes_of_def split: option.splits)

text \<open>C12: a refusal says how long to wait. A question the ceiling can hold is admitted from the
  announced instant on and refused, with the rest of the wait, before it, whatever other subjects are
  charged meanwhile.\<close>
theorem refused_then_admitted:
  assumes "ledger_run (ledger_new (Some b)) es l" and "\<forall>x \<in> set (times_of es). x \<le> now"
    and "charge l s n now = (l1, ChargeRefused wait)" and "n \<le> ceiling_bytes b"
    and "ledger_run l1 others l2" and "\<forall>(r, _) \<in> set others. rq_subject r \<noteq> s" and "now \<le> later"
  shows "snd (charge l2 s n later) = (if now + wait \<le> later then Admitted else ChargeRefused (now + wait - later))"
proof -
  have ok: "windows_ok b l" using run_windows_ok [OF assms(1)] new_windows_ok by blast
  then have l: "led_budget l = Some b" by (simp add: windows_ok_def)
  let ?w = "open_window b now (map_of (led_windows l) s)"
  note w = charge_window [OF l assms(3)]
  have over: "\<not> sat_add_u64 (spent_bytes ?w) n \<le> ceiling_bytes b" and wait: "wait = budget_window b - (now - started_at ?w)"
    using w(1,2) by auto
  have l2: "led_budget l2 = Some b \<and> map_of (led_windows l2) s = Some ?w"
    using run_others [OF assms(5) _ assms(6)] w(3,5) l by simp
  obtain w0 where w0: "map_of (led_windows l) s = Some w0" "?w = w0" "now - started_at w0 < budget_window b"
    using over sat_add_zero assms(4) by (cases "map_of (led_windows l) s") (auto simp: open_window_cases split: if_splits)
  have "started_at w0 \<le> now" using run_started [OF assms(1) _ assms(2) w0(1)] by (simp add: ledger_new_def)
  then show ?thesis using l2 w0 wait over sat_add_zero assms(4,7)
    by (auto simp: charge_outcome open_window_cases Let_def)
qed

theorem refused_then_admitted_witness:
  "snd (charge sample_ledger ''ann'' 10 100) = ChargeRefused 30
   \<and> snd (charge (fst (charge sample_ledger ''ann'' 10 100)) ''ann'' 10 120) = ChargeRefused 10
   \<and> snd (charge (fst (charge sample_ledger ''ann'' 10 100)) ''ann'' 10 130) = Admitted"
proof -
  have r: "charge sample_ledger ''ann'' 10 100 = (sample_ledger, ChargeRefused 30)"
    by (simp add: sample_ledger_def sample_budget_def charge_def open_window_def Let_def sat_add_u64_def)
  have "\<forall>x \<in> set (times_of (map (\<lambda>r. (r, Admitted)) sample_requests)). x \<le> (100 :: nat)"
    by (simp add: times_of_def sample_requests_def)
  from refused_then_admitted [OF sample_run this r _ ledger_run.none, of 120] refused_then_admitted [OF sample_run this r _ ledger_run.none, of 130]
  show ?thesis unfolding r by (simp add: sample_budget_def)
qed

text \<open>C24: the reported headroom is exact: it is the most that every subject can be charged at that
  instant.\<close>
theorem headroom_exact:
  assumes "ledger_run (ledger_new (Some b)) es l" and "ceiling_bytes b \<noteq> -1"
  shows "\<exists>h. headroom_bytes l now = Some h \<and> (\<forall>n. n \<le> h \<longleftrightarrow> (\<forall>s. snd (charge l s n now) = Admitted))"
proof -
  have ok: "windows_ok b l" using run_windows_ok [OF assms(1)] new_windows_ok by blast
  then have l: "led_budget l = Some b" and dist: "distinct (map fst (led_windows l))" by (simp_all add: windows_ok_def)
  let ?open = "filter (\<lambda>w. now - started_at w < budget_window b) (map snd (led_windows l))"
  let ?rooms = "map (\<lambda>w. sat_sub_u64 (ceiling_bytes b) (spent_bytes w)) ?open"
  have vals: "w \<in> set (map snd (led_windows l)) \<longleftrightarrow> (\<exists>s. map_of (led_windows l) s = Some w)" for w
    using dist by force
  have one: "snd (charge l s n now) = Admitted \<longleftrightarrow>
      (case map_of (led_windows l) s of Some w \<Rightarrow> if now - started_at w < budget_window b
         then n \<le> sat_sub_u64 (ceiling_bytes b) (spent_bytes w) else n \<le> ceiling_bytes b | None \<Rightarrow> n \<le> ceiling_bytes b)" for s n
    using ok sat_sub_fits [OF _ assms(2)] sat_add_zero
    by (auto simp: charge_outcome [OF l] open_window_cases Let_def windows_ok_def split: option.split)
  have le: "sat_sub_u64 c x \<le> c" for c x by (simp add: sat_sub_u64_def word_sub_le)
  have all: "(\<forall>s. snd (charge l s n now) = Admitted) \<longleftrightarrow>
      (\<forall>r \<in> set ?rooms. n \<le> r) \<and> (?rooms = [] \<longrightarrow> n \<le> ceiling_bytes b)" (is "?all \<longleftrightarrow> ?each \<and> ?none") for n
  proof
    assume a: ?all
    have "n \<le> sat_sub_u64 (ceiling_bytes b) (spent_bytes w)" if "w \<in> set ?open" for w
    proof -
      from that vals obtain s where "map_of (led_windows l) s = Some w" by auto
      with a one [of s n] that show ?thesis by simp
    qed
    moreover have "n \<le> ceiling_bytes b" if "?rooms = []"
    proof -
      have closed: "\<not> now - started_at w < budget_window b" if "map_of (led_windows l) s = Some w" for s w
        using \<open>?rooms = []\<close> that vals [of w] by (auto simp: filter_empty_conv dest: map_of_SomeD)
      with a one [of undefined n] show ?thesis by (auto split: option.splits if_splits)
    qed
    ultimately show "?each \<and> ?none" by auto
  next
    assume n: "?each \<and> ?none"
    have "n \<le> ceiling_bytes b"
    proof (cases ?open)
      case (Cons w ws)
      with n have "n \<le> sat_sub_u64 (ceiling_bytes b) (spent_bytes w)" by simp
      then show ?thesis using le order_trans by blast
    qed (use n in simp)
    moreover have "n \<le> sat_sub_u64 (ceiling_bytes b) (spent_bytes w)"
      if "map_of (led_windows l) s = Some w" "now - started_at w < budget_window b" for s w
    proof -
      have "w \<in> set ?open" using that vals by auto
      with n show ?thesis by auto
    qed
    ultimately show ?all unfolding one by (auto split: option.split)
  qed
  have h: "headroom_bytes l now = Some (case min_of ?rooms of Some t \<Rightarrow> t | None \<Rightarrow> ceiling_bytes b)"
    using l by (simp add: headroom_bytes_def)
  have "n \<le> (case min_of ?rooms of Some t \<Rightarrow> t | None \<Rightarrow> ceiling_bytes b)
      \<longleftrightarrow> (\<forall>r \<in> set ?rooms. n \<le> r) \<and> (?rooms = [] \<longrightarrow> n \<le> ceiling_bytes b)" for n
    by (rule min_of_at_least)
  then show ?thesis unfolding h using all by blast
qed

theorem headroom_exact_witness:
  "headroom_bytes sample_ledger 72 = Some 0 \<and> headroom_bytes sample_ledger 131 = Some 100
   \<and> (\<forall>s. snd (charge sample_ledger s 100 131) = Admitted)"
proof -
  have h: "headroom_bytes sample_ledger 72 = Some 0" "headroom_bytes sample_ledger 131 = Some 100"
    by (simp_all add: headroom_bytes_def sample_ledger_def sample_budget_def min_of_def sat_sub_u64_def)
  with headroom_exact [OF sample_run, of 131] show ?thesis by (auto simp: sample_budget_def)
qed

end
