(* ===== verification/Warehouses.thy ===== *)
theory Warehouses
  imports Compile Identity Spend
begin

text \<open>
  The data systems of a deployment as the application sees them (\<open>sutura-app/src/warehouses.rs\<close>,
  \<open>sutura-domain/src/warehouse\<close>): what a warehouse is asked, how its errors are read, deadlines,
  result rows, and the set of open warehouses. A data system itself is an argument: a record of the
  functions of the \<open>Warehouse\<close> port, over a type of errors and a type of result batches.
\<close>

section \<open>Deadlines\<close>

text \<open>Instants and durations are nanosecond counts, as in the spend ledger.\<close>

datatype no_budget_error = NoBudget

definition budget_parse :: "nat \<Rightarrow> no_budget_error + nat" where
  "budget_parse d = (if d = 0 then Inl NoBudget else Inr d)"

record deadline =
  dl_opened :: nat
  dl_budget :: nat

definition nanos_per_second :: nat where
  "nanos_per_second = 1000000000"

definition budget_seconds :: "deadline \<Rightarrow> nat" where
  "budget_seconds d = dl_budget d div nanos_per_second"

definition remaining_at :: "deadline \<Rightarrow> nat \<Rightarrow> nat option" where
  "remaining_at d now =
     (let elapsed = now - dl_opened d in
      if elapsed > dl_budget d then None
      else let remaining = dl_budget d - elapsed in if remaining = 0 then None else Some remaining)"

definition deadline_exceeded :: "deadline \<Rightarrow> refusal_reason" where
  "deadline_exceeded d = DeadlineExceeded (of_nat (budget_seconds d))"

section \<open>Rows\<close>

text \<open>A double is the text Rust displays it as.\<close>

datatype cell = CellNull | CellInteger int | CellReal string | CellText ustr

definition show_int :: "int \<Rightarrow> string" where
  "show_int i = (if i < 0 then CHR ''-'' # show_nat (nat (- i)) else show_nat (nat i))"

fun cell_rendered_len :: "cell \<Rightarrow> nat" where
  "cell_rendered_len CellNull = 4"
| "cell_rendered_len (CellText v) = utf8_len v"
| "cell_rendered_len (CellInteger i) = length (show_int i)"
| "cell_rendered_len (CellReal v) = length v"

record row_set =
  rs_columns :: "ustr list"
  rs_rows :: "cell list list"

datatype malformed_row_set = RowWidth nat nat nat

definition row_set_new :: "ustr list \<Rightarrow> cell list list \<Rightarrow> malformed_row_set + row_set" where
  "row_set_new columns rows =
     (case List.find (\<lambda>(_, row). length row \<noteq> length columns) (enumerated rows) of
        Some (index, row) \<Rightarrow> Inl (RowWidth index (length row) (length columns))
      | None \<Rightarrow> Inr \<lparr>rs_columns = columns, rs_rows = rows\<rparr>)"

fun column_index_from :: "nat \<Rightarrow> nat option \<Rightarrow> ustr \<Rightarrow> ustr list \<Rightarrow> nat option" where
  "column_index_from index found label [] = found"
| "column_index_from index found label (n # ns) =
     (if n = label then (if found \<noteq> None then None else column_index_from (index + 1) (Some index) label ns)
      else column_index_from (index + 1) found label ns)"

definition column_index :: "row_set \<Rightarrow> ustr \<Rightarrow> nat option" where
  "column_index rs label = column_index_from 0 None label (rs_columns rs)"

definition row_cell :: "row_set \<Rightarrow> nat \<Rightarrow> nat \<Rightarrow> cell option" where
  "row_cell rs row column =
     (if row < length (rs_rows rs) \<and> column < length (rs_rows rs ! row) then Some (rs_rows rs ! row ! column) else None)"

definition rows_scalar :: "row_set \<Rightarrow> cell option" where
  "rows_scalar rs = (case (rs_columns rs, rs_rows rs) of ([_], [[c]]) \<Rightarrow> Some c | _ \<Rightarrow> None)"

definition rendered_byte_len :: "row_set \<Rightarrow> nat" where
  "rendered_byte_len rs = sum_list (map cell_rendered_len (concat (rs_rows rs)))"

definition exceeds_row_cap_of :: "nat \<Rightarrow> u32 \<Rightarrow> bool" where
  "exceeds_row_cap_of returned max_rows \<longleftrightarrow> returned > unat max_rows"

definition exceeds_response_bound :: "row_set \<Rightarrow> u64 option" where
  "exceeds_response_bound rs = (if rendered_byte_len rs > unat RESPONSE_BYTES_DEFAULT then Some RESPONSE_BYTES_DEFAULT else None)"

section \<open>Collecting rows under a budget\<close>

text \<open>The sizes of a row's vector and of a cell in memory are the compiler's: they are arguments.\<close>

record cell_sizes =
  size_of_row :: nat
  size_of_cell :: nat

record budgeted =
  bg_most_bytes :: nat
  bg_rows :: "cell list list"
  bg_bytes :: nat

datatype row_budget_exceeded = OverBudget nat

definition budgeted_collecting :: "nat \<Rightarrow> budgeted" where
  "budgeted_collecting most_bytes = \<lparr>bg_most_bytes = most_bytes, bg_rows = [], bg_bytes = 0\<rparr>"

definition sat_mul_usize :: "nat \<Rightarrow> nat \<Rightarrow> nat" where
  "sat_mul_usize a b = min (a * b) usize_max"

definition row_bytes :: "cell_sizes \<Rightarrow> cell list \<Rightarrow> nat" where
  "row_bytes sz cells =
     (let rendered = sat_sum_usize (map cell_rendered_len cells) in
      sat_add_usize (sat_add_usize (size_of_row sz) (sat_mul_usize (length cells) (size_of_cell sz))) rendered)"

definition budgeted_push :: "cell_sizes \<Rightarrow> budgeted \<Rightarrow> cell list \<Rightarrow> row_budget_exceeded + budgeted" where
  "budgeted_push sz b cells =
     (let spending = sat_add_usize (bg_bytes b) (sat_mul_usize (row_bytes sz cells) 3) in
      if spending > bg_most_bytes b then Inl (OverBudget (bg_most_bytes b))
      else Inr (b\<lparr>bg_bytes := spending, bg_rows := bg_rows b @ [cells]\<rparr>))"

fun budgeted_each :: "cell_sizes \<Rightarrow> budgeted \<Rightarrow> cell list list \<Rightarrow> row_budget_exceeded + budgeted" where
  "budgeted_each sz b [] = Inr b"
| "budgeted_each sz b (r # rs) = bind_res (budgeted_push sz b r) (\<lambda>b. budgeted_each sz b rs)"

definition budgeted_finish :: "budgeted \<Rightarrow> ustr list \<Rightarrow> malformed_row_set + row_set" where
  "budgeted_finish b columns = row_set_new columns (bg_rows b)"

section \<open>Who pays\<close>

datatype 'e billed = BilledNotTaken name | BilledUndecided name | BilledSource 'e

fun into_source :: "'e billed \<Rightarrow> refusal_reason + 'e" where
  "into_source (BilledSource cause) = Inr cause"
| "into_source (BilledNotTaken source) = Inl (BillToNotAllowed source)"
| "into_source (BilledUndecided source) = Inl (NoBillingProject source)"

definition unstated :: "bill_to \<Rightarrow> name \<Rightarrow> 'e billed + unit" where
  "unstated b source = (case b of Unstated \<Rightarrow> Inr () | _ \<Rightarrow> Inl (BilledNotTaken source))"

section \<open>Warehouses\<close>

datatype preflight = NotAsked | Accepted "u64 option"

text \<open>The port: what a data system answers, and how its own errors are read.\<close>

record ('e, 'r) warehouse =
  wh_source :: name
  wh_posture :: source_posture
  wh_executes_legs :: bool
  wh_dry_run :: "executable \<Rightarrow> presented \<Rightarrow> bill_to \<Rightarrow> request_context \<Rightarrow> deadline \<Rightarrow> 'e billed + preflight"
  wh_execute :: "executable \<Rightarrow> presented \<Rightarrow> bill_to \<Rightarrow> request_context \<Rightarrow> deadline \<Rightarrow> 'e billed + 'r"
  wh_working_set_exhausted :: "'e \<Rightarrow> u64 option"
  wh_result_did_not_fit :: "'e \<Rightarrow> bool"
  wh_source_refused :: "'e \<Rightarrow> bool"
  wh_deadline_exceeded :: "'e \<Rightarrow> bool"
  wh_leg_not_certified :: "'e \<Rightarrow> bool"

text \<open>The bodies the port gives \<open>dry_run_billed\<close> and \<open>execute_billed\<close>, over an adapter's own calls.\<close>

definition default_dry_run_billed ::
  "name \<Rightarrow> (executable \<Rightarrow> presented \<Rightarrow> deadline \<Rightarrow> 'e + preflight)
     \<Rightarrow> executable \<Rightarrow> presented \<Rightarrow> bill_to \<Rightarrow> request_context \<Rightarrow> deadline \<Rightarrow> 'e billed + preflight" where
  "default_dry_run_billed source dry_run ex p b labels d = bind_res (unstated b source) (\<lambda>_. map_err BilledSource (dry_run ex p d))"

definition default_execute_billed ::
  "name \<Rightarrow> (executable \<Rightarrow> presented \<Rightarrow> deadline \<Rightarrow> 'e + 'r)
     \<Rightarrow> executable \<Rightarrow> presented \<Rightarrow> bill_to \<Rightarrow> request_context \<Rightarrow> deadline \<Rightarrow> 'e billed + 'r" where
  "default_execute_billed source execute ex p b labels d = bind_res (unstated b source) (\<lambda>_. map_err BilledSource (execute ex p d))"

record ('e, 'r) warehouses =
  whs_by_source :: "(name, ('e, 'r) warehouse) btree"
  whs_splits :: "(name, nat \<times> nat) btree"

datatype source_already_open = SourceAlreadyOpen name

definition warehouses_of :: "('e, 'r) warehouse \<Rightarrow> ('e, 'r) warehouses" where
  "warehouses_of one = \<lparr>whs_by_source = bt_insert (wh_source one) one [], whs_splits = []\<rparr>"

definition warehouses_and :: "('e, 'r) warehouses \<Rightarrow> ('e, 'r) warehouse \<Rightarrow> source_already_open + ('e, 'r) warehouses" where
  "warehouses_and ws another =
     (if bt_get (whs_by_source ws) (wh_source another) \<noteq> None then Inl (SourceAlreadyOpen (wh_source another))
      else Inr (ws\<lparr>whs_by_source := bt_insert (wh_source another) another (whs_by_source ws)\<rparr>))"

definition warehouses_get :: "('e, 'r) warehouses \<Rightarrow> name \<Rightarrow> ('e, 'r) warehouse option" where
  "warehouses_get ws source = bt_get (whs_by_source ws) source"

definition warehouses_splitting :: "('e, 'r) warehouses \<Rightarrow> name \<Rightarrow> nat \<Rightarrow> nat \<Rightarrow> ('e, 'r) warehouses" where
  "warehouses_splitting ws source above_bytes readers = ws\<lparr>whs_splits := bt_insert source (above_bytes, readers) (whs_splits ws)\<rparr>"

definition split_at_of :: "('e, 'r) warehouses \<Rightarrow> name \<Rightarrow> (nat \<times> nat) option" where
  "split_at_of ws source = bt_get (whs_splits ws) source"

fun merge_warehouses ::
  "(name, ('e, 'r) warehouse) btree \<Rightarrow> (name \<times> ('e, 'r) warehouse) list \<Rightarrow> source_already_open + (name, ('e, 'r) warehouse) btree" where
  "merge_warehouses m [] = Inr m"
| "merge_warehouses m ((source, adapter) # rest) =
     (if bt_get m source \<noteq> None then Inl (SourceAlreadyOpen source) else merge_warehouses (bt_insert source adapter m) rest)"

definition warehouses_merge :: "('e, 'r) warehouses \<Rightarrow> ('e, 'r) warehouses \<Rightarrow> source_already_open + ('e, 'r) warehouses" where
  "warehouses_merge ws other =
     bind_res (merge_warehouses (whs_by_source ws) (whs_by_source other)) (\<lambda>m.
       Inr \<lparr>whs_by_source = m, whs_splits = fold (\<lambda>(k, v). bt_insert k v) (whs_splits other) (whs_splits ws)\<rparr>)"

definition executed_on :: "('e, 'r) warehouses \<Rightarrow> name \<Rightarrow> executed_as option" where
  "executed_on ws source = map_option (\<lambda>w. executed_of source (wh_posture w)) (warehouses_get ws source)"

text \<open>Every open warehouse is registered under its own source, once.\<close>

definition warehouses_ok :: "('e, 'r) warehouses \<Rightarrow> bool" where
  "warehouses_ok ws \<longleftrightarrow> bt_inv (whs_by_source ws) \<and> (\<forall>(s, w) \<in> set (whs_by_source ws). wh_source w = s)"

lemma set_bt_insert_inv: "bt_inv m \<Longrightarrow> set (bt_insert k v m) = insert (k, v) {e \<in> set m. fst e \<noteq> k}"
  by (rule set_eqI) (auto simp: in_set_bt_insert split_paired_all)

lemma warehouses_of_ok: "warehouses_ok (warehouses_of w)"
  by (simp add: warehouses_ok_def warehouses_of_def bt_inv_def)

lemma warehouses_and_ok: "warehouses_ok ws \<Longrightarrow> warehouses_and ws w = Inr ws' \<Longrightarrow> warehouses_ok ws'"
  by (auto simp: warehouses_ok_def warehouses_and_def bt_inv_insert set_bt_insert_inv split: if_splits)

lemma merge_warehouses_ok:
  "merge_warehouses m es = Inr m' \<Longrightarrow> bt_inv m \<Longrightarrow> \<forall>(s, w) \<in> set (m @ es). wh_source w = s \<Longrightarrow>
     bt_inv m' \<and> (\<forall>(s, w) \<in> set m'. wh_source w = s)"
  by (induction m es rule: merge_warehouses.induct) (auto simp: bt_inv_insert set_bt_insert_inv split: if_splits)

lemma warehouses_merge_ok: "warehouses_ok ws \<Longrightarrow> warehouses_ok other \<Longrightarrow> warehouses_merge ws other = Inr ws' \<Longrightarrow> warehouses_ok ws'"
proof -
  assume ok: "warehouses_ok ws" "warehouses_ok other" and m: "warehouses_merge ws other = Inr ws'"
  from m obtain by_source where "merge_warehouses (whs_by_source ws) (whs_by_source other) = Inr by_source"
    and "whs_by_source ws' = by_source" by (auto simp: warehouses_merge_def bind_res_eq_Inr)
  moreover have "\<forall>(s, w) \<in> set (whs_by_source ws @ whs_by_source other). wh_source w = s"
    using ok unfolding warehouses_ok_def set_append ball_Un by blast
  ultimately show ?thesis using merge_warehouses_ok ok(1) by (simp add: warehouses_ok_def)
qed

section \<open>What a collection costs\<close>

definition row_cost :: "cell_sizes \<Rightarrow> cell list \<Rightarrow> nat" where
  "row_cost sz cells = size_of_row sz + length cells * size_of_cell sz + sum_list (map cell_rendered_len cells)"

lemma row_bytes_cost: "row_bytes sz cells = min (row_cost sz cells) usize_max"
  by (auto simp: row_bytes_def row_cost_def sat_sum_usize_min sat_mul_usize_def sat_add_usize_def min_def)

lemma budgeted_push_ok:
  assumes "bg_most_bytes b < usize_max"
  shows "budgeted_push sz b r = Inr b' \<longleftrightarrow> bg_bytes b + 3 * row_cost sz r \<le> bg_most_bytes b
     \<and> b' = b\<lparr>bg_bytes := bg_bytes b + 3 * row_cost sz r, bg_rows := bg_rows b @ [r]\<rparr>"
  using assms by (auto simp: budgeted_push_def Let_def row_bytes_cost sat_mul_usize_def sat_add_usize_def min_def)

definition rows_cost :: "cell_sizes \<Rightarrow> cell list list \<Rightarrow> nat" where
  "rows_cost sz rows = 3 * (\<Sum>r \<leftarrow> rows. row_cost sz r)"

lemma budgeted_each_ok:
  assumes "bg_most_bytes b < usize_max" and "bg_bytes b \<le> bg_most_bytes b"
  shows "budgeted_each sz b rows = Inr b' \<longleftrightarrow> bg_bytes b + rows_cost sz rows \<le> bg_most_bytes b
     \<and> b' = b\<lparr>bg_bytes := bg_bytes b + rows_cost sz rows, bg_rows := bg_rows b @ rows\<rparr>"
  using assms
proof (induction rows arbitrary: b)
  case Nil
  then show ?case by (auto simp: rows_cost_def)
next
  case (Cons r rows)
  note push = budgeted_push_ok [OF Cons.prems(1), of sz r]
  show ?case
  proof (cases "bg_bytes b + 3 * row_cost sz r \<le> bg_most_bytes b")
    case True
    let ?b = "b\<lparr>bg_bytes := bg_bytes b + 3 * row_cost sz r, bg_rows := bg_rows b @ [r]\<rparr>"
    from True push have "budgeted_push sz b r = Inr ?b" by simp
    with Cons.IH [of ?b] Cons.prems True show ?thesis by (simp add: rows_cost_def algebra_simps)
  next
    case False
    with push have "\<And>c. budgeted_push sz b r \<noteq> Inr c" by simp
    then have "budgeted_each sz b (r # rows) \<noteq> Inr b'" by (auto simp: bind_res_eq_Inr)
    with False show ?thesis by (simp add: rows_cost_def algebra_simps)
  qed
qed

lemma row_set_new_ok:
  "row_set_new columns rows = Inr rs \<longleftrightarrow> (\<forall>row \<in> set rows. length row = length columns) \<and> rs = \<lparr>rs_columns = columns, rs_rows = rows\<rparr>"
proof -
  have "List.find (\<lambda>(_, row). length row \<noteq> length columns) (enumerated rows) = None \<longleftrightarrow> (\<forall>row \<in> set rows. length row = length columns)"
    by (fastforce simp: find_None_iff enumerated_def in_set_zip in_set_conv_nth)
  then show ?thesis by (auto simp: row_set_new_def split: option.splits prod.splits)
qed

text \<open>
  C23: collecting the rows of a result under a budget succeeds exactly when three times what the rows
  cost in memory, as held and as rendered, stays within it; the rows come out in the order they went in,
  and the set they make has every row as wide as its columns. No collection ends over its budget.
\<close>

theorem collection_within_budget:
  assumes "most_bytes < usize_max"
  shows "(\<exists>b. budgeted_each sz (budgeted_collecting most_bytes) rows = Inr b \<and> budgeted_finish b columns = Inr rs)
    \<longleftrightarrow> rows_cost sz rows \<le> most_bytes
      \<and> (\<forall>r \<in> set rows. length r = length columns) \<and> rs = \<lparr>rs_columns = columns, rs_rows = rows\<rparr>"
  using budgeted_each_ok [of "budgeted_collecting most_bytes" sz rows] assms
  by (auto simp: budgeted_collecting_def budgeted_finish_def row_set_new_ok)

theorem collection_within_budget_witness:
  "\<exists>b rs. budgeted_each \<lparr>size_of_row = 24, size_of_cell = 24\<rparr> (budgeted_collecting 400) [[CellInteger 7, CellNull]] = Inr b
     \<and> budgeted_finish b [codes ''a'', codes ''b''] = Inr rs \<and> rs_rows rs = [[CellInteger 7, CellNull]]"
  using collection_within_budget [of 400 "\<lparr>size_of_row = 24, size_of_cell = 24\<rparr>" "[[CellInteger 7, CellNull]]" "[codes ''a'', codes ''b'']"
      "\<lparr>rs_columns = [codes ''a'', codes ''b''], rs_rows = [[CellInteger 7, CellNull]]\<rparr>"]
  by (auto simp: rows_cost_def row_cost_def usize_max_def show_int_def show_nat.simps)

end
