(* ===== verification/Answer.thy ===== *)
theory Answer
  imports Warehouses
begin

text \<open>
  The answer path of the application (\<open>sutura-app/src/lib.rs\<close>, \<open>federated.rs\<close>): a
  question is compiled against what the caller sees, credentials are minted for exactly the data systems
  it reads, each of them is asked what the statement would cost, the estimate is charged to the caller,
  and only then anything runs; the rows that come back are bounded before they leave. The broker, the
  data systems, the combiner, the clock and the digests are arguments. What a run does to the world is
  the list of its events, in order; the spend ledger is threaded through.
\<close>

section \<open>Outcomes\<close>

record ('dg, 'sd) provenance =
  pv_version :: string
  pv_digest :: 'dg
  pv_schemas :: 'sd
  pv_executed_as :: executed_as
  pv_metrics :: "metric_digest list"

datatype ('dg, 'sd) tool_outcome = ToolAnswer "('dg, 'sd) provenance" row_set | ToolRefusal refusal_reason

record ('dg, 'sd) answered =
  an_outcome :: "('dg, 'sd) tool_outcome"
  an_executed_until :: "expiry option"

definition declined_before_minting :: "('dg, 'sd) tool_outcome \<Rightarrow> ('dg, 'sd) answered" where
  "declined_before_minting outcome = \<lparr>an_outcome = outcome, an_executed_until = None\<rparr>"

definition answered_under :: "leg_credentials \<Rightarrow> ('dg, 'sd) tool_outcome \<Rightarrow> ('dg, 'sd) answered" where
  "answered_under c outcome = \<lparr>an_outcome = outcome, an_executed_until = Some (lc_not_after c)\<rparr>"

definition answered_refused :: "leg_credentials \<Rightarrow> refusal_reason \<Rightarrow> ('dg, 'sd) answered" where
  "answered_refused c reason = answered_under c (ToolRefusal reason)"

datatype 'ue federation_miswired =
    LegsCollide name
  | LegsMiswired legs_miswired
  | LegNotGivenOut name
  | RankedAnswer 'ue

text \<open>The errors of the service: of the compiler, a data system, the combiner, the broker, the reading
  of a result and of the digests of the definitions.\<close>

datatype ('d, 'e, 'c, 'm, 'u, 'ue) service_error =
    ServiceCompile "'d compile_failure"
  | ServiceWarehouse 'e
  | ServiceCombine 'c
  | ServiceMiswired "'ue federation_miswired"
  | ServiceBroker 'm
  | ServicePosture presented_disagrees
  | ServiceCredentials credentials_do_not_fit
  | ServiceUnreadable 'u
  | ServiceAnswersDoNotCertify 'd

datatype event =
    Minting request_context source_set
  | DryRun name executable presented bill_to
  | Charging subject u64
  | Executing name executable presented bill_to
  | Combining federated_plan
  | CombiningAcross drill_across_plan

section \<open>The deployment\<close>

record ('dg, 'sd) validated =
  va_version :: string
  va_digest :: 'dg
  va_definitions :: definitions
  va_schemas :: 'sd

record ('d, 'e, 'r, 'm, 'u, 'ue, 'dg, 'sd) deployment =
  dp_definitions :: "('dg, 'sd) validated"
  dp_of_one :: "metric \<Rightarrow> 'd + string"
  dp_metric_digest :: "name \<Rightarrow> 'd + metric_digest"
  dp_mint :: "request_context \<Rightarrow> source_set \<Rightarrow> 'm + minted"
  dp_warehouses :: "('e, 'r) warehouses"
  dp_to_rows :: "'r \<Rightarrow> 'u + row_set"
  dp_row_count :: "'r \<Rightarrow> nat"
  dp_rank :: "'r \<Rightarrow> top \<Rightarrow> 'ue + 'r"
  dp_ceilings :: ceilings
  dp_working_set_bytes :: nat

text \<open>The readings of the two clocks along one answer: unix seconds, or instants of the monotonic clock.\<close>

record clock =
  ck_agreed :: nat
  ck_before_dry_run :: nat
  ck_charged :: nat
  ck_usable :: nat
  ck_before_execute :: nat

definition scoped_for :: "definitions \<Rightarrow> request_context \<Rightarrow> scoped_view" where
  "scoped_for d context =
     (case ch_subject (rc_chain context) of
        TheDeploymentItself \<Rightarrow> \<lparr>sv_pinned = d, sv_scope = Everything\<rparr>
      | Verified _ \<Rightarrow> \<lparr>sv_pinned = d, sv_scope = Granted (rc_audiences context)\<rparr>)"

definition granted :: "agreed \<Rightarrow> refusal_reason + leg_credentials" where
  "granted a =
     (case a of
        AgreedGranted c \<Rightarrow> Inr c
      | AgreedRefused source \<Rightarrow> Inl (CredentialUnavailable source)
      | AgreedOutsideDomains source \<Rightarrow> Inl (AddressOutsideDomains source))"

definition provenance_for ::
  "('d, 'e, 'r, 'm, 'u, 'ue, 'dg, 'sd) deployment \<Rightarrow> executed_as \<Rightarrow> name list \<Rightarrow> 'd + ('dg, 'sd) provenance" where
  "provenance_for dp executed_as metrics =
     bind_res (traverse (dp_metric_digest dp) metrics) (\<lambda>digests.
       Inr \<lparr>pv_version = va_version (dp_definitions dp), pv_digest = va_digest (dp_definitions dp),
         pv_schemas = va_schemas (dp_definitions dp), pv_executed_as = executed_as, pv_metrics = digests\<rparr>)"

section \<open>Charging\<close>

definition attributed_subject :: "request_context \<Rightarrow> subject" where
  "attributed_subject context = (case attribution_of (rc_chain context) of BareSubject s \<Rightarrow> s | ActingFor s _ \<Rightarrow> s)"

definition charge_subject ::
  "subject spend_ledger \<Rightarrow> request_context \<Rightarrow> u64 \<Rightarrow> nat \<Rightarrow> subject spend_ledger \<times> refusal_reason option" where
  "charge_subject ledger context bytes now =
     (case charge ledger (attributed_subject context) bytes now of
        (ledger', Admitted) \<Rightarrow> (ledger', None)
      | (ledger', ChargeRefused reset) \<Rightarrow>
          (ledger', Some (BudgetExhausted
            (of_nat (reset div nanos_per_second + (if reset mod nanos_per_second \<noteq> 0 then 1 else 0))))))"

definition budget_exhausted ::
  "subject spend_ledger \<Rightarrow> request_context \<Rightarrow> preflight \<Rightarrow> nat \<Rightarrow> subject spend_ledger \<times> refusal_reason option" where
  "budget_exhausted ledger context p now =
     (case p of Accepted (Some estimated_bytes) \<Rightarrow> charge_subject ledger context estimated_bytes now | _ \<Rightarrow> (ledger, None))"

definition charge_events :: "request_context \<Rightarrow> preflight \<Rightarrow> event list" where
  "charge_events context p =
     (case p of Accepted (Some estimated_bytes) \<Rightarrow> [Charging (attributed_subject context) estimated_bytes] | _ \<Rightarrow> [])"

section \<open>One statement\<close>

text \<open>How the answer path reads the error of a dry run, and of an execution: a refusal the caller is told, or a failure.\<close>

definition dry_run_refusal :: "('e, 'r) warehouse \<Rightarrow> deadline \<Rightarrow> 'e \<Rightarrow> refusal_reason option" where
  "dry_run_refusal wh d cause =
     (if wh_deadline_exceeded wh cause then Some (deadline_exceeded d)
      else if wh_source_refused wh cause then Some (SourceRefused (wh_source wh))
      else None)"

definition execute_refusal :: "('e, 'r) warehouse \<Rightarrow> deadline \<Rightarrow> 'e \<Rightarrow> refusal_reason option" where
  "execute_refusal wh d cause =
     (case wh_working_set_exhausted wh cause of
        Some most_bytes \<Rightarrow> Some (ResourcesExhausted most_bytes)
      | None \<Rightarrow>
          if wh_result_did_not_fit wh cause then Some (ResultTooLarge BoundVolume)
          else if wh_deadline_exceeded wh cause then Some (deadline_exceeded d)
          else if wh_source_refused wh cause then Some (SourceRefused (wh_source wh))
          else None)"

text \<open>An error of a billed call: a refusal, or the failure of the data system.\<close>

definition billed_outcome ::
  "('e \<Rightarrow> refusal_reason option) \<Rightarrow> leg_credentials \<Rightarrow> 'e billed
     \<Rightarrow> ('d, 'e, 'c, 'm, 'u, 'ue) service_error + ('dg, 'sd) answered" where
  "billed_outcome refusal credentials b =
     (case into_source b of
        Inl reason \<Rightarrow> Inr (answered_refused credentials reason)
      | Inr cause \<Rightarrow>
          (case refusal cause of Some reason \<Rightarrow> Inr (answered_refused credentials reason) | None \<Rightarrow> Inl (ServiceWarehouse cause)))"

definition bounded_rows ::
  "('d, 'e, 'r, 'm, 'u, 'ue, 'dg, 'sd) deployment \<Rightarrow> u32 \<Rightarrow> leg_credentials \<Rightarrow> executed_as \<Rightarrow> name list \<Rightarrow> row_set
     \<Rightarrow> ('d, 'e, 'c, 'm, 'u, 'ue) service_error + ('dg, 'sd) answered" where
  "bounded_rows dp max_rows credentials executed_as metrics rows =
     (if exceeds_row_cap_of (length (rs_rows rows)) max_rows
      then Inr (answered_refused credentials (ResultTooLarge (BoundRows max_rows)))
      else (case exceeds_response_bound rows of
              Some limit_bytes \<Rightarrow> Inr (answered_refused credentials (ResultTooLarge (BoundEncoded limit_bytes)))
            | None \<Rightarrow>
                bind_res (map_err ServiceAnswersDoNotCertify (provenance_for dp executed_as metrics)) (\<lambda>pv.
                  Inr (answered_under credentials (ToolAnswer pv rows)))))"

definition execute_one ::
  "('d, 'e, 'r, 'm, 'u, 'ue, 'dg, 'sd) deployment \<Rightarrow> clock \<Rightarrow> request_context \<Rightarrow> deadline \<Rightarrow> ('e, 'r) warehouse
     \<Rightarrow> leg_credentials \<Rightarrow> presented \<Rightarrow> executed_as \<Rightarrow> name list \<Rightarrow> u32 \<Rightarrow> executable
     \<Rightarrow> event list \<times> (('d, 'e, 'c, 'm, 'u, 'ue) service_error + ('dg, 'sd) answered)" where
  "execute_one dp ck context d wh credentials p executed_as metrics max_rows asked =
     (let source = exec_source asked; b = bill_to_for credentials source in
      case still_usable_at credentials (ck_usable ck) of
        Inl cause \<Rightarrow> ([], Inl (ServiceCredentials cause))
      | Inr _ \<Rightarrow>
          if remaining_at d (ck_before_execute ck) = None then ([], Inr (answered_refused credentials (deadline_exceeded d)))
          else ([Executing source asked p b],
            (case wh_execute wh asked p b context d of
               Inl billed \<Rightarrow> billed_outcome (execute_refusal wh d) credentials billed
             | Inr batches \<Rightarrow>
                 bind_res (map_err ServiceUnreadable (dp_to_rows dp batches))
                   (bounded_rows dp max_rows credentials executed_as metrics))))"

definition run_one ::
  "('d, 'e, 'r, 'm, 'u, 'ue, 'dg, 'sd) deployment \<Rightarrow> clock \<Rightarrow> request_context \<Rightarrow> deadline \<Rightarrow> subject spend_ledger
     \<Rightarrow> ('e, 'r) warehouse \<Rightarrow> leg_credentials \<Rightarrow> presented \<Rightarrow> executed_as \<Rightarrow> name list \<Rightarrow> u32 \<Rightarrow> executable
     \<Rightarrow> subject spend_ledger \<times> event list \<times> (('d, 'e, 'c, 'm, 'u, 'ue) service_error + ('dg, 'sd) answered)" where
  "run_one dp ck context d ledger wh credentials p executed_as metrics max_rows asked =
     (let source = exec_source asked; b = bill_to_for credentials source in
      if remaining_at d (ck_before_dry_run ck) = None then (ledger, [], Inr (answered_refused credentials (deadline_exceeded d)))
      else (case wh_dry_run wh asked p b context d of
          Inl billed \<Rightarrow> (ledger, [DryRun source asked p b], billed_outcome (dry_run_refusal wh d) credentials billed)
        | Inr preflight \<Rightarrow>
            (case budget_exhausted ledger context preflight (ck_charged ck) of
               (ledger', Some reason) \<Rightarrow>
                 (ledger', DryRun source asked p b # charge_events context preflight, Inr (answered_refused credentials reason))
             | (ledger', None) \<Rightarrow>
                 (case execute_one dp ck context d wh credentials p executed_as metrics max_rows asked of
                    (events, outcome) \<Rightarrow>
                      (ledger', DryRun source asked p b # charge_events context preflight @ events, outcome)))))"

definition answer_one ::
  "('d, 'e, 'r, 'm, 'u, 'ue, 'dg, 'sd) deployment \<Rightarrow> clock \<Rightarrow> request_context \<Rightarrow> deadline \<Rightarrow> subject spend_ledger
     \<Rightarrow> name list \<Rightarrow> u32 \<Rightarrow> executable
     \<Rightarrow> subject spend_ledger \<times> event list \<times> (('d, 'e, 'c, 'm, 'u, 'ue) service_error + ('dg, 'sd) answered)" where
  "answer_one dp ck context d ledger metrics max_rows asked =
     (let source = exec_source asked; requested = source_set_of source; mint = Minting context requested in
      case (warehouses_get (dp_warehouses dp) source, executed_on (dp_warehouses dp) source) of
        (Some wh, Some executed_as) \<Rightarrow>
          (case dp_mint dp context requested of
             Inl cause \<Rightarrow> (ledger, [mint], Inl (ServiceBroker cause))
           | Inr minted \<Rightarrow>
               (case agreeing_with minted (ch_subject (rc_chain context)) requested (ck_agreed ck) of
                  Inl cause \<Rightarrow> (ledger, [mint], Inl (ServiceCredentials cause))
                | Inr agreed \<Rightarrow>
                    (case granted agreed of
                       Inl reason \<Rightarrow> (ledger, [mint], Inr (declined_before_minting (ToolRefusal reason)))
                     | Inr credentials \<Rightarrow>
                         (case presented_for credentials source of
                            Inl cause \<Rightarrow> (ledger, [mint], Inl (ServiceCredentials cause))
                          | Inr p \<Rightarrow>
                              (case agrees_with p (wh_posture wh) source of
                                 Inl cause \<Rightarrow> (ledger, [mint], Inl (ServicePosture cause))
                               | Inr _ \<Rightarrow>
                                   (case run_one dp ck context d ledger wh credentials p executed_as metrics max_rows asked of
                                      (ledger', events, outcome) \<Rightarrow> (ledger', mint # events, outcome)))))))
      | _ \<Rightarrow> (ledger, [], Inr (declined_before_minting (ToolRefusal (SourceUnavailable source)))))"

section \<open>What one statement does\<close>

lemma granted_ok: "granted a = Inr c \<longleftrightarrow> a = AgreedGranted c"
  by (cases a) (auto simp: granted_def)

lemma execute_one_events:
  assumes "execute_one dp ck context d wh credentials p executed_as metrics max_rows asked = (events, outcome)"
  shows "events = [] \<or> (events = [Executing (exec_source asked) asked p (bill_to_for credentials (exec_source asked))]
     \<and> passed_by (lc_not_after credentials) (ck_usable ck) = None \<and> remaining_at d (ck_before_execute ck) \<noteq> None)"
  using assms still_usable_ok [of credentials "ck_usable ck"]
  by (auto simp: execute_one_def Let_def split: sum.splits if_splits)

definition charged :: "subject spend_ledger \<Rightarrow> request_context \<Rightarrow> preflight \<Rightarrow> nat \<Rightarrow> bool" where
  "charged ledger context p now \<longleftrightarrow>
     (case p of Accepted (Some n) \<Rightarrow> snd (charge ledger (attributed_subject context) n now) = Admitted | _ \<Rightarrow> True)"

lemma budget_exhausted_None: "budget_exhausted ledger context p now = (ledger', None) \<Longrightarrow> charged ledger context p now"
  by (auto simp: budget_exhausted_def charged_def charge_subject_def split: preflight.splits option.splits prod.splits charge_outcome.splits)

lemma run_one_events:
  assumes "run_one dp ck context d ledger wh credentials p executed_as metrics max_rows asked = (ledger', events, outcome)"
    and "e \<in> set events"
  shows "\<exists>preflight. let source = exec_source asked; b = bill_to_for credentials source in
      remaining_at d (ck_before_dry_run ck) \<noteq> None \<and>
      (events = [DryRun source asked p b]
       \<or> (wh_dry_run wh asked p b context d = Inr preflight \<and>
          (events = DryRun source asked p b # charge_events context preflight
           \<or> (events = DryRun source asked p b # charge_events context preflight @ [Executing source asked p b]
              \<and> charged ledger context preflight (ck_charged ck)
              \<and> passed_by (lc_not_after credentials) (ck_usable ck) = None \<and> remaining_at d (ck_before_execute ck) \<noteq> None))))"
proof -
  let ?source = "exec_source asked" let ?b = "bill_to_for credentials ?source"
  have dl: "remaining_at d (ck_before_dry_run ck) \<noteq> None"
  proof
    assume "remaining_at d (ck_before_dry_run ck) = None"
    with assms show False by (auto simp: run_one_def)
  qed
  show ?thesis
  proof (cases "wh_dry_run wh asked p ?b context d")
    case (Inl billed)
    with assms(1) dl show ?thesis by (auto simp: run_one_def Let_def)
  next
    case (Inr preflight)
    obtain l r where be: "budget_exhausted ledger context preflight (ck_charged ck) = (l, r)"
      by (cases "budget_exhausted ledger context preflight (ck_charged ck)")
    show ?thesis
    proof (cases r)
      case (Some reason)
      with assms(1) dl Inr be show ?thesis by (auto simp: run_one_def Let_def)
    next
      case None
      obtain es where ex: "execute_one dp ck context d wh credentials p executed_as metrics max_rows asked = (es, outcome)"
        and ev: "events = DryRun ?source asked p ?b # charge_events context preflight @ es"
        using assms(1) dl Inr be None by (auto simp: run_one_def Let_def split: prod.splits)
      from execute_one_events [OF ex] budget_exhausted_None [of ledger "context" preflight "ck_charged ck" l] be None dl Inr ev
      show ?thesis by (intro exI [of _ preflight]) (auto simp: Let_def)
    qed
  qed
qed

lemma answer_one_credentials:
  assumes "answer_one dp ck context d ledger metrics max_rows asked = (ledger', events, outcome)" and "e \<in> set events"
  shows "e = Minting context (source_set_of (exec_source asked))
    \<or> (\<exists>wh executed_as credentials p es. warehouses_get (dp_warehouses dp) (exec_source asked) = Some wh
        \<and> dp_mint dp context (source_set_of (exec_source asked)) = Inr (MintGranted credentials)
        \<and> lc_asked_by credentials = ch_subject (rc_chain context)
        \<and> set (bt_keys (lc_by_source credentials)) = {exec_source asked}
        \<and> passed_by (lc_not_after credentials) (ck_agreed ck) = None
        \<and> bt_get (lc_by_source credentials) (exec_source asked) = Some p
        \<and> agrees_with p (wh_posture wh) (exec_source asked) = Inr ()
        \<and> run_one dp ck context d ledger wh credentials p executed_as metrics max_rows asked = (ledger', es, outcome)
        \<and> events = Minting context (source_set_of (exec_source asked)) # es \<and> e \<in> set es)"
proof -
  let ?source = "exec_source asked" let ?requested = "source_set_of ?source" let ?mint = "Minting context ?requested"
  have of: "executed_on (dp_warehouses dp) ?source = map_option (\<lambda>w. executed_of ?source (wh_posture w)) (warehouses_get (dp_warehouses dp) ?source)"
    by (simp add: executed_on_def)
  show ?thesis
  proof (cases "warehouses_get (dp_warehouses dp) ?source")
    case None
    with assms of show ?thesis by (auto simp: answer_one_def Let_def)
  next
    case wh: (Some wh)
    show ?thesis
    proof (cases "e = ?mint")
      case e: False
      obtain minted where m: "dp_mint dp context ?requested = Inr minted"
        using assms of wh e by (cases "dp_mint dp context ?requested") (auto simp: answer_one_def Let_def)
      obtain agreed where a: "agreeing_with minted (ch_subject (rc_chain context)) ?requested (ck_agreed ck) = Inr agreed"
        using assms of wh e m by (cases "agreeing_with minted (ch_subject (rc_chain context)) ?requested (ck_agreed ck)")
          (auto simp: answer_one_def Let_def)
      obtain credentials where g: "granted agreed = Inr credentials"
        using assms of wh e m a by (cases "granted agreed") (auto simp: answer_one_def Let_def)
      obtain p where p: "presented_for credentials ?source = Inr p"
        using assms of wh e m a g by (cases "presented_for credentials ?source") (auto simp: answer_one_def Let_def)
      have w: "agrees_with p (wh_posture wh) ?source = Inr ()"
        using assms of wh e m a g p by (cases "agrees_with p (wh_posture wh) ?source") (auto simp: answer_one_def Let_def)
      obtain es where r: "run_one dp ck context d ledger wh credentials p (executed_of ?source (wh_posture wh)) metrics max_rows asked
          = (ledger', es, outcome)" "events = ?mint # es"
        using assms of wh e m a g p w by (auto simp: answer_one_def Let_def split: prod.splits)
      from a g have fits: "agreeing_with minted (ch_subject (rc_chain context)) ?requested (ck_agreed ck) = Inr (AgreedGranted credentials)"
        by (simp add: granted_ok)
      show ?thesis using wh m fits p w r assms(2) e
        by (intro disjI2 exI [of _ wh] exI [of _ "executed_of ?source (wh_posture wh)"] exI [of _ credentials] exI [of _ p] exI [of _ es])
          (auto simp: agreeing_granted presented_for_ok source_set_of_def)
    qed simp
  qed
qed

text \<open>What must hold before a statement runs.\<close>

definition cleared_to_run ::
  "('d, 'e, 'r, 'm, 'u, 'ue, 'dg, 'sd) deployment \<Rightarrow> clock \<Rightarrow> request_context \<Rightarrow> deadline \<Rightarrow> subject spend_ledger
     \<Rightarrow> executable \<Rightarrow> presented \<Rightarrow> bill_to \<Rightarrow> bool" where
  "cleared_to_run dp ck context d ledger asked p b \<longleftrightarrow>
     (\<exists>wh credentials preflight. let source = exec_source asked in
        warehouses_get (dp_warehouses dp) source = Some wh
        \<and> dp_mint dp context (source_set_of source) = Inr (MintGranted credentials)
        \<and> lc_asked_by credentials = ch_subject (rc_chain context) \<and> bt_get (lc_by_source credentials) source = Some p
        \<and> agrees_with p (wh_posture wh) source = Inr () \<and> b = bill_to_for credentials source
        \<and> wh_dry_run wh asked p b context d = Inr preflight \<and> charged ledger context preflight (ck_charged ck)
        \<and> passed_by (lc_not_after credentials) (ck_agreed ck) = None \<and> passed_by (lc_not_after credentials) (ck_usable ck) = None
        \<and> remaining_at d (ck_before_dry_run ck) \<noteq> None \<and> remaining_at d (ck_before_execute ck) \<noteq> None)"

lemma answer_one_executes:
  assumes "answer_one dp ck context d ledger metrics max_rows asked = (ledger', events, outcome)"
    and "Executing source ex p b \<in> set events"
  shows "source = exec_source asked \<and> ex = asked \<and> cleared_to_run dp ck context d ledger asked p b
    \<and> (\<exists>charges. events = [Minting context (source_set_of source), DryRun source asked p b] @ charges @ [Executing source asked p b]
        \<and> set charges \<subseteq> range (Charging (attributed_subject context)))"
proof -
  from answer_one_credentials [OF assms] obtain wh executed_as credentials q es where
    wh: "warehouses_get (dp_warehouses dp) (exec_source asked) = Some wh"
    "dp_mint dp context (source_set_of (exec_source asked)) = Inr (MintGranted credentials)"
    "lc_asked_by credentials = ch_subject (rc_chain context)" "passed_by (lc_not_after credentials) (ck_agreed ck) = None"
    "bt_get (lc_by_source credentials) (exec_source asked) = Some q" "agrees_with q (wh_posture wh) (exec_source asked) = Inr ()"
    and run: "run_one dp ck context d ledger wh credentials q executed_as metrics max_rows asked = (ledger', es, outcome)"
    and ev: "events = Minting context (source_set_of (exec_source asked)) # es" and mem: "Executing source ex p b \<in> set es" by auto
  from run_one_events [OF run mem] obtain preflight where
    r: "remaining_at d (ck_before_dry_run ck) \<noteq> None"
    and cases: "es = [DryRun (exec_source asked) asked q (bill_to_for credentials (exec_source asked))]
       \<or> (wh_dry_run wh asked q (bill_to_for credentials (exec_source asked)) context d = Inr preflight \<and>
          (es = DryRun (exec_source asked) asked q (bill_to_for credentials (exec_source asked)) # charge_events context preflight
           \<or> (es = DryRun (exec_source asked) asked q (bill_to_for credentials (exec_source asked)) # charge_events context preflight
                 @ [Executing (exec_source asked) asked q (bill_to_for credentials (exec_source asked))]
              \<and> charged ledger context preflight (ck_charged ck)
              \<and> passed_by (lc_not_after credentials) (ck_usable ck) = None \<and> remaining_at d (ck_before_execute ck) \<noteq> None)))"
    unfolding Let_def by blast
  have charges: "set (charge_events context preflight) \<subseteq> range (Charging (attributed_subject context))"
    by (auto simp: charge_events_def split: preflight.split option.split)
  with cases mem have es: "es = DryRun source asked p b # charge_events context preflight @ [Executing source asked p b]"
    and same: "source = exec_source asked" "ex = asked" "p = q" "b = bill_to_for credentials (exec_source asked)"
    and rest: "wh_dry_run wh asked q (bill_to_for credentials (exec_source asked)) context d = Inr preflight"
      "charged ledger context preflight (ck_charged ck)" "passed_by (lc_not_after credentials) (ck_usable ck) = None"
      "remaining_at d (ck_before_execute ck) \<noteq> None" by auto
  have "cleared_to_run dp ck context d ledger asked p b"
    unfolding cleared_to_run_def Let_def using wh rest r same by blast
  with es ev same charges show ?thesis by auto
qed

text \<open>Rows that leave are bounded and carry the provenance of the data system they came from.\<close>

definition answer_ok ::
  "('d, 'e, 'r, 'm, 'u, 'ue, 'dg, 'sd) deployment \<Rightarrow> u32 \<Rightarrow> name list \<Rightarrow> ('dg, 'sd) answered \<Rightarrow> bool" where
  "answer_ok dp max_rows metrics a \<longleftrightarrow>
     (\<forall>pv rows. an_outcome a = ToolAnswer pv rows \<longrightarrow>
        length (rs_rows rows) \<le> unat max_rows \<and> rendered_byte_len rows \<le> 8388608
        \<and> an_executed_until a \<noteq> None \<and> traverse (dp_metric_digest dp) metrics = Inr (pv_metrics pv)
        \<and> pv_version pv = va_version (dp_definitions dp))"

lemma bounded_rows_ok:
  "bounded_rows dp max_rows credentials executed_as metrics rows = Inr a \<Longrightarrow> answer_ok dp max_rows metrics a"
  by (auto simp: bounded_rows_def answer_ok_def exceeds_row_cap_of_def exceeds_response_bound_def answered_refused_def
      answered_under_def provenance_for_def RESPONSE_BYTES_DEFAULT_def bind_res_eq_Inr map_err_eq_Inr not_less split: if_splits)

lemma refused_ok: "answer_ok dp max_rows metrics (answered_refused c reason)" "answer_ok dp max_rows metrics (declined_before_minting (ToolRefusal reason))"
  by (simp_all add: answer_ok_def answered_refused_def answered_under_def declined_before_minting_def)

lemma billed_outcome_ok: "billed_outcome f c b = Inr a \<Longrightarrow> answer_ok dp max_rows metrics a"
  by (auto simp: billed_outcome_def refused_ok split: sum.splits option.splits)

lemma execute_one_ok:
  "execute_one dp ck context d wh c p executed_as metrics max_rows asked = (es, Inr a) \<Longrightarrow> answer_ok dp max_rows metrics a"
  by (auto simp: execute_one_def Let_def refused_ok bind_res_eq_Inr bounded_rows_ok billed_outcome_ok split: sum.splits if_splits)

lemma run_one_ok:
  "run_one dp ck context d ledger wh c p executed_as metrics max_rows asked = (l, es, Inr a) \<Longrightarrow> answer_ok dp max_rows metrics a"
  by (auto simp: run_one_def Let_def refused_ok billed_outcome_ok execute_one_ok split: sum.splits if_splits prod.splits option.splits)

lemma answer_one_ok:
  "answer_one dp ck context d ledger metrics max_rows asked = (l, es, Inr a) \<Longrightarrow> answer_ok dp max_rows metrics a"
  by (auto simp: answer_one_def Let_def refused_ok run_one_ok split: sum.splits if_splits prod.splits option.splits)

end
