(* ===== verification/Grant.thy ===== *)
theory Grant
  imports Wire Answer
begin

text \<open>
  Grants of a split lookup (\<open>sutura-domain/src/plan/split.rs\<close>, \<open>identity/source_token.rs\<close>):
  what another node may read of a leg, for whom, and until when. A \<open>SystemTime\<close> is a nanosecond count
  since the Unix epoch, which the platform holds for second counts below $2^{63}$. The digest of a secret, the
  serialization of a leg, the schema and the pool are arguments; what a grant holds open is left out.
\<close>

section \<open>Tokens\<close>

record delegated =
  dg_token :: ustr
  dg_not_after :: u64

record ('h, 'p) source_token =
  stk_secret :: ustr
  stk_not_after :: nat
  stk_pool :: 'p
  stk_exchanged_from :: 'h

definition system_time_at :: "nat \<Rightarrow> nat option" where
  "system_time_at seconds = (if seconds < 2 ^ 63 then Some (seconds * nanos_per_second) else None)"

definition token_exchanged :: "(ustr \<Rightarrow> 'h) \<Rightarrow> ustr \<Rightarrow> 'p \<Rightarrow> delegated \<Rightarrow> ('h, 'p) source_token" where
  "token_exchanged hash from_secret pool forwarded =
     \<lparr>stk_secret = dg_token forwarded,
      stk_not_after = (case system_time_at (unat (dg_not_after forwarded)) of None \<Rightarrow> 0 | Some t \<Rightarrow> t),
      stk_pool = pool, stk_exchanged_from = hash from_secret\<rparr>"

section \<open>Grants\<close>

datatype ('h, 'p) reads_as = ReadsServiceUser | ReadsCallerToken "('h, 'p) source_token"

record ('h, 'p, 'sch) granted_read =
  gr_wire :: "nat list"
  gr_schema :: 'sch
  gr_partitions :: "nat list nonempty"
  gr_caller :: subject_key
  gr_until :: nat
  gr_stream_rows :: u32
  gr_estimate :: u64
  gr_reads :: "('h, 'p) reads_as"

datatype grant_expired = GrantExpired nat

definition granted_new ::
  "nat list \<Rightarrow> 'sch \<Rightarrow> nat list nonempty \<Rightarrow> subject_key \<Rightarrow> nat \<Rightarrow> nat \<Rightarrow> u32 \<Rightarrow> u64 \<Rightarrow> grant_expired + ('h, 'p, 'sch) granted_read" where
  "granted_new wire schema partitions caller until now stream_rows estimate =
     (if until \<le> now then Inl (GrantExpired until)
      else Inr \<lparr>gr_wire = wire, gr_schema = schema, gr_partitions = partitions, gr_caller = caller, gr_until = until,
        gr_stream_rows = stream_rows, gr_estimate = estimate, gr_reads = ReadsServiceUser\<rparr>)"

definition granted_forwarding ::
  "('h, 'p, 'sch) granted_read \<Rightarrow> ('h, 'p) source_token \<Rightarrow> nat \<Rightarrow> grant_expired + ('h, 'p, 'sch) granted_read" where
  "granted_forwarding g token now =
     (let until = min (gr_until g) (stk_not_after token) in
      if until \<le> now then Inl (GrantExpired until)
      else Inr (g\<lparr>gr_until := until, gr_reads := ReadsCallerToken token\<rparr>))"

section \<open>Grantees\<close>

record ('h, 'p) grantee =
  ge_wire :: "nat list"
  ge_caller :: subject_key
  ge_until :: nat
  ge_presented :: "'h option"
  ge_token :: "('h, 'p) source_token option"

datatype 's not_offered = NoCaller | NotSendable "'s not_sendable"

datatype not_granted = NotPortable | GrantEnded grant_expired

datatype not_the_callers_token = NotTheCallersToken

definition grantee_new ::
  "(ustr \<Rightarrow> 'h) \<Rightarrow> (partition_leg \<Rightarrow> 's + nat list) \<Rightarrow> leg_plan \<Rightarrow> leg_credentials \<Rightarrow> nat \<Rightarrow> 's not_offered + ('h, 'p) grantee" where
  "grantee_new hash to_vec leg asked question_ends =
     bind_res (ok_or NoCaller (subject_key_of (lc_asked_by asked))) (\<lambda>caller.
     let until = (case Option.bind (unix_seconds (lc_not_after asked)) system_time_at of
             None \<Rightarrow> question_ends | Some expires \<Rightarrow> min expires question_ends);
         presented = (case presented_for asked (lp_source leg) of
             Inr (SubjectToken material) \<Rightarrow> Some (hash material) | _ \<Rightarrow> None) in
     bind_res (map_err NotSendable (partition_encode to_vec leg)) (\<lambda>wire.
       Inr \<lparr>ge_wire = wire, ge_caller = caller, ge_until = until, ge_presented = presented, ge_token = None\<rparr>))"

definition grantee_forwarding ::
  "('h, 'p) grantee \<Rightarrow> ('h, 'p) source_token \<Rightarrow> not_the_callers_token + ('h, 'p) grantee" where
  "grantee_forwarding g token =
     (if ge_presented g \<noteq> Some (stk_exchanged_from token) then Inl NotTheCallersToken
      else Inr (g\<lparr>ge_token := Some token\<rparr>))"

definition grantee_grant ::
  "('h, 'p) grantee \<Rightarrow> 'sch \<Rightarrow> nat list option list \<Rightarrow> u32 \<Rightarrow> u64 \<Rightarrow> nat \<Rightarrow> not_granted + ('h, 'p, 'sch) granted_read" where
  "grantee_grant g schema partitions stream_rows estimate now =
     bind_res (ok_or NotPortable (collect_some partitions)) (\<lambda>portable.
     bind_res (ok_or NotPortable (ne_parse portable)) (\<lambda>partitions.
     bind_res (map_err GrantEnded (granted_new (ge_wire g) schema partitions (ge_caller g) (ge_until g) now stream_rows estimate)) (\<lambda>granted.
       case ge_token g of
         Some token \<Rightarrow> map_err GrantEnded (granted_forwarding granted token now)
       | None \<Rightarrow> Inr granted)))"

section \<open>Facts\<close>

lemma grantee_new_ok:
  "(grantee_new hash to_vec leg c ends :: 's not_offered + ('h, 'p) grantee) = Inr g \<Longrightarrow>
     subject_key_of (lc_asked_by c) = Some (ge_caller g) \<and> ge_until g \<le> ends \<and> ge_token g = None
     \<and> (\<forall>t. lc_not_after c = ExpiresAt t \<longrightarrow> t < 2 ^ 63 \<longrightarrow> ge_until g \<le> t * nanos_per_second)
     \<and> (\<forall>h. ge_presented g = Some h \<longrightarrow> (\<exists>material. bt_get (lc_by_source c) (lp_source leg) = Some (SubjectToken material) \<and> h = hash material))"
  by (cases "lc_not_after c")
    (auto simp: grantee_new_def Let_def res_simps system_time_at_def presented_for_def ok_or_def split: option.splits sum.splits presented.splits if_splits)

lemma grantee_grant_ok:
  "grantee_grant g schema partitions stream_rows estimate now = Inr gr \<Longrightarrow>
     now < gr_until gr \<and> gr_until gr \<le> ge_until g \<and> gr_caller gr = ge_caller g
     \<and> (\<forall>token. gr_reads gr = ReadsCallerToken token \<longrightarrow> ge_token g = Some token \<and> gr_until gr \<le> stk_not_after token)"
  by (auto simp: grantee_grant_def granted_new_def granted_forwarding_def Let_def res_simps split: option.splits if_splits)

section \<open>Properties\<close>

text \<open>
  C?: a grant is for the verified caller who asked, and it ends after the instant it is checked at and no later
  than the question, than the credential the caller's request rests on and than the token it forwards; a token
  it forwards was exchanged from the very credential that caller presented for this data system.
\<close>

theorem grant_never_outlives:
  assumes "(grantee_new hash to_vec leg c ends :: 's not_offered + ('h, 'p) grantee) = Inr g"
    and "g' = g \<or> grantee_forwarding g token = Inr g'"
    and "grantee_grant g' schema partitions stream_rows estimate now = Inr gr"
  shows "now < gr_until gr \<and> gr_until gr \<le> ends \<and> subject_key_of (lc_asked_by c) = Some (gr_caller gr)
     \<and> (\<forall>t < 2 ^ 63. lc_not_after c = ExpiresAt t \<longrightarrow> gr_until gr \<le> t * 1000000000)
     \<and> (\<forall>tok. gr_reads gr = ReadsCallerToken tok \<longrightarrow> gr_until gr \<le> stk_not_after tok
          \<and> (\<exists>material. bt_get (lc_by_source c) (lp_source leg) = Some (SubjectToken material) \<and> stk_exchanged_from tok = hash material))"
proof -
  note new = grantee_new_ok [OF assms(1)] and gr = grantee_grant_ok [OF assms(3)]
  from assms(2) have g': "ge_until g' = ge_until g" "ge_caller g' = ge_caller g"
    "\<forall>tok. ge_token g' = Some tok \<longrightarrow> ge_token g = Some tok \<or> ge_presented g = Some (stk_exchanged_from tok)"
    by (auto simp: grantee_forwarding_def split: if_splits)
  have "gr_until gr \<le> t * 1000000000" if "t < 2 ^ 63" "lc_not_after c = ExpiresAt t" for t
    using that new gr g'(1) by (fastforce simp: nanos_per_second_def)
  moreover have "\<exists>material. bt_get (lc_by_source c) (lp_source leg) = Some (SubjectToken material) \<and> stk_exchanged_from tok = hash material"
    if "gr_reads gr = ReadsCallerToken tok" for tok
    using that new gr g'(3) by fastforce
  ultimately show ?thesis using new gr g'(1,2) by auto
qed

theorem grant_never_outlives_witness:
  "\<exists>gr :: (ustr, unit, unit) granted_read. gr_until gr = 7000000000 \<and> gr_until gr \<le> 9000000000 \<and> gr_until gr \<le> 8 * 1000000000"
proof -
  let ?key = "SubjectKey (codes ''ann'')" let ?vp = "\<lparr>vp_id = SubjectId (codes ''ann''), vp_key = ?key\<rparr>"
  let ?c = "\<lparr>lc_asked_by = Verified ?vp, lc_not_after = ExpiresAt 8, lc_by_source = [(''s'', SubjectToken [1])], lc_bill_to = []\<rparr>"
  let ?leg = "LegLookup ''s'' \<lparr>md_metric = ''m'', md_digest = ''d''\<rparr> \<lparr>st_table = \<lparr>qt_qualifier = None, qt_table = ''t''\<rparr>, st_joins = []\<rparr> [] bindings_none"
  let ?g = "\<lparr>ge_wire = [], ge_caller = ?key, ge_until = 8000000000, ge_presented = Some [1], ge_token = None\<rparr> :: (ustr, unit) grantee"
  let ?tok = "token_exchanged id [1] () \<lparr>dg_token = [2], dg_not_after = 7\<rparr>"
  let ?g' = "?g\<lparr>ge_token := Some ?tok\<rparr>"
  let ?gr = "\<lparr>gr_wire = [], gr_schema = (), gr_partitions = NonEmpty [5] [], gr_caller = ?key, gr_until = 7000000000, gr_stream_rows = 10,
    gr_estimate = 20, gr_reads = ReadsCallerToken ?tok\<rparr> :: (ustr, unit, unit) granted_read"
  have t: "stk_not_after ?tok = 7000000000" "stk_exchanged_from ?tok = [1]"
    by (simp_all add: token_exchanged_def system_time_at_def nanos_per_second_def)
  have a: "(grantee_new id (\<lambda>_. Inr [] :: unit + nat list) ?leg ?c 9000000000 :: unit not_offered + _) = Inr ?g"
    by (simp add: grantee_new_def Let_def system_time_at_def nanos_per_second_def presented_for_def partition_encode_def to_wire_def)
  have b: "grantee_forwarding ?g ?tok = Inr ?g'" using t by (simp add: grantee_forwarding_def)
  have d: "grantee_grant ?g' () [Some [5]] 10 20 6 = Inr ?gr"
    using t by (simp add: grantee_grant_def granted_new_def granted_forwarding_def ne_parse_def)
  have u: "gr_until ?gr = 7000000000" by simp
  show ?thesis
    by (rule exI [of _ ?gr]) (use grant_never_outlives [OF a disjI2 [OF b] d] u in simp)
qed

end
