(* ===== verification/Spec2Isabelle.thy ===== *)
theory Spec2Isabelle
  imports Calendar Federation Certify Grant
begin

text \<open>
  Sutura, a governed query engine for business metrics: the domain crate.
\<close>

end
